(* ===== verification/Prelude.thy ===== *)
theory Prelude
  imports Main "HOL-Library.Sublist"
begin

text \<open>
  Shared vocabulary of the development: results and effectful computations (the model of
  Rust's \<open>Result\<close> and of code that mutates state behind \<open>Arc\<close> handles), the rules that
  lift a relation between states over such computations, and the lemmas on lists that several
  components use.
\<close>

named_theorems eff_simps \<open>unfolding rules of effectful computations\<close>
named_theorems eff_rel \<open>rules that lift a state relation over an effectful computation\<close>

section \<open>Results and effects\<close>

text \<open>
  \<open>Result<T, E>\<close> is \<open>'e + 'a\<close> with \<open>Inl\<close> for \<open>Err\<close>.  A computation that reads and writes the
  state \<open>'s\<close> and may fail is a state transformer; the state written before a failure is kept, as
  a Rust function that returns \<open>Err\<close> keeps the writes it has made.
\<close>

type_synonym ('s, 'e, 'a) eff = "'s \<Rightarrow> ('e + 'a) \<times> 's"

definition ret :: "'a \<Rightarrow> ('s, 'e, 'a) eff" where
  "ret x = (\<lambda>s. (Inr x, s))"

definition throw :: "'e \<Rightarrow> ('s, 'e, 'a) eff" where
  "throw e = (\<lambda>s. (Inl e, s))"

text \<open>Sequencing with the early return of the \<open>?\<close> operator.\<close>

definition bnd :: "('s, 'e, 'a) eff \<Rightarrow> ('a \<Rightarrow> ('s, 'e, 'b) eff) \<Rightarrow> ('s, 'e, 'b) eff" where
  "bnd m f = (\<lambda>s. case m s of (Inl e, s') \<Rightarrow> (Inl e, s') | (Inr x, s') \<Rightarrow> f x s')"

text \<open>\<open>match m.await { Ok(x) => f, Err(e) => g }\<close>: both branches go on.\<close>

definition handle ::
  "('s, 'e, 'a) eff \<Rightarrow> ('e \<Rightarrow> ('s, 'f, 'b) eff) \<Rightarrow> ('a \<Rightarrow> ('s, 'f, 'b) eff) \<Rightarrow> ('s, 'f, 'b) eff" where
  "handle m g f = (\<lambda>s. case m s of (Inl e, s') \<Rightarrow> g e s' | (Inr x, s') \<Rightarrow> f x s')"

definition modify :: "('s \<Rightarrow> 's) \<Rightarrow> ('s, 'e, unit) eff" where
  "modify h = (\<lambda>s. (Inr (), h s))"

definition gets :: "('s \<Rightarrow> 'a) \<Rightarrow> ('s, 'e, 'a) eff" where
  "gets h = (\<lambda>s. (Inr (h s), s))"

lemma ret_app [simp, eff_simps]: "ret x s = (Inr x, s)"
  by (simp add: ret_def)

lemma throw_app [simp, eff_simps]: "throw e s = (Inl e, s)"
  by (simp add: throw_def)

lemma modify_app [simp, eff_simps]: "modify h s = (Inr (), h s)"
  by (simp add: modify_def)

lemma gets_app [simp, eff_simps]: "gets h s = (Inr (h s), s)"
  by (simp add: gets_def)

lemma bnd_app [eff_simps]:
  "bnd m f s = (case m s of (Inl e, s') \<Rightarrow> (Inl e, s') | (Inr x, s') \<Rightarrow> f x s')"
  by (simp add: bnd_def)

lemma handle_app [eff_simps]:
  "handle m g f s = (case m s of (Inl e, s') \<Rightarrow> g e s' | (Inr x, s') \<Rightarrow> f x s')"
  by (simp add: handle_def)

lemma bnd_Inr [simp]: "m s = (Inr x, s') \<Longrightarrow> bnd m f s = f x s'"
  by (simp add: bnd_def)

lemma bnd_Inl [simp]: "m s = (Inl e, s') \<Longrightarrow> bnd m f s = (Inl e, s')"
  by (simp add: bnd_def)

lemma handle_Inr [simp]: "m s = (Inr x, s') \<Longrightarrow> handle m g f s = f x s'"
  by (simp add: handle_def)

lemma handle_Inl [simp]: "m s = (Inl e, s') \<Longrightarrow> handle m g f s = g e s'"
  by (simp add: handle_def)

lemma bnd_eq_Inr:
  "bnd m f s = (Inr y, t) \<longleftrightarrow> (\<exists>x s'. m s = (Inr x, s') \<and> f x s' = (Inr y, t))"
  by (cases "m s"; cases "fst (m s)") (auto simp: bnd_def)

lemma bnd_eq_Inl:
  "bnd m f s = (Inl e, t) \<longleftrightarrow>
     m s = (Inl e, t) \<or> (\<exists>x s'. m s = (Inr x, s') \<and> f x s' = (Inl e, t))"
  by (cases "m s"; cases "fst (m s)") (auto simp: bnd_def)

section \<open>Relations between the state before and the state after\<close>

text \<open>
  \<open>rel_eff R m\<close>: whatever \<open>m\<close> returns, the states before and after it are related by \<open>R\<close>.  For a
  reflexive and transitive \<open>R\<close> the relation is kept by every way the code combines calls; the
  locale below holds these rules once, for every such \<open>R\<close>.
\<close>

definition rel_eff :: "('s \<Rightarrow> 's \<Rightarrow> bool) \<Rightarrow> ('s, 'e, 'a) eff \<Rightarrow> bool" where
  "rel_eff R m \<longleftrightarrow> (\<forall>s. R s (snd (m s)))"

lemma rel_effD: "rel_eff R m \<Longrightarrow> m s = (r, t) \<Longrightarrow> R s t"
  by (metis rel_eff_def snd_conv)

lemma rel_effI: "(\<And>s r t. m s = (r, t) \<Longrightarrow> R s t) \<Longrightarrow> rel_eff R m"
  unfolding rel_eff_def by (metis prod.collapse)

locale state_rel =
  fixes R :: "'s \<Rightarrow> 's \<Rightarrow> bool"
  assumes rel_refl: "R s s"
    and rel_trans: "R s t \<Longrightarrow> R t u \<Longrightarrow> R s u"
begin

lemma rel_ret: "rel_eff R (ret x)"
  by (rule rel_effI) (auto simp: rel_refl)

lemma rel_throw: "rel_eff R (throw e)"
  by (rule rel_effI) (auto simp: rel_refl)

lemma rel_gets: "rel_eff R (gets h)"
  by (rule rel_effI) (auto simp: rel_refl)

lemma rel_bnd:
  assumes "rel_eff R m" and "\<And>x. rel_eff R (f x)"
  shows "rel_eff R (bnd m f)"
proof (rule rel_effI)
  fix s r t assume run: "bnd m f s = (r, t)"
  obtain q s' where m: "m s = (q, s')" by (cases "m s")
  have step: "R s s'" by (rule rel_effD [OF assms(1) m])
  show "R s t"
  proof (cases q)
    case (Inl e)
    with run m step show ?thesis by simp
  next
    case (Inr x)
    with run m have "R s' t" by (auto dest: rel_effD [OF assms(2)])
    with step show ?thesis by (rule rel_trans)
  qed
qed

lemma rel_handle:
  assumes "rel_eff R m" and "\<And>e. rel_eff R (g e)" and "\<And>x. rel_eff R (f x)"
  shows "rel_eff R (handle m g f)"
proof (rule rel_effI)
  fix s r t assume run: "handle m g f s = (r, t)"
  obtain q s' where m: "m s = (q, s')" by (cases "m s")
  have "R s s'" by (rule rel_effD [OF assms(1) m])
  moreover have "R s' t"
    using run m rel_effD [OF assms(2)] rel_effD [OF assms(3)] by (cases q) auto
  ultimately show "R s t" by (rule rel_trans)
qed

lemma rel_handle_ok:
  assumes "rel_eff R m" and "\<And>e. rel_eff R (g e)"
    and "\<And>s x t. m s = (Inr x, t) \<Longrightarrow> rel_eff R (f x)"
  shows "rel_eff R (handle m g f)"
proof (rule rel_effI)
  fix s r t assume run: "handle m g f s = (r, t)"
  obtain q s' where m: "m s = (q, s')" by (cases "m s")
  have "R s s'" by (rule rel_effD [OF assms(1) m])
  moreover have "R s' t"
    using run m rel_effD [OF assms(2)] rel_effD [OF assms(3)] by (cases q) auto
  ultimately show "R s t" by (rule rel_trans)
qed

lemma rel_modify: "(\<And>s. R s (h s)) \<Longrightarrow> rel_eff R (modify h)"
  by (rule rel_effI) auto

lemma rel_if: "rel_eff R m \<Longrightarrow> rel_eff R m' \<Longrightarrow> rel_eff R (if b then m else m')"
  by simp

lemmas rel_intros = rel_ret rel_throw rel_gets rel_bnd rel_handle rel_if

end

section \<open>Lists\<close>

lemma filter_eq_all: "(\<And>x. x \<in> set xs \<Longrightarrow> P x) \<Longrightarrow> filter P xs = xs"
  by (simp add: filter_id_conv)

lemma length_filter_split:
  "length (filter P xs) + length (filter (\<lambda>x. \<not> P x) xs) = length xs"
  by (induction xs) auto

lemma drop_nth_take:
  "i < length xs \<Longrightarrow> xs = take i xs @ xs ! i # drop (Suc i) xs"
  by (rule id_take_nth_drop)

text \<open>Insertion sort by a comparison: Rust's stable \<open>sort_by\<close> with a total preorder.\<close>

fun insert_by :: "('a \<Rightarrow> 'a \<Rightarrow> bool) \<Rightarrow> 'a \<Rightarrow> 'a list \<Rightarrow> 'a list" where
  "insert_by le x [] = [x]"
| "insert_by le x (y # ys) = (if le x y then x # y # ys else y # insert_by le x ys)"

fun sort_by :: "('a \<Rightarrow> 'a \<Rightarrow> bool) \<Rightarrow> 'a list \<Rightarrow> 'a list" where
  "sort_by le [] = []"
| "sort_by le (x # xs) = insert_by le x (sort_by le xs)"

lemma set_insert_by [simp]: "set (insert_by le x ys) = insert x (set ys)"
  by (induction ys) auto

lemma set_sort_by [simp]: "set (sort_by le xs) = set xs"
  by (induction xs) auto

lemma length_insert_by [simp]: "length (insert_by le x ys) = Suc (length ys)"
  by (induction ys) auto

lemma length_sort_by [simp]: "length (sort_by le xs) = length xs"
  by (induction xs) auto

text \<open>The contract of a comparison: a total preorder.  Every comparator of the code is one.\<close>

locale comparator =
  fixes le :: "'a \<Rightarrow> 'a \<Rightarrow> bool"
  assumes total: "le x y \<or> le y x"
    and le_trans: "le x y \<Longrightarrow> le y z \<Longrightarrow> le x z"
begin

lemma sorted_insert: "sorted_wrt le ys \<Longrightarrow> sorted_wrt le (insert_by le x ys)"
proof (induction ys)
  case (Cons y ys)
  show ?case
  proof (cases "le x y")
    case True
    with Cons.prems show ?thesis by (auto intro: le_trans)
  next
    case False
    with total have "le y x" by blast
    with Cons False show ?thesis by auto
  qed
qed simp

lemma sorted_sort: "sorted_wrt le (sort_by le xs)"
  by (induction xs) (auto simp: sorted_insert)

text \<open>Stability: elements that are equivalent under the comparison keep their order.\<close>

lemma filter_insert_stable:
  assumes eqv: "\<And>y z. P y \<Longrightarrow> P z \<Longrightarrow> le y z"
  shows "filter P (insert_by le x ys) = filter P (x # ys)"
proof (induction ys)
  case (Cons y ys)
  show ?case
  proof (cases "le x y")
    case False
    with eqv have "\<not> P x \<or> \<not> P y" by blast
    with Cons.IH False show ?thesis by (elim disjE) simp_all
  qed simp
qed simp

lemma sort_stable:
  assumes "\<And>y z. P y \<Longrightarrow> P z \<Longrightarrow> le y z"
  shows "filter P (sort_by le xs) = filter P xs"
proof (induction xs)
  case (Cons x xs)
  have "filter P (insert_by le x (sort_by le xs)) = filter P (x # sort_by le xs)"
    using assms by (rule filter_insert_stable)
  with Cons.IH show ?case by simp
qed simp

end

end
