(* ===== verification/Rust_Str.thy ===== *)
theory Rust_Str
  imports Prelude "HOL-Library.Char_ord"
begin

text \<open>
  The part of Rust's \<open>str\<close> the code uses.  A \<open>String\<close> is its sequence of UTF-8 bytes, one
  \<open>char\<close> of HOL per byte, so \<open>len()\<close> is \<open>length\<close> and byte indices are list indices;
  \<open>chars\<close> groups the bytes into the characters of the text.  Operations whose argument is ASCII
  (\<open>split\<close> at an ASCII character, \<open>strip_prefix\<close>, \<open>find\<close>) act on the bytes, which for UTF-8 is
  what Rust does.
\<close>

section \<open>Characters\<close>

type_synonym str = "char list"

text \<open>Continuation bytes of UTF-8 are \<open>0x80..0xBF\<close>: bit 7 set, bit 6 clear.\<close>

definition is_cont :: "char \<Rightarrow> bool" where
  "is_cont c \<longleftrightarrow> digit7 c \<and> \<not> digit6 c"

function (sequential) chars :: "str \<Rightarrow> str list" where
  "chars [] = []"
| "chars (b # bs) = (b # takeWhile is_cont bs) # chars (dropWhile is_cont bs)"
  by pat_completeness auto
termination by (relation "measure length") (auto simp: le_imp_less_Suc length_dropWhile_le)

text \<open>\<open>char::is_whitespace\<close>: the characters with the Unicode property White_Space.\<close>

definition white_space :: "str list" where
  "white_space =
    [[CHR 0x09], [CHR 0x0A], [CHR 0x0B], [CHR 0x0C], [CHR 0x0D], [CHR 0x20],
     [CHR 0xC2, CHR 0x85], [CHR 0xC2, CHR 0xA0], [CHR 0xE1, CHR 0x9A, CHR 0x80],
     [CHR 0xE2, CHR 0x80, CHR 0x80], [CHR 0xE2, CHR 0x80, CHR 0x81],
     [CHR 0xE2, CHR 0x80, CHR 0x82], [CHR 0xE2, CHR 0x80, CHR 0x83],
     [CHR 0xE2, CHR 0x80, CHR 0x84], [CHR 0xE2, CHR 0x80, CHR 0x85],
     [CHR 0xE2, CHR 0x80, CHR 0x86], [CHR 0xE2, CHR 0x80, CHR 0x87],
     [CHR 0xE2, CHR 0x80, CHR 0x88], [CHR 0xE2, CHR 0x80, CHR 0x89],
     [CHR 0xE2, CHR 0x80, CHR 0x8A], [CHR 0xE2, CHR 0x80, CHR 0xA8],
     [CHR 0xE2, CHR 0x80, CHR 0xA9], [CHR 0xE2, CHR 0x80, CHR 0xAF],
     [CHR 0xE2, CHR 0x81, CHR 0x9F], [CHR 0xE3, CHR 0x80, CHR 0x80]]"

definition is_whitespace :: "str \<Rightarrow> bool" where
  "is_whitespace c \<longleftrightarrow> c \<in> set white_space"

definition is_digit :: "char \<Rightarrow> bool" where
  "is_digit c \<longleftrightarrow> CHR ''0'' \<le> c \<and> c \<le> CHR ''9''"

definition ascii_lower :: "char \<Rightarrow> char" where
  "ascii_lower c = (if CHR ''A'' \<le> c \<and> c \<le> CHR ''Z'' then char_of (of_char c + (32 :: nat)) else c)"

definition to_ascii_lowercase :: "str \<Rightarrow> str" where
  "to_ascii_lowercase = map ascii_lower"

definition ascii_upper :: "char \<Rightarrow> char" where
  "ascii_upper c = (if CHR ''a'' \<le> c \<and> c \<le> CHR ''z'' then char_of (of_char c - (32 :: nat)) else c)"

definition to_ascii_uppercase :: "str \<Rightarrow> str" where
  "to_ascii_uppercase = map ascii_upper"

text \<open>
  A list of characters as \<open>chars\<close> makes it: none empty, continuation bytes only after the first
  byte, and (after the first character) no character starting with one.
\<close>

definition is_char :: "str \<Rightarrow> bool" where
  "is_char c \<longleftrightarrow> c \<noteq> [] \<and> list_all is_cont (tl c)"

definition starts :: "str \<Rightarrow> bool" where
  "starts c \<longleftrightarrow> c \<noteq> [] \<and> \<not> is_cont (hd c)"

definition wf_chars :: "str list \<Rightarrow> bool" where
  "wf_chars cs \<longleftrightarrow> list_all is_char cs \<and> list_all starts (tl cs)"

lemma concat_chars [simp]: "concat (chars s) = s"
  by (induction s rule: chars.induct) auto

lemma chars_eq_Nil [simp]: "chars s = [] \<longleftrightarrow> s = []"
  by (cases s) auto

lemma list_all_takeWhile [simp]: "list_all P (takeWhile P xs)"
  by (simp add: list_all_iff) (meson set_takeWhileD)

lemma starts_hd_chars: "s \<noteq> [] \<Longrightarrow> \<not> is_cont (hd s) \<Longrightarrow> starts (hd (chars s))"
  by (cases s) (auto simp: starts_def)

lemma wf_chars_Cons:
  "is_char c \<Longrightarrow> wf_chars cs \<Longrightarrow> (cs \<noteq> [] \<Longrightarrow> starts (hd cs)) \<Longrightarrow> wf_chars (c # cs)"
  by (cases cs) (auto simp: wf_chars_def)

lemma wf_chars_chars [simp]: "wf_chars (chars s)"
proof (induction s rule: chars.induct)
  case (2 b bs)
  let ?r = "dropWhile is_cont bs"
  have "?r \<noteq> [] \<Longrightarrow> starts (hd (chars ?r))"
    by (rule starts_hd_chars) (auto simp: hd_dropWhile)
  with 2 show ?case by (auto intro!: wf_chars_Cons simp: is_char_def)
qed (simp add: wf_chars_def)

lemma takeWhile_cont_char:
  "list_all is_cont t \<Longrightarrow> (r \<noteq> [] \<Longrightarrow> \<not> is_cont (hd r)) \<Longrightarrow>
     takeWhile is_cont (t @ r) = t \<and> dropWhile is_cont (t @ r) = r"
  by (induction t) (cases r; auto)+

lemma hd_concat_starts: "wf_chars (c # cs) \<Longrightarrow> concat cs \<noteq> [] \<Longrightarrow> \<not> is_cont (hd (concat cs))"
  by (cases cs) (auto simp: wf_chars_def starts_def is_char_def hd_append)

lemma chars_concat: "wf_chars cs \<Longrightarrow> chars (concat cs) = cs"
proof (induction cs)
  case (Cons c cs)
  obtain b t where c: "c = b # t" "list_all is_cont t"
    using Cons.prems by (cases c) (auto simp: wf_chars_def is_char_def)
  have "takeWhile is_cont (t @ concat cs) = t \<and> dropWhile is_cont (t @ concat cs) = concat cs"
    using c(2) hd_concat_starts [OF Cons.prems] by (intro takeWhile_cont_char) auto
  moreover have "wf_chars cs"
    using Cons.prems by (cases cs) (auto simp: wf_chars_def)
  ultimately show ?case using Cons.IH c(1) by simp
qed simp

lemma wf_chars_tlD: "wf_chars (c # cs) \<Longrightarrow> wf_chars cs"
  by (cases cs) (auto simp: wf_chars_def)

lemma wf_chars_appendD2: "wf_chars (xs @ ys) \<Longrightarrow> wf_chars ys"
  by (induction xs) (auto dest: wf_chars_tlD)

lemma wf_chars_appendD1: "wf_chars (xs @ ys) \<Longrightarrow> wf_chars xs"
  by (cases xs) (auto simp: wf_chars_def)

lemma wf_chars_dropWhile: "wf_chars cs \<Longrightarrow> wf_chars (dropWhile P cs)"
  by (metis takeWhile_dropWhile_id wf_chars_appendD2)

lemma wf_chars_rdropWhile: "wf_chars cs \<Longrightarrow> wf_chars (rev (dropWhile P (rev cs)))"
  by (metis rev_append rev_rev_ident takeWhile_dropWhile_id wf_chars_appendD1)

section \<open>Trimming, prefixes and suffixes\<close>

definition trim_start :: "str \<Rightarrow> str" where
  "trim_start s = concat (dropWhile is_whitespace (chars s))"

definition trim_end :: "str \<Rightarrow> str" where
  "trim_end s = concat (rev (dropWhile is_whitespace (rev (chars s))))"

definition trim :: "str \<Rightarrow> str" where
  "trim s = trim_end (trim_start s)"

definition trim_end_matches :: "char \<Rightarrow> str \<Rightarrow> str" where
  "trim_end_matches c s = rev (dropWhile (\<lambda>x. x = c) (rev s))"

definition starts_with :: "str \<Rightarrow> str \<Rightarrow> bool" where
  "starts_with s p \<longleftrightarrow> take (length p) s = p"

definition ends_with :: "str \<Rightarrow> str \<Rightarrow> bool" where
  "ends_with s p \<longleftrightarrow> starts_with (rev s) (rev p)"

definition strip_prefix :: "str \<Rightarrow> str \<Rightarrow> str option" where
  "strip_prefix p s = (if starts_with s p then Some (drop (length p) s) else None)"

definition strip_suffix :: "str \<Rightarrow> str \<Rightarrow> str option" where
  "strip_suffix p s = (if ends_with s p then Some (take (length s - length p) s) else None)"

lemma chars_trim_start: "chars (trim_start s) = dropWhile is_whitespace (chars s)"
  by (simp add: trim_start_def chars_concat wf_chars_dropWhile)

lemma chars_trim_end: "chars (trim_end s) = rev (dropWhile is_whitespace (rev (chars s)))"
  by (simp add: trim_end_def chars_concat wf_chars_rdropWhile)

lemma dropWhile_rdropWhile_idem:
  "dropWhile P (rev (dropWhile P (rev (dropWhile P xs)))) = rev (dropWhile P (rev (dropWhile P xs)))"
proof -
  let ?ys = "dropWhile P xs" and ?zs = "rev (dropWhile P (rev (dropWhile P xs)))"
  obtain t where pre: "?ys = ?zs @ t"
    by (metis rev_append rev_rev_ident takeWhile_dropWhile_id)
  have "?zs \<noteq> [] \<Longrightarrow> hd ?zs = hd ?ys"
    by (subst pre) simp
  then have "?zs \<noteq> [] \<Longrightarrow> \<not> P (hd ?zs)"
    using hd_dropWhile [of P xs] pre by fastforce
  then show ?thesis by (metis dropWhile.simps(1) dropWhile_eq_self_iff)
qed

lemma chars_trim:
  "chars (trim s) = rev (dropWhile is_whitespace (rev (dropWhile is_whitespace (chars s))))"
  by (simp add: trim_def chars_trim_end chars_trim_start)

lemma trim_trim [simp]: "trim (trim s) = trim s"
proof -
  have "chars (trim (trim s)) = chars (trim s)"
    by (simp add: chars_trim dropWhile_rdropWhile_idem dropWhile_idem)
  then show ?thesis by (metis concat_chars)
qed

lemma trim_Nil [simp]: "trim [] = []"
  by (simp add: trim_def trim_start_def trim_end_def)

lemma strip_prefix_Some: "strip_prefix p s = Some r \<longleftrightarrow> s = p @ r"
  by (auto simp: strip_prefix_def starts_with_def) (metis append_take_drop_id)

lemma strip_prefix_append [simp]: "strip_prefix p (p @ r) = Some r"
  by (simp add: strip_prefix_Some)

lemma length_trim_start: "length (trim_start s) \<le> length s"
  by (metis append_take_drop_id concat_append concat_chars dropWhile_eq_drop le_add2
      length_append trim_start_def)

section \<open>Searching and replacing\<close>

fun find_str :: "str \<Rightarrow> str \<Rightarrow> nat option" where
  "find_str p [] = (if p = [] then Some 0 else None)"
| "find_str p (c # cs) =
     (if starts_with (c # cs) p then Some 0 else map_option Suc (find_str p cs))"

definition contains_str :: "str \<Rightarrow> str \<Rightarrow> bool" where
  "contains_str s p \<longleftrightarrow> find_str p s \<noteq> None"

text \<open>\<open>s.replacen(old, new, 1)\<close>\<close>

definition replace_first :: "str \<Rightarrow> str \<Rightarrow> str \<Rightarrow> str" where
  "replace_first old new s =
     (case find_str old s of
        None \<Rightarrow> s
      | Some i \<Rightarrow> take i s @ new @ drop (i + length old) s)"

lemma find_str_Some:
  "find_str p s = Some i \<Longrightarrow> s = take i s @ p @ drop (i + length p) s"
proof (induction p s arbitrary: i rule: find_str.induct)
  case (2 p c cs)
  show ?case
  proof (cases "starts_with (c # cs) p")
    case True
    with "2.prems" show ?thesis by (simp add: starts_with_def) (metis append_take_drop_id)
  next
    case False
    with "2.prems" obtain j where "find_str p cs = Some j" and i: "i = Suc j" by auto
    then have "cs = take j cs @ p @ drop (j + length p) cs" using "2.IH" False by blast
    then show ?thesis by (simp add: i)
  qed
qed (auto split: if_splits)

lemma contains_str_iff: "contains_str s p \<longleftrightarrow> (\<exists>u v. s = u @ p @ v)"
proof
  assume "contains_str s p"
  then obtain i where "find_str p s = Some i" by (auto simp: contains_str_def)
  then show "\<exists>u v. s = u @ p @ v" using find_str_Some by blast
next
  assume "\<exists>u v. s = u @ p @ v"
  then obtain u v where "s = u @ p @ v" by blast
  then have "find_str p s \<noteq> None"
  proof (induction u arbitrary: s)
    case Nil
    then have "starts_with s p" by (simp add: starts_with_def)
    then show ?case by (cases s) (auto simp: starts_with_def)
  next
    case (Cons a u)
    then show ?case by simp
  qed
  then show "contains_str s p" by (simp add: contains_str_def)
qed

lemma contains_str_Nil [simp]: "contains_str s []"
  by (cases s) (auto simp: contains_str_def starts_with_def)

lemma replace_first_contains: "contains_str s p \<Longrightarrow> contains_str (replace_first p q s) q"
  by (auto simp: contains_str_def [of s] replace_first_def contains_str_iff [of _ q]) blast

lemma replace_first_Nil: "replace_first [] q s = q @ s"
  by (cases s) (auto simp: replace_first_def starts_with_def)

lemma contains_refl [simp]: "contains_str s s"
  unfolding contains_str_iff by (intro exI [of _ "[]"]) simp

lemma find_str_refl: "find_str s s = Some 0"
  by (cases s) (auto simp: starts_with_def)

lemma replace_first_self [simp]: "replace_first s q s = q"
  by (simp add: replace_first_def find_str_refl)

section \<open>Splitting\<close>

text \<open>\<open>s.split(c)\<close> at an ASCII character, and at any of a set of ASCII characters.\<close>

fun split_by :: "(char \<Rightarrow> bool) \<Rightarrow> str \<Rightarrow> str list" where
  "split_by P [] = [[]]"
| "split_by P (x # xs) =
     (if P x then [] # split_by P xs
      else (case split_by P xs of [] \<Rightarrow> [[x]] | l # ls \<Rightarrow> (x # l) # ls))"

definition split_on :: "char \<Rightarrow> str \<Rightarrow> str list" where
  "split_on c = split_by (\<lambda>x. x = c)"

text \<open>\<open>s.split_once(p)\<close>: the text before and after the first separator.\<close>

fun split_once :: "(char \<Rightarrow> bool) \<Rightarrow> str \<Rightarrow> (str \<times> str) option" where
  "split_once P [] = None"
| "split_once P (x # xs) =
     (if P x then Some ([], xs)
      else map_option (\<lambda>(a, b). (x # a, b)) (split_once P xs))"

text \<open>\<open>s.lines()\<close>: a final line terminator starts no further line, \<open>\r\<close> before \<open>\n\<close> goes too.\<close>

fun split_inclusive :: "char \<Rightarrow> str \<Rightarrow> str list" where
  "split_inclusive c [] = []"
| "split_inclusive c (x # xs) =
     (if x = c then [x] # split_inclusive c xs
      else (case split_inclusive c xs of [] \<Rightarrow> [[x]] | l # ls \<Rightarrow> (x # l) # ls))"

definition chomp :: "str \<Rightarrow> str" where
  "chomp l = (case strip_suffix [CHR 0x0A] l of
      None \<Rightarrow> l
    | Some l' \<Rightarrow> (case strip_suffix [CHR 0x0D] l' of None \<Rightarrow> l' | Some l'' \<Rightarrow> l''))"

definition str_lines :: "str \<Rightarrow> str list" where
  "str_lines s = map chomp (split_inclusive (CHR 0x0A) s)"

text \<open>\<open>s.split_whitespace()\<close>, and \<open>split_once(char::is_whitespace)\<close> on the characters.\<close>

function (sequential) ws_words :: "str list \<Rightarrow> str list" where
  "ws_words [] = []"
| "ws_words (c # cs) =
     (if is_whitespace c then ws_words cs
      else concat (c # takeWhile (\<lambda>x. \<not> is_whitespace x) cs)
             # ws_words (dropWhile (\<lambda>x. \<not> is_whitespace x) cs))"
  by pat_completeness auto
termination by (relation "measure length") (auto simp: le_imp_less_Suc length_dropWhile_le)

definition split_whitespace :: "str \<Rightarrow> str list" where
  "split_whitespace s = ws_words (chars s)"

definition split_once_ws :: "str \<Rightarrow> (str \<times> str) option" where
  "split_once_ws s =
     (case dropWhile (\<lambda>c. \<not> is_whitespace c) (chars s) of
        [] \<Rightarrow> None
      | _ # rest \<Rightarrow> Some (concat (takeWhile (\<lambda>c. \<not> is_whitespace c) (chars s)), concat rest))"

lemma split_by_ne [simp]: "split_by P s \<noteq> []"
  by (induction s) (auto split: list.splits)

lemma split_on_append:
  "c \<notin> set u \<Longrightarrow> split_on c (u @ c # v) = u # split_on c v"
  by (induction u) (auto simp: split_on_def)

lemma split_on_free: "c \<notin> set u \<Longrightarrow> split_on c u = [u]"
  by (induction u) (auto simp: split_on_def)

lemma split_by_free: "l \<in> set (split_by P s) \<Longrightarrow> x \<in> set l \<Longrightarrow> \<not> P x"
  by (induction s arbitrary: l) (fastforce split: if_splits list.splits)+

fun join_with :: "str \<Rightarrow> str list \<Rightarrow> str" where
  "join_with sep [] = []"
| "join_with sep [x] = x"
| "join_with sep (x # y # ys) = x @ sep @ join_with sep (y # ys)"

lemma join_with_Cons: "ys \<noteq> [] \<Longrightarrow> join_with sep (x # ys) = x @ sep @ join_with sep ys"
  by (cases ys) auto

lemma join_split_on: "join_with [c] (split_on c s) = s"
proof (induction s)
  case (Cons x xs)
  have ne: "split_on c xs \<noteq> []" by (simp add: split_on_def)
  show ?case
  proof (cases "x = c")
    case True
    with Cons ne show ?thesis by (simp add: split_on_def join_with_Cons)
  next
    case False
    obtain l ls where "split_on c xs = l # ls" using ne by (cases "split_on c xs") auto
    with False Cons show ?thesis by (cases ls) (auto simp: split_on_def)
  qed
qed (simp add: split_on_def)

lemma split_once_Some:
  "split_once P s = Some (a, b) \<Longrightarrow> \<exists>x. P x \<and> s = a @ x # b \<and> (\<forall>y\<in>set a. \<not> P y)"
  by (induction s arbitrary: a) (auto split: if_splits)

section \<open>Numbers\<close>

fun show_nat :: "nat \<Rightarrow> str" where
  "show_nat n =
     (if n < 10 then [char_of (48 + n)] else show_nat (n div 10) @ [char_of (48 + n mod 10)])"

declare show_nat.simps [simp del]

definition show_int :: "int \<Rightarrow> str" where
  "show_int i = (if i < 0 then CHR ''-'' # show_nat (nat (- i)) else show_nat (nat i))"

definition show_bool :: "bool \<Rightarrow> str" where
  "show_bool b = (if b then ''true'' else ''false'')"

definition digit_val :: "char \<Rightarrow> nat" where
  "digit_val c = of_char c - 48"

text \<open>\<open>str::parse\<close> for an unsigned type with the given number of bits.\<close>

definition parse_uint :: "nat \<Rightarrow> str \<Rightarrow> nat option" where
  "parse_uint bits s =
     (let ds = (case s of c # cs \<Rightarrow> if c = CHR ''+'' then cs else s | [] \<Rightarrow> []);
          n = foldl (\<lambda>acc c. acc * 10 + digit_val c) 0 ds
      in if ds \<noteq> [] \<and> list_all is_digit ds \<and> n < 2 ^ bits then Some n else None)"

lemma of_char_digit: "d < 10 \<Longrightarrow> of_char (char_of (48 + d) :: char) = (48 + d :: nat)"
  by simp

lemma is_digit_char_of: "d < 10 \<Longrightarrow> is_digit (char_of (48 + d :: nat))"
  by (simp add: is_digit_def less_eq_char_def)

lemma digit_val_char_of: "d < 10 \<Longrightarrow> digit_val (char_of (48 + d :: nat)) = d"
  by (simp add: digit_val_def)

lemma show_nat_ne [simp]: "show_nat n \<noteq> []"
  by (subst show_nat.simps) simp

lemma show_nat_digits: "list_all is_digit (show_nat n)"
proof (induction n rule: show_nat.induct)
  case (1 n)
  then show ?case
    by (subst show_nat.simps) (simp add: is_digit_char_of)
qed

lemma foldl_show_nat: "foldl (\<lambda>acc c. acc * 10 + digit_val c) 0 (show_nat n) = n"
proof (induction n rule: show_nat.induct)
  case (1 n)
  then show ?case
    by (subst show_nat.simps) (simp add: digit_val_char_of)
qed

lemma show_nat_inj [simp]: "show_nat m = show_nat n \<longleftrightarrow> m = n"
  by (metis foldl_show_nat)

lemma hd_show_nat: "is_digit (hd (show_nat n))"
  by (metis hd_in_set list_all_iff show_nat_digits show_nat_ne)

lemma parse_show_nat: "n < 2 ^ bits \<Longrightarrow> parse_uint bits (show_nat n) = Some n"
proof -
  assume n: "n < 2 ^ bits"
  have "\<not> is_digit (CHR ''+'')" by (simp add: is_digit_def less_eq_char_def)
  with hd_show_nat [of n] obtain c cs where "show_nat n = c # cs" "c \<noteq> CHR ''+''"
    by (cases "show_nat n") (auto simp: show_nat_ne)
  then have "(case show_nat n of c # cs \<Rightarrow> if c = CHR ''+'' then cs else show_nat n | [] \<Rightarrow> [])
      = show_nat n" by simp
  with n show ?thesis
    by (simp add: parse_uint_def show_nat_digits foldl_show_nat)
qed

end
