(* ===== verification/Permissions.thy ===== *)
theory Permissions
  imports Rust_Str "HOL-Library.Word"
begin

text \<open>
  The six-bit permission mask (crates/core/src/permissions.rs) and the principal that carries it
  (crates/core/src/principal.rs).  Masks are \<open>u32\<close> words and single permissions \<open>u8\<close> words, as in
  the source; \<open>granted\<close> abstracts a mask to the set of permissions it grants.
\<close>

unbundle bit_operations_syntax

named_theorems perm_simps \<open>membership in the set of permissions a mask grants\<close>

section \<open>Permissions and masks\<close>

datatype permission = P_Read | P_Generate | P_Modify | P_Execute | P_Commit | P_Audit

definition perm_all :: "permission list" where
  "perm_all = [P_Read, P_Generate, P_Modify, P_Execute, P_Commit, P_Audit]"

primrec perm_bit_val :: "permission \<Rightarrow> 8 word" where
  "perm_bit_val P_Read = push_bit 0 1"
| "perm_bit_val P_Generate = push_bit 1 1"
| "perm_bit_val P_Modify = push_bit 2 1"
| "perm_bit_val P_Execute = push_bit 3 1"
| "perm_bit_val P_Commit = push_bit 4 1"
| "perm_bit_val P_Audit = push_bit 5 1"

primrec label :: "permission \<Rightarrow> str" where
  "label P_Read = ''Read''"
| "label P_Generate = ''Generate''"
| "label P_Modify = ''Modify''"
| "label P_Execute = ''Execute''"
| "label P_Commit = ''Commit''"
| "label P_Audit = ''Audit''"

type_synonym permission_set = "32 word"

definition ps_empty :: permission_set where
  "ps_empty = 0"

definition ps_all :: permission_set where
  "ps_all = foldl (\<lambda>mask p. mask OR ucast (perm_bit_val p)) 0 perm_all"

definition grant :: "permission_set \<Rightarrow> permission \<Rightarrow> permission_set" where
  "grant m p = m OR ucast (perm_bit_val p)"

definition revoke :: "permission_set \<Rightarrow> permission \<Rightarrow> permission_set" where
  "revoke m p = m AND NOT (ucast (perm_bit_val p))"

definition has :: "permission_set \<Rightarrow> permission \<Rightarrow> bool" where
  "has m p \<longleftrightarrow> m AND ucast (perm_bit_val p) \<noteq> 0"

definition ps_contains :: "permission_set \<Rightarrow> permission_set \<Rightarrow> bool" where
  "ps_contains m other \<longleftrightarrow> m AND other = other"

definition ps_from_mask :: "32 word \<Rightarrow> permission_set" where
  "ps_from_mask m = m AND 0b111111"

definition ps_labels :: "permission_set \<Rightarrow> str list" where
  "ps_labels m = map label (filter (has m) perm_all)"

record permission_denied =
  pd_required :: permission
  pd_mask :: "32 word"

definition display_denied :: "permission_denied \<Rightarrow> str" where
  "display_denied e = ''permission denied: required '' @ label (pd_required e) @
     '' but mask is '' @ show_nat (unat (pd_mask e))"

definition require :: "permission_set \<Rightarrow> permission \<Rightarrow> permission_denied + unit" where
  "require m p = (if has m p then Inr () else Inl \<lparr>pd_required = p, pd_mask = m\<rparr>)"

subsection \<open>The mask as a set of permissions\<close>

primrec bit_pos :: "permission \<Rightarrow> nat" where
  "bit_pos P_Read = 0"
| "bit_pos P_Generate = 1"
| "bit_pos P_Modify = 2"
| "bit_pos P_Execute = 3"
| "bit_pos P_Commit = 4"
| "bit_pos P_Audit = 5"

definition granted :: "permission_set \<Rightarrow> permission set" where
  "granted m = {p. has m p}"

lemma perm_all_complete [simp]: "p \<in> set perm_all"
  by (cases p) (simp_all add: perm_all_def)

lemma ucast_perm_bit: "(ucast (perm_bit_val p) :: 32 word) = 2 ^ bit_pos p"
  by (cases p) simp_all

lemma bit_pos_less: "bit_pos p < 6"
  by (cases p) simp_all

lemma bit_pos_inj [simp]: "bit_pos p = bit_pos q \<longleftrightarrow> p = q"
  by (cases p; cases q) simp_all

lemma has_bit: "has m p \<longleftrightarrow> bit m (bit_pos p)"
  by (simp add: has_def ucast_perm_bit and_exp_eq_0_iff_not_bit)

lemma bit_two_power: "bit (2 ^ bit_pos p :: 32 word) (bit_pos q) \<longleftrightarrow> p = q"
  using bit_pos_less [of q] by (auto simp: bit_exp_iff)

lemma has_grant [perm_simps]: "has (grant m p) q \<longleftrightarrow> q = p \<or> has m q"
  by (auto simp: has_bit grant_def ucast_perm_bit bit_or_iff bit_two_power)

lemma has_revoke [perm_simps]: "has (revoke m p) q \<longleftrightarrow> q \<noteq> p \<and> has m q"
  using bit_pos_less [of q]
  by (auto simp: has_bit revoke_def ucast_perm_bit bit_and_iff bit_not_iff bit_two_power)

lemma has_empty [perm_simps]: "\<not> has ps_empty q"
  by (simp add: has_def ps_empty_def)

lemma ps_all_63: "ps_all = 63"
  by (simp add: ps_all_def perm_all_def)

lemma has_all [perm_simps]: "has ps_all q"
  by (cases q) (simp_all add: has_def ps_all_63)

lemma bit_63: "bit (0b111111 :: int) n \<longleftrightarrow> n < 6"
proof -
  have "(0b111111 :: int) = mask 6" by (simp add: mask_eq_exp_minus_1)
  then show ?thesis by (simp only: bit_mask_iff) auto
qed

lemma bit_from_mask: "bit (ps_from_mask m) n \<longleftrightarrow> n < 6 \<and> bit m n"
  by (auto simp: ps_from_mask_def bit_and_iff bit_63)

lemma has_from_mask [perm_simps]: "has (ps_from_mask m) q \<longleftrightarrow> has m q"
  using bit_pos_less [of q] by (auto simp: has_bit ps_from_mask_def bit_and_iff bit_63)

lemma ps_from_mask_idem [simp]: "ps_from_mask (ps_from_mask m) = ps_from_mask m"
  by (simp add: ps_from_mask_def)

lemma ps_from_mask_le: "unat (ps_from_mask m) < 64"
proof -
  have "ps_from_mask m \<le> 63" unfolding ps_from_mask_def by (rule word_and_le1)
  then show ?thesis by (simp add: word_le_nat_alt)
qed

lemma bit_pos_surj: "n < 6 \<Longrightarrow> \<exists>p. bit_pos p = n"
proof -
  assume "n < 6"
  then consider "n = 0" | "n = 1" | "n = 2" | "n = 3" | "n = 4" | "n = 5" by linarith
  then show ?thesis
    by cases (metis bit_pos.simps)+
qed

text \<open>On the six-bit domain the abstraction is faithful: the granted set determines the mask.\<close>

lemma granted_eqD: "granted m = granted k \<Longrightarrow> ps_from_mask m = ps_from_mask k"
proof -
  assume eq: "granted m = granted k"
  have "bit m n = bit k n" if "n < 6" for n
    using bit_pos_surj [OF that] eq by (auto simp: granted_def has_bit set_eq_iff)
  then show ?thesis
    by (intro bit_eqI) (auto simp: bit_from_mask)
qed

lemma ps_contains_bits: "ps_contains m k \<longleftrightarrow> (\<forall>n. bit k n \<longrightarrow> bit m n)"
proof
  assume "ps_contains m k"
  then have "bit (m AND k) n = bit k n" for n by (simp add: ps_contains_def)
  then show "\<forall>n. bit k n \<longrightarrow> bit m n" by (simp only: bit_and_iff) blast
next
  assume "\<forall>n. bit k n \<longrightarrow> bit m n"
  then show "ps_contains m k"
    unfolding ps_contains_def by (intro bit_eqI) (auto simp only: bit_and_iff)
qed

lemma ps_contains_subset:
  "ps_contains (ps_from_mask m) (ps_from_mask k) \<longleftrightarrow> granted k \<subseteq> granted m"
proof -
  have "ps_contains (ps_from_mask m) (ps_from_mask k) \<longleftrightarrow> (\<forall>n. n < 6 \<and> bit k n \<longrightarrow> bit m n)"
    by (simp add: ps_contains_bits bit_from_mask)
  also have "\<dots> \<longleftrightarrow> (\<forall>p. bit k (bit_pos p) \<longrightarrow> bit m (bit_pos p))"
    using bit_pos_less bit_pos_surj by metis
  finally show ?thesis by (auto simp: granted_def has_bit)
qed

lemma require_Inr [simp]: "require m p = Inr u \<longleftrightarrow> has m p"
  by (simp add: require_def)

lemma require_Inl [simp]: "require m p = Inl e \<longleftrightarrow> \<not> has m p \<and> e = \<lparr>pd_required = p, pd_mask = m\<rparr>"
  by (auto simp: require_def)

subsection \<open>The interface of a capability set\<close>

locale capability_set =
  fixes empty :: "'m" and full :: "'m"
    and add :: "'m \<Rightarrow> 'p \<Rightarrow> 'm" and remove :: "'m \<Rightarrow> 'p \<Rightarrow> 'm"
    and holds :: "'m \<Rightarrow> 'p \<Rightarrow> bool"
  assumes holds_empty: "\<not> holds empty q"
    and holds_full: "holds full q"
    and holds_add: "holds (add m p) q \<longleftrightarrow> q = p \<or> holds m q"
    and holds_remove: "holds (remove m p) q \<longleftrightarrow> q \<noteq> p \<and> holds m q"
begin

lemma rights_add: "{q. holds (add m p) q} = insert p {q. holds m q}"
  by (auto simp: holds_add)

lemma rights_remove: "{q. holds (remove m p) q} = {q. holds m q} - {p}"
  by (auto simp: holds_remove)

lemma rights_fold: "{q. holds (foldl add m ps) q} = set ps \<union> {q. holds m q}"
  by (induction ps arbitrary: m) (auto simp: holds_add)

lemma least_privilege: "{q. holds (foldl add empty ps) q} = set ps"
  by (simp add: rights_fold holds_empty)

end

interpretation mask: capability_set ps_empty ps_all grant revoke has
  by unfold_locales (simp_all add: perm_simps)

lemma granted_ops:
  "granted (grant m p) = insert p (granted m)"
  "granted (revoke m p) = granted m - {p}"
  "granted (foldl grant ps_empty ps) = set ps"
  unfolding granted_def by (fact mask.rights_add mask.rights_remove mask.least_privilege)+

section \<open>Principals and audited actions\<close>

record principal =
  tenant_id :: str
  user_id :: str
  perms :: permission_set

definition principal_new :: "str \<Rightarrow> str \<Rightarrow> permission_set \<Rightarrow> principal" where
  "principal_new t u ps = \<lparr>tenant_id = t, user_id = u, perms = ps\<rparr>"

definition principal_all :: "str \<Rightarrow> str \<Rightarrow> principal" where
  "principal_all t u = principal_new t u ps_all"

definition principal_from_mask :: "str \<Rightarrow> str \<Rightarrow> 32 word \<Rightarrow> principal" where
  "principal_from_mask t u m = principal_new t u (m AND 0b111111)"

definition perm_mask :: "principal \<Rightarrow> 32 word" where
  "perm_mask p = perms p AND 0b111111"

definition can_read_audit :: "principal \<Rightarrow> bool" where
  "can_read_audit p = has (perms p) P_Audit"

datatype audit_action = A_Read | A_Generate | A_Modify | A_Execute | A_Commit | A_Audit

primrec required_permission :: "audit_action \<Rightarrow> permission" where
  "required_permission A_Read = P_Read"
| "required_permission A_Generate = P_Generate"
| "required_permission A_Modify = P_Modify"
| "required_permission A_Execute = P_Execute"
| "required_permission A_Commit = P_Commit"
| "required_permission A_Audit = P_Audit"

primrec action_str :: "audit_action \<Rightarrow> str" where
  "action_str A_Read = ''read''"
| "action_str A_Generate = ''generate''"
| "action_str A_Modify = ''modify''"
| "action_str A_Execute = ''execute''"
| "action_str A_Commit = ''commit''"
| "action_str A_Audit = ''audit''"

text \<open>\<open>self.required_permission().bit() as i32\<close>\<close>

definition perm_bit :: "audit_action \<Rightarrow> int" where
  "perm_bit a = uint (perm_bit_val (required_permission a))"

primrec from_permission :: "permission \<Rightarrow> audit_action" where
  "from_permission P_Read = A_Read"
| "from_permission P_Generate = A_Generate"
| "from_permission P_Modify = A_Modify"
| "from_permission P_Execute = A_Execute"
| "from_permission P_Commit = A_Commit"
| "from_permission P_Audit = A_Audit"

definition action_permission :: "str \<Rightarrow> permission option" where
  "action_permission tool =
     (let t = to_ascii_lowercase tool in
      if t \<in> set [''read'', ''read_document'', ''readfile'', ''read_file''] then Some P_Read
      else if t \<in> set [''generate'', ''chat'', ''complete'', ''nes'', ''ghost'', ''draft'']
        then Some P_Generate
      else if t \<in> set [''modify'', ''edit'', ''write'', ''apply'', ''apply_edit''] then Some P_Modify
      else if t \<in> set [''execute'', ''run'', ''shell'', ''command'', ''exec''] then Some P_Execute
      else if t = ''commit'' then Some P_Commit
      else None)"

definition check_permission :: "principal \<Rightarrow> permission \<Rightarrow> permission_denied + unit" where
  "check_permission p required = require (perms p) required"

lemma from_required [simp]: "from_permission (required_permission a) = a"
  by (cases a) simp_all

lemma required_from [simp]: "required_permission (from_permission p) = p"
  by (cases p) simp_all

lemma from_permission_inj [simp]: "from_permission p = from_permission q \<longleftrightarrow> p = q"
  by (metis required_from)

lemma check_permission_Inr [simp]: "check_permission p r = Inr u \<longleftrightarrow> has (perms p) r"
  by (simp add: check_permission_def)

lemma check_permission_Inl:
  "check_permission p r = Inl e \<longleftrightarrow> \<not> has (perms p) r \<and> e = \<lparr>pd_required = r, pd_mask = perms p\<rparr>"
  by (simp add: check_permission_def)

lemma perms_from_mask [simp]: "perms (principal_from_mask t u m) = ps_from_mask m"
  by (simp add: principal_from_mask_def principal_new_def ps_from_mask_def)

lemma perms_all [simp]: "perms (principal_all t u) = ps_all"
  by (simp add: principal_all_def principal_new_def)

lemma perm_mask_from_mask [simp]: "perm_mask p = ps_from_mask (perms p)"
  by (simp add: perm_mask_def ps_from_mask_def)

lemma action_permission_not_audit: "action_permission t \<noteq> Some P_Audit"
  by (simp add: action_permission_def Let_def)

text \<open>
  The mask operations implement the abstract set of permissions: the empty mask grants
  nothing and the full one everything, \<open>grant\<close> inserts, \<open>revoke\<close> deletes, clamping to six bits
  changes no permission, \<open>contains\<close> is the subset test on the six-bit domain, and building a
  mask by granting a list of permissions grants exactly that list.
\<close>

theorem permission_set_refines_set:
  "granted ps_empty = {} \<and> granted ps_all = UNIV \<and>
   granted (grant m p) = insert p (granted m) \<and>
   granted (revoke m p) = granted m - {p} \<and>
   granted (ps_from_mask m) = granted m \<and>
   (ps_contains (ps_from_mask m) (ps_from_mask k) \<longleftrightarrow> granted k \<subseteq> granted m) \<and>
   granted (foldl grant ps_empty ps) = set ps"
  by (simp add: granted_ops ps_contains_subset) (simp add: granted_def perm_simps)

text \<open>
  Authorization is decided by the mask alone: \<open>check_permission\<close> succeeds exactly on the
  permissions the principal's mask grants, a failure names the missing permission and the mask,
  and a principal built from any raw \<open>u32\<close> has the permissions of its low six bits and no mask
  value above 63.
\<close>

theorem check_permission_decides:
  "(check_permission pr r = Inr () \<longleftrightarrow> r \<in> granted (perms pr)) \<and>
   (r \<notin> granted (perms pr) \<longleftrightarrow>
      check_permission pr r = Inl \<lparr>pd_required = r, pd_mask = perms pr\<rparr>) \<and>
   granted (perms (principal_from_mask t u m)) = granted m \<and>
   unat (perm_mask (principal_from_mask t u m)) < 64"
  by (auto simp: granted_def perm_simps ps_from_mask_le check_permission_Inl)

end
