(* ===== verification/Audit_Trail.thy ===== *)
theory Audit_Trail
  imports Complex_Main Permissions
begin

text \<open>
  The audit trail (crates/core/src/audit.rs): events, the in-memory sink, the Postgres sink with
  its SHA-256 chain, and the two SQL functions of migrations/0005_v20.sql that the chain relies
  on (the insert trigger and \<open>audit_verify_chain\<close>).  SHA-256 itself is a parameter
  \<open>sha :: str \<Rightarrow> 8 word list\<close>; the \<open>audit\<close> table is the list of its rows by ascending id, and
  what the database answers (an error of either statement, whether the role may read the table) is a
  parameter.  Here a record is written with no other statement between its two; the theory Audit_Race
  lets the statements of several tasks interleave.
\<close>

section \<open>Events\<close>

text \<open>
  \<open>serde_json::Value\<close>; an object is the list of its fields in the order they are written, and a
  number is an integer or, for a finite \<open>f64\<close>, a rational.
\<close>

datatype json = JNull | JBool bool | JNum int | JReal rat | JStr str | JArr "json list"
  | JObj "(str \<times> json) list"

record audit_event =
  ev_ts_ms :: int
  ev_actor_id :: "int option"
  ev_action :: audit_action
  ev_tenant :: str
  ev_user :: str
  ev_granted :: bool
  ev_payload :: json

definition audit_event_new :: "int \<Rightarrow> principal \<Rightarrow> audit_action \<Rightarrow> bool \<Rightarrow> json \<Rightarrow> audit_event" where
  "audit_event_new ts p a g payload =
     \<lparr>ev_ts_ms = ts, ev_actor_id = None, ev_action = a, ev_tenant = tenant_id p,
      ev_user = user_id p, ev_granted = g, ev_payload = payload\<rparr>"

definition audit_event_denied :: "int \<Rightarrow> principal \<Rightarrow> audit_action \<Rightarrow> str \<Rightarrow> audit_event" where
  "audit_event_denied ts p a reason =
     audit_event_new ts p a False (JObj [(''reason'', JStr reason)])"

definition detail_json :: "audit_event \<Rightarrow> json" where
  "detail_json e = JObj [(''tenant_id'', JStr (ev_tenant e)), (''user_id'', JStr (ev_user e)),
     (''granted'', JBool (ev_granted e)), (''payload'', ev_payload e)]"

text \<open>\<open>format!("{b:02x}")\<close>\<close>

definition hex_digit :: "nat \<Rightarrow> char" where
  "hex_digit n = char_of (if n < 10 then 48 + n else 87 + n)"

definition hex_byte :: "8 word \<Rightarrow> str" where
  "hex_byte b = [hex_digit (unat b div 16), hex_digit (unat b mod 16)]"

definition hex :: "8 word list \<Rightarrow> str" where
  "hex bs = concat (map hex_byte bs)"

definition row_payload :: "audit_event \<Rightarrow> str \<Rightarrow> str" where
  "row_payload e prev = action_str (ev_action e) @ ''|'' @
     show_int (perm_bit (ev_action e)) @ ''|'' @ ev_tenant e @ ''|'' @ prev"

definition event_row_hash :: "(str \<Rightarrow> 8 word list) \<Rightarrow> audit_event \<Rightarrow> str \<Rightarrow> str" where
  "event_row_hash sha e prev = hex (sha (row_payload e prev))"

section \<open>The in-memory sink\<close>

definition mock_record :: "audit_event \<Rightarrow> audit_event list \<Rightarrow> (str + unit) \<times> audit_event list" where
  "mock_record e evs = (Inr (), evs @ [e])"

definition mock_count :: "audit_event list \<Rightarrow> nat" where
  "mock_count evs = length evs"

definition count_action :: "audit_action \<Rightarrow> audit_event list \<Rightarrow> nat" where
  "count_action a evs = length (filter (\<lambda>e. ev_action e = a) evs)"

definition count_denied :: "audit_action \<Rightarrow> audit_event list \<Rightarrow> nat" where
  "count_denied a evs = length (filter (\<lambda>e. ev_action e = a \<and> \<not> ev_granted e) evs)"

section \<open>The audit table and the Postgres sink\<close>

record audit_row =
  row_id :: nat
  row_actor :: "int option"
  row_action :: str
  row_perm_bit :: int
  row_detail :: json
  row_tenant :: str
  row_prev :: "str option"
  row_hash :: "str option"

record audit_table =
  next_id :: nat
  rows :: "audit_row list"

text \<open>\<open>SELECT row_hash FROM audit WHERE tenant_id = $1 ORDER BY id DESC LIMIT 1\<close>\<close>

definition latest_hash :: "str \<Rightarrow> audit_row list \<Rightarrow> str option" where
  "latest_hash t rs =
     (case rev (filter (\<lambda>r. row_tenant r = t) rs) of [] \<Rightarrow> None | r # _ \<Rightarrow> row_hash r)"

text \<open>
  What a role sees: row-level security (migrations/0001_init.sql, 0005_v20.sql) has no policy that lets a
  role subject to it select, so such a role sees no row.
\<close>

definition visible_rows :: "bool \<Rightarrow> audit_row list \<Rightarrow> audit_row list" where
  "visible_rows may_select rs = (if may_select then rs else [])"

definition unwrap_or_default :: "str option \<Rightarrow> str" where
  "unwrap_or_default s = (case s of None \<Rightarrow> [] | Some x \<Rightarrow> x)"

definition audit_chain_payload :: "audit_row \<Rightarrow> str" where
  "audit_chain_payload r = row_action r @ ''|'' @ show_int (row_perm_bit r) @ ''|'' @
     row_tenant r @ ''|'' @ unwrap_or_default (row_prev r)"

definition audit_row_hash :: "(str \<Rightarrow> 8 word list) \<Rightarrow> audit_row \<Rightarrow> str" where
  "audit_row_hash sha r = hex (sha (audit_chain_payload r))"

text \<open>
  The \<open>BEFORE INSERT\<close> trigger: it keeps what the client supplied and fills what is NULL.  It runs
  with the client's role, so \<open>rs\<close> are the rows that one sees.
\<close>

definition audit_chain_before_insert ::
  "(str \<Rightarrow> 8 word list) \<Rightarrow> audit_row list \<Rightarrow> audit_row \<Rightarrow> audit_row" where
  "audit_chain_before_insert sha rs r =
     (let r1 = (if row_prev r = None
                then r\<lparr>row_prev := Some (unwrap_or_default (latest_hash (row_tenant r) rs))\<rparr>
                else r)
      in if row_hash r1 = None then r1\<lparr>row_hash := Some (audit_row_hash sha r1)\<rparr> else r1)"

definition insert_row ::
  "(str \<Rightarrow> 8 word list) \<Rightarrow> bool \<Rightarrow> audit_row \<Rightarrow> audit_table \<Rightarrow> audit_table" where
  "insert_row sha may_select r tab = \<lparr>next_id = next_id tab + 1,
     rows = rows tab @ [audit_chain_before_insert sha (visible_rows may_select (rows tab)) (r\<lparr>row_id := next_id tab\<rparr>)]\<rparr>"

text \<open>
  An insert that fails, here or in another session, may have drawn ids from the sequence of the
  \<open>bigserial\<close> column; they are not given back.
\<close>

definition burn_ids :: "nat \<Rightarrow> audit_table \<Rightarrow> audit_table" where
  "burn_ids n tab = tab\<lparr>next_id := next_id tab + n\<rparr>"

text \<open>The ids of the rows \<open>audit_verify_chain\<close> reports.\<close>

definition audit_verify_chain :: "(str \<Rightarrow> 8 word list) \<Rightarrow> audit_row list \<Rightarrow> nat list" where
  "audit_verify_chain sha rs =
     map row_id (filter (\<lambda>r. row_hash r \<noteq> Some (audit_row_hash sha r)) rs) @
     map row_id (filter (\<lambda>r. row_hash r = None) rs)"

text \<open>What the database answers: the errors of the two statements, the ids drawn by inserts that
  failed since the last record, and whether the sink's role may read the table.\<close>

record pg_faults =
  select_error :: "str option"
  insert_error :: "str option"
  burnt_ids :: nat
  may_select :: bool

definition event_row :: "(str \<Rightarrow> 8 word list) \<Rightarrow> audit_event \<Rightarrow> str \<Rightarrow> audit_row" where
  "event_row sha e prev =
     \<lparr>row_id = 0, row_actor = ev_actor_id e, row_action = action_str (ev_action e),
      row_perm_bit = perm_bit (ev_action e), row_detail = detail_json e, row_tenant = ev_tenant e,
      row_prev = Some prev, row_hash = Some (event_row_hash sha e prev)\<rparr>"

definition link_of :: "bool \<Rightarrow> audit_event \<Rightarrow> audit_table \<Rightarrow> str" where
  "link_of sel e tab = unwrap_or_default (latest_hash (ev_tenant e) (visible_rows sel (rows tab)))"

definition pg_record ::
  "(str \<Rightarrow> 8 word list) \<Rightarrow> pg_faults \<Rightarrow> audit_event \<Rightarrow> audit_table \<Rightarrow> (str + unit) \<times> audit_table" where
  "pg_record sha flt e tab =
     (case select_error flt of
        Some err \<Rightarrow> (Inl err, tab)
      | None \<Rightarrow>
          let prev_hash = link_of (may_select flt) e tab; tab = burn_ids (burnt_ids flt) tab in
          (case insert_error flt of
             Some err \<Rightarrow> (Inl err, tab)
           | None \<Rightarrow> (Inr (), insert_row sha (may_select flt) (event_row sha e prev_hash) tab)))"

section \<open>Append-only sinks\<close>

text \<open>
  The contract \<open>AuditSink::record\<close> documents ("implementations must be append-only"): recording
  extends the stored list by one entry, or fails and leaves it as it was.
\<close>

locale append_only =
  fixes record_event :: "'e \<Rightarrow> 's \<Rightarrow> (str + unit) \<times> 's"
    and stored :: "'s \<Rightarrow> 'r list"
  assumes record_ok: "record_event e s = (Inr u, t) \<Longrightarrow> \<exists>r. stored t = stored s @ [r]"
    and record_err: "record_event e s = (Inl err, t) \<Longrightarrow> stored t = stored s"
begin

definition record_all :: "'e list \<Rightarrow> 's \<Rightarrow> 's" where
  "record_all es s = fold (\<lambda>e s. snd (record_event e s)) es s"

lemma record_prefix: "prefix (stored s) (stored (snd (record_event e s)))"
  using record_ok record_err by (cases "record_event e s"; cases "fst (record_event e s)") fastforce+

lemma record_all_prefix: "prefix (stored s) (stored (record_all es s))"
  unfolding record_all_def
proof (induction es arbitrary: s)
  case (Cons e es)
  have "prefix (stored s) (stored (snd (record_event e s)))" by (rule record_prefix)
  also have "prefix \<dots> (stored (fold (\<lambda>e s. snd (record_event e s)) es (snd (record_event e s))))"
    by (rule Cons.IH)
  finally show ?case by simp
qed simp

end

interpretation mock_sink: append_only mock_record "\<lambda>evs. evs"
  by unfold_locales (auto simp: mock_record_def)

lemma insert_row_rows:
  "rows (insert_row sha sel r tab) = rows tab @
     [audit_chain_before_insert sha (visible_rows sel (rows tab)) (r\<lparr>row_id := next_id tab\<rparr>)]"
  by (simp add: insert_row_def)

lemma burn_ids_fields [simp]: "rows (burn_ids n tab) = rows tab" "next_id (burn_ids n tab) = next_id tab + n"
  "burn_ids 0 tab = tab"
  by (simp_all add: burn_ids_def)

lemma visible_rows_True [simp]: "visible_rows True rs = rs" "visible_rows False rs = []"
  by (simp_all add: visible_rows_def)

interpretation pg_sink: append_only "pg_record sha flt" rows for sha flt
  by unfold_locales (auto simp: pg_record_def insert_row_rows Let_def split: option.splits)

section \<open>The hash chain\<close>

definition no_faults :: pg_faults where
  "no_faults = \<lparr>select_error = None, insert_error = None, burnt_ids = 0, may_select = True\<rparr>"

definition empty_table :: audit_table where
  "empty_table = \<lparr>next_id = 1, rows = []\<rparr>"

text \<open>The table the Postgres sink leaves after recording a list of events.\<close>

definition pg_record_all :: "(str \<Rightarrow> 8 word list) \<Rightarrow> audit_event list \<Rightarrow> audit_table \<Rightarrow> audit_table" where
  "pg_record_all sha es tab = fold (\<lambda>e t. snd (pg_record sha no_faults e t)) es tab"

text \<open>
  A well-linked table, as one walks it from the first row: \<open>tip\<close> gives each tenant the hash of its
  last row so far, and the next row of a tenant carries it as \<open>prev_hash\<close>, with its own hash.  The
  definition does not use the sink's query.
\<close>

definition advance_tip :: "audit_row \<Rightarrow> (str \<Rightarrow> str) \<Rightarrow> str \<Rightarrow> str" where
  "advance_tip r tip = tip(row_tenant r := (case row_hash r of Some h \<Rightarrow> h | None \<Rightarrow> []))"

fun linked_from :: "(str \<Rightarrow> 8 word list) \<Rightarrow> (str \<Rightarrow> str) \<Rightarrow> audit_row list \<Rightarrow> bool" where
  "linked_from sha tip [] = True"
| "linked_from sha tip (r # rs) = (row_prev r = Some (tip (row_tenant r)) \<and>
     row_hash r = Some (audit_row_hash sha r) \<and> linked_from sha (advance_tip r tip) rs)"

definition chain_tip :: "audit_row list \<Rightarrow> str \<Rightarrow> str" where
  "chain_tip rs = fold advance_tip rs (\<lambda>_. [])"

definition chain_ok :: "(str \<Rightarrow> 8 word list) \<Rightarrow> audit_row list \<Rightarrow> bool" where
  "chain_ok sha rs = linked_from sha (\<lambda>_. []) rs"

definition ids_ascend :: "audit_table \<Rightarrow> bool" where
  "ids_ascend tab \<longleftrightarrow> sorted_wrt (<) (map row_id (rows tab) @ [next_id tab])"

lemma chain_ok_Nil [simp]: "chain_ok sha []"
  by (simp add: chain_ok_def)

lemma rows_empty_table [simp]: "rows empty_table = []"
  by (simp add: empty_table_def)

lemma ids_ascend_empty [simp]: "ids_ascend empty_table"
  by (simp add: ids_ascend_def empty_table_def)

lemma chain_tip_snoc [simp]: "chain_tip (rs @ [r]) = advance_tip r (chain_tip rs)"
  by (simp add: chain_tip_def)

lemma linked_from_append:
  "linked_from sha tip (rs @ qs) \<longleftrightarrow> linked_from sha tip rs \<and> linked_from sha (fold advance_tip rs tip) qs"
  by (induction rs arbitrary: tip) auto

text \<open>The sink's query finds the tip.\<close>

lemma latest_hash_tip: "unwrap_or_default (latest_hash t rs) = chain_tip rs t"
  by (induction rs rule: rev_induct)
    (auto simp: latest_hash_def unwrap_or_default_def chain_tip_def advance_tip_def split: option.splits)

lemma link_of_tip: "link_of sel e tab = (if sel then chain_tip (rows tab) (ev_tenant e) else [])"
  by (simp add: link_of_def visible_rows_def latest_hash_tip) (simp add: chain_tip_def)

lemma chain_ok_snoc:
  "chain_ok sha (rs @ [r]) \<longleftrightarrow> chain_ok sha rs \<and> row_prev r = Some (chain_tip rs (row_tenant r)) \<and>
     row_hash r = Some (audit_row_hash sha r)"
  by (simp add: chain_ok_def linked_from_append chain_tip_def)

lemma verify_empty_iff:
  "audit_verify_chain sha rs = [] \<longleftrightarrow> (\<forall>r\<in>set rs. row_hash r = Some (audit_row_hash sha r))"
  by (auto simp: audit_verify_chain_def filter_empty_conv)

lemma chain_ok_verify: "chain_ok sha rs \<Longrightarrow> audit_verify_chain sha rs = []"
  unfolding verify_empty_iff by (induction rs rule: rev_induct) (auto simp: chain_ok_snoc)

text \<open>Hashed on either side of the boundary, a row the sink builds has the same hash.\<close>

lemma event_row_hash_agrees: "audit_row_hash sha (event_row sha e prev\<lparr>row_id := n\<rparr>) = event_row_hash sha e prev"
  by (simp add: audit_row_hash_def audit_chain_payload_def event_row_def event_row_hash_def
      row_payload_def unwrap_or_default_def)

lemma inserted_event_row:
  "rows (insert_row sha sel (event_row sha e prev) tab) =
     rows tab @ [event_row sha e prev\<lparr>row_id := next_id tab\<rparr>]"
  by (simp add: insert_row_rows audit_chain_before_insert_def event_row_def)

lemma next_id_insert [simp]: "next_id (insert_row sha sel r tab) = Suc (next_id tab)"
  by (simp add: insert_row_def)

lemma pg_record_cases:
  obtains (fails) err n where "pg_record sha flt e tab = (Inl err, burn_ids n tab)"
  | (stores) "pg_record sha flt e tab = (Inr (), insert_row sha (may_select flt)
        (event_row sha e (link_of (may_select flt) e tab)) (burn_ids (burnt_ids flt) tab))"
proof (cases "select_error flt")
  case (Some err)
  then have "pg_record sha flt e tab = (Inl err, burn_ids 0 tab)" by (simp add: pg_record_def)
  then show ?thesis by (rule fails)
next
  case None
  then show ?thesis using fails [of _ "burnt_ids flt"] stores
    by (cases "insert_error flt") (simp_all add: pg_record_def Let_def)
qed

lemma row_fields_event_row [simp]:
  "row_tenant (event_row sha e prev) = ev_tenant e"
  "row_prev (event_row sha e prev) = Some prev"
  "row_hash (event_row sha e prev) = Some (event_row_hash sha e prev)"
  "row_action (event_row sha e prev) = action_str (ev_action e)"
  "row_detail (event_row sha e prev) = detail_json e"
  by (simp_all add: event_row_def)

lemma latest_hash_snoc [simp]:
  "latest_hash t (rs @ [r]) = (if row_tenant r = t then row_hash r else latest_hash t rs)"
  by (simp add: latest_hash_def)



text \<open>
  What \<open>audit_verify_chain\<close> cannot see: it recomputes each row's hash from that row's own
  \<open>prev_hash\<close> and never compares it with the preceding row, so once a table passes, every table
  made of some of its rows, in any order, passes too: deleted, reordered and duplicated rows go
  unreported.
\<close>

theorem verify_chain_misses_deletion:
  assumes "audit_verify_chain sha rs = []" and "set rs' \<subseteq> set rs"
  shows "audit_verify_chain sha rs' = []"
  using assms by (auto simp: verify_empty_iff)

lemma chain_ok_pg_record_all: "chain_ok sha (rows tab) \<Longrightarrow> chain_ok sha (rows (pg_record_all sha es tab))"
  unfolding pg_record_all_def
proof (induction es arbitrary: tab)
  case (Cons e es)
  have "chain_ok sha (rows (snd (pg_record sha no_faults e tab)))"
    by (cases rule: pg_record_cases [of sha no_faults e tab])
      (use Cons.prems in \<open>simp_all add: inserted_event_row chain_ok_snoc event_row_hash_agrees link_of_tip no_faults_def\<close>)
  then show ?case by (simp add: Cons.IH)
qed simp

theorem verify_chain_misses_deletion_witness:
  "let sha = (\<lambda>p. [of_nat (length p)]);
       ev = (\<lambda>a. audit_event_new 0 (principal_all ''t'' ''u'') a True JNull);
       rs = rows (pg_record_all sha [ev A_Read, ev A_Commit, ev A_Modify] empty_table)
   in map row_action rs = [''read'', ''commit'', ''modify''] \<and>
      audit_verify_chain sha [rs ! 0, rs ! 2] = []"
proof -
  define sha :: "str \<Rightarrow> 8 word list" where "sha = (\<lambda>p. [of_nat (length p)])"
  define ev where "ev = (\<lambda>a. audit_event_new 0 (principal_all ''t'' ''u'') a True JNull)"
  define rs where "rs = rows (pg_record_all sha [ev A_Read, ev A_Commit, ev A_Modify] empty_table)"
  have acts: "map row_action rs = [''read'', ''commit'', ''modify'']"
    by (simp add: rs_def pg_record_all_def pg_record_def no_faults_def Let_def link_of_tip
        inserted_event_row ev_def audit_event_new_def)
  have "length (map row_action rs) = 3" unfolding acts by simp
  then have "length rs = 3" by (simp only: length_map)
  moreover have "audit_verify_chain sha rs = []"
    unfolding rs_def by (intro chain_ok_verify chain_ok_pg_record_all) simp
  moreover have "set [rs ! 0, rs ! 2] \<subseteq> set rs" using \<open>length rs = 3\<close> by simp
  ultimately have misses: "audit_verify_chain sha [rs ! 0, rs ! 2] = []"
    by (simp only: verify_chain_misses_deletion)
  show ?thesis
    using conjI [OF acts misses] unfolding rs_def ev_def sha_def Let_def .
qed

text \<open>
  The hashes a tenant's chain runs through, and the payloads that were hashed for it.
\<close>

fun chain_head :: "(str \<Rightarrow> 8 word list) \<Rightarrow> audit_event list \<Rightarrow> str \<Rightarrow> str" where
  "chain_head sha [] prev = prev"
| "chain_head sha (e # es) prev = chain_head sha es (event_row_hash sha e prev)"

fun chain_payloads :: "(str \<Rightarrow> 8 word list) \<Rightarrow> audit_event list \<Rightarrow> str \<Rightarrow> str set" where
  "chain_payloads sha [] prev = {}"
| "chain_payloads sha (e # es) prev =
     insert (row_payload e prev) (chain_payloads sha es (event_row_hash sha e prev))"

lemma chain_head_snoc [simp]:
  "chain_head sha (es @ [e]) prev = event_row_hash sha e (chain_head sha es prev)"
  by (induction es arbitrary: prev) auto

lemma chain_payloads_snoc [simp]:
  "chain_payloads sha (es @ [e]) prev =
     insert (row_payload e (chain_head sha es prev)) (chain_payloads sha es prev)"
  by (induction es arbitrary: prev) auto

lemma hex_digit_inj: "m < 16 \<Longrightarrow> n < 16 \<Longrightarrow> hex_digit m = hex_digit n \<longleftrightarrow> m = n"
  by (auto simp: hex_digit_def split: if_splits dest!: arg_cong [where f = "of_char :: char \<Rightarrow> nat"])

lemma hex_byte_inj [simp]: "hex_byte b = hex_byte c \<longleftrightarrow> b = c"
proof
  assume eq: "hex_byte b = hex_byte c"
  have lt: "unat b < 256" "unat c < 256"
    using unsigned_less [of b, where ?'a = nat] unsigned_less [of c, where ?'a = nat] by simp_all
  have "unat b div 16 = unat c div 16 \<and> unat b mod 16 = unat c mod 16"
    using eq lt by (simp add: hex_byte_def hex_digit_inj)
  then have "unat b = unat c" by (metis div_mult_mod_eq)
  then show "b = c" by (simp only: word_unat_eq_iff)
qed simp

lemma length_hex_byte [simp]: "length (hex_byte b) = 2"
  by (simp add: hex_byte_def)

lemma hex_inj: "hex bs = hex cs \<Longrightarrow> bs = cs"
proof (induction bs arbitrary: cs)
  case Nil
  then show ?case by (cases cs) (auto simp: hex_def hex_byte_def)
next
  case (Cons b bs)
  then obtain c cs' where cs: "cs = c # cs'" by (cases cs) (auto simp: hex_def hex_byte_def)
  with Cons.prems have "hex_byte b @ hex bs = hex_byte c @ hex cs'" by (simp add: hex_def)
  then have "b = c" "hex bs = hex cs'" by (simp_all add: append_eq_append_conv)
  with Cons.IH cs show ?case by simp
qed

lemma action_str_bar: "action_str a @ CHR ''|'' # x = action_str b @ CHR ''|'' # y \<longleftrightarrow> a = b \<and> x = y"
  by (cases a; cases b) simp_all

lemma row_payload_inj:
  "ev_tenant e = ev_tenant f \<Longrightarrow> row_payload e p = row_payload f q \<Longrightarrow>
   ev_action e = ev_action f \<and> p = q"
  by (auto simp: row_payload_def action_str_bar)

lemma hash_nonempty: "sha p \<noteq> [] \<Longrightarrow> hex (sha p) \<noteq> []"
  by (cases "sha p") (auto simp: hex_def hex_byte_def)

lemma chain_head_commits:
  assumes "inj_on sha (chain_payloads sha es [] \<union> chain_payloads sha fs [])"
    and "\<forall>p. sha p \<noteq> []" and "\<forall>e\<in>set es \<union> set fs. ev_tenant e = t"
    and "chain_head sha es [] = chain_head sha fs []"
  shows "map ev_action es = map ev_action fs"
  using assms
proof (induction es arbitrary: fs rule: rev_induct)
  case Nil
  then show ?case
    by (cases fs rule: rev_cases) (auto simp: event_row_hash_def hash_nonempty dest: sym)
next
  case (snoc e es)
  from snoc.prems(2,4) obtain f fs' where fs: "fs = fs' @ [f]"
    by (cases fs rule: rev_cases) (auto simp: event_row_hash_def hash_nonempty)
  let ?p = "row_payload e (chain_head sha es [])"
  let ?q = "row_payload f (chain_head sha fs' [])"
  have "sha ?p = sha ?q"
    using snoc.prems(4) by (auto simp: fs event_row_hash_def intro: hex_inj)
  then have "?p = ?q" by (rule inj_onD [OF snoc.prems(1)]) (simp_all add: fs)
  moreover have "ev_tenant e = ev_tenant f" using snoc.prems(3) by (simp add: fs)
  ultimately have eq: "ev_action e = ev_action f" "chain_head sha es [] = chain_head sha fs' []"
    using row_payload_inj by blast+
  have "inj_on sha (chain_payloads sha es [] \<union> chain_payloads sha fs' [])"
    by (rule inj_on_subset [OF snoc.prems(1)]) (auto simp: fs)
  with snoc.IH snoc.prems(2,3) eq have "map ev_action es = map ev_action fs'"
    by (simp add: fs)
  with eq show ?case by (simp add: fs)
qed

lemma latest_hash_pg_record_all:
  assumes "\<forall>e\<in>set es. ev_tenant e = t"
  shows "unwrap_or_default (latest_hash t (rows (pg_record_all sha es tab))) =
     chain_head sha es (unwrap_or_default (latest_hash t (rows tab)))"
  using assms unfolding pg_record_all_def
  by (induction es arbitrary: tab)
    (simp_all add: pg_record_def no_faults_def Let_def inserted_event_row link_of_def unwrap_or_default_def)

text \<open>
  C16: the chain commits to a tenant's history of actions: if SHA-256 has no collision among the
  payloads hashed for two histories of one tenant (and never returns an empty digest), two
  histories with different sequences of actions leave different hashes in the tenant's last row.
\<close>

theorem chain_commits_to_actions:
  assumes no_collision: "inj_on sha (chain_payloads sha es [] \<union> chain_payloads sha fs [])"
    and digest: "\<forall>p. sha p \<noteq> []"
    and tenant: "\<forall>e\<in>set es \<union> set fs. ev_tenant e = t"
    and differ: "map ev_action es \<noteq> map ev_action fs"
  shows "latest_hash t (rows (pg_record_all sha es empty_table)) \<noteq>
         latest_hash t (rows (pg_record_all sha fs empty_table))"
proof
  assume "latest_hash t (rows (pg_record_all sha es empty_table)) =
          latest_hash t (rows (pg_record_all sha fs empty_table))"
  moreover have "unwrap_or_default (latest_hash t (rows empty_table)) = []"
    by (simp add: latest_hash_def unwrap_or_default_def)
  ultimately have "chain_head sha es [] = chain_head sha fs []"
    using tenant latest_hash_pg_record_all [of es t sha empty_table]
      latest_hash_pg_record_all [of fs t sha empty_table] by simp
  then have "map ev_action es = map ev_action fs"
    by (rule chain_head_commits [OF no_collision digest tenant])
  with differ show False ..
qed

theorem chain_commits_to_actions_witness:
  "let sha = (\<lambda>p. [of_char (hd p)]) :: str \<Rightarrow> 8 word list;
       ev = (\<lambda>a. audit_event_new 0 (principal_all ''t'' ''u'') a True JNull)
   in latest_hash ''t'' (rows (pg_record_all sha [ev A_Read] empty_table)) \<noteq>
      latest_hash ''t'' (rows (pg_record_all sha [ev A_Commit] empty_table))"
  unfolding Let_def
  by (rule chain_commits_to_actions)
    (simp_all add: audit_event_new_def principal_all_def principal_new_def row_payload_def)

end
