(* ===== verification/Metrics.thy ===== *)
theory Metrics
  imports Complex_Main Rust_Str "HOL-Library.Word"
begin

text \<open>
  The metrics registry (crates/core/src/metrics.rs): atomic \<open>u64\<close> counters (64-bit words, so
  \<open>fetch_add\<close> wraps) and fixed-bucket latency histograms.  Latencies (\<open>f64\<close>) are exact rationals:
  NaN and infinities are outside the model, rounding is not modelled.
\<close>

type_synonym u64 = "64 word"

section \<open>Histograms\<close>

definition LATENCY_BUCKETS_MS :: "rat list" where
  "LATENCY_BUCKETS_MS = [5, 10, 25, 50, 100, 250, 500, 1000, 2500, 5000]"

record histogram =
  buckets :: "rat list"
  h_counts :: "u64 list"
  h_count :: u64
  h_sum_us :: u64

definition histogram_new :: "rat list \<Rightarrow> histogram" where
  "histogram_new bs = \<lparr>buckets = bs, h_counts = map (\<lambda>_. 0) bs, h_count = 0, h_sum_us = 0\<rparr>"

text \<open>\<open>x as u64\<close>: truncation that saturates at both ends.\<close>

definition f64_as_u64 :: "rat \<Rightarrow> u64" where
  "f64_as_u64 x = (if x < 0 then 0 else if 2 ^ 64 \<le> x then - 1 else of_int \<lfloor>x\<rfloor>)"

text \<open>The loop of \<open>observe_ms\<close>: the first bucket whose bound is not below the sample.\<close>

fun bump_bucket :: "rat list \<Rightarrow> u64 list \<Rightarrow> rat \<Rightarrow> u64 list" where
  "bump_bucket (u # us) (c # cs) x = (if x \<le> u then (c + 1) # cs else c # bump_bucket us cs x)"
| "bump_bucket _ cs x = cs"

definition observe_ms :: "rat \<Rightarrow> histogram \<Rightarrow> histogram" where
  "observe_ms latency h =
     h\<lparr>h_counts := bump_bucket (buckets h) (h_counts h) (max latency 0),
       h_count := h_count h + 1,
       h_sum_us := h_sum_us h + f64_as_u64 (latency * 1000)\<rparr>"

definition sum_ms :: "histogram \<Rightarrow> rat" where
  "sum_ms h = of_nat (unat (h_sum_us h)) / 1000"

definition bucket_counts :: "histogram \<Rightarrow> u64 list" where
  "bucket_counts h = h_counts h"

text \<open>The loop of \<open>p95_ms\<close>: \<open>lower\<close> is the bound before the current bucket (0 at the start).\<close>

fun p95_loop :: "rat list \<Rightarrow> u64 list \<Rightarrow> u64 \<Rightarrow> u64 \<Rightarrow> rat \<Rightarrow> rat option" where
  "p95_loop (u # us) (c # cs) target cum lower =
     (let cum' = cum + c in
      if target \<le> cum'
      then (if c = 0 then Some u
            else let rank = (if cum' - c \<le> target then target - (cum' - c) else 0) in
                 Some (lower + (u - lower) * (of_nat (unat rank) / of_nat (unat c))))
      else p95_loop us cs target cum' u)"
| "p95_loop _ _ target cum lower = None"

definition p95_ms :: "histogram \<Rightarrow> rat" where
  "p95_ms h =
     (if h_count h = 0 then 0
      else let target = f64_as_u64 (of_int \<lceil>of_nat (unat (h_count h)) * (95 / 100 :: rat)\<rceil>) in
           case p95_loop (buckets h) (h_counts h) target 0 0 of
             Some v \<Rightarrow> v
           | None \<Rightarrow> (if buckets h = [] then 0 else last (buckets h)))"

section \<open>The registry\<close>

record metrics =
  requests_total :: u64
  tool_calls_total :: u64
  llm_calls_total :: u64
  completions_total :: u64
  denials_total :: u64
  audit_events_total :: u64
  request_latency :: histogram
  completion_latency :: histogram

definition metrics_new :: metrics where
  "metrics_new = \<lparr>requests_total = 0, tool_calls_total = 0, llm_calls_total = 0,
     completions_total = 0, denials_total = 0, audit_events_total = 0,
     request_latency = histogram_new LATENCY_BUCKETS_MS,
     completion_latency = histogram_new LATENCY_BUCKETS_MS\<rparr>"

definition inc_requests :: "metrics \<Rightarrow> metrics" where
  "inc_requests m = m\<lparr>requests_total := requests_total m + 1\<rparr>"
definition inc_tool_calls :: "metrics \<Rightarrow> metrics" where
  "inc_tool_calls m = m\<lparr>tool_calls_total := tool_calls_total m + 1\<rparr>"
definition inc_llm_calls :: "metrics \<Rightarrow> metrics" where
  "inc_llm_calls m = m\<lparr>llm_calls_total := llm_calls_total m + 1\<rparr>"
definition inc_completions :: "metrics \<Rightarrow> metrics" where
  "inc_completions m = m\<lparr>completions_total := completions_total m + 1\<rparr>"
definition inc_denials :: "metrics \<Rightarrow> metrics" where
  "inc_denials m = m\<lparr>denials_total := denials_total m + 1\<rparr>"
definition inc_audit_events :: "metrics \<Rightarrow> metrics" where
  "inc_audit_events m = m\<lparr>audit_events_total := audit_events_total m + 1\<rparr>"
definition observe_request :: "rat \<Rightarrow> metrics \<Rightarrow> metrics" where
  "observe_request l m = m\<lparr>request_latency := observe_ms l (request_latency m)\<rparr>"
definition observe_completion :: "rat \<Rightarrow> metrics \<Rightarrow> metrics" where
  "observe_completion l m = m\<lparr>completion_latency := observe_ms l (completion_latency m)\<rparr>"

lemmas metric_defs = inc_requests_def inc_tool_calls_def inc_llm_calls_def inc_completions_def
  inc_denials_def inc_audit_events_def observe_request_def observe_completion_def

section \<open>Prometheus exposition text\<close>

text \<open>
  \<open>{}\<close> of a sum of milliseconds: at most three decimals, trailing zeros dropped.  This is Rust's
  shortest form as long as the sum has at most 15 significant digits (about 31 years of latency).
  The bucket bounds are whole numbers and print without a fraction.
\<close>

definition show_milli_frac :: "nat \<Rightarrow> str" where
  "show_milli_frac f =
     (if f = 0 then [] else ''.'' @ trim_end_matches (CHR ''0'')
        [char_of (48 + f div 100), char_of (48 + f div 10 mod 10), char_of (48 + f mod 10)])"

definition show_millis :: "nat \<Rightarrow> str" where
  "show_millis us = show_nat (us div 1000) @ show_milli_frac (us mod 1000)"

definition show_bound :: "rat \<Rightarrow> str" where
  "show_bound u = show_int \<lfloor>u\<rfloor>"

fun render_buckets :: "str \<Rightarrow> rat list \<Rightarrow> u64 list \<Rightarrow> u64 \<Rightarrow> str" where
  "render_buckets name (u # us) (c # cs) cum =
     name @ ''_bucket{le='' @ CHR 0x22 # show_bound u @ CHR 0x22 # ''} '' @
       show_nat (unat (cum + c)) @ CHR 0x0A # render_buckets name us cs (cum + c)"
| "render_buckets name _ _ cum = []"

definition render_histogram :: "str \<Rightarrow> histogram \<Rightarrow> str" where
  "render_histogram name h =
     ''# HELP '' @ name @ '' Latency in milliseconds.'' @ [CHR 0x0A] @
     ''# TYPE '' @ name @ '' histogram'' @ [CHR 0x0A] @
     render_buckets name (buckets h) (bucket_counts h) 0 @
     name @ ''_bucket{le='' @ CHR 0x22 # ''+Inf'' @ CHR 0x22 # ''} '' @
       show_nat (unat (h_count h)) @ [CHR 0x0A] @
     name @ ''_sum '' @ show_millis (unat (h_sum_us h)) @ [CHR 0x0A] @
     name @ ''_count '' @ show_nat (unat (h_count h)) @ [CHR 0x0A]"

definition render_counter :: "str \<Rightarrow> str \<Rightarrow> u64 \<Rightarrow> str" where
  "render_counter name help v =
     ''# HELP '' @ name @ '' '' @ help @ [CHR 0x0A] @
     ''# TYPE '' @ name @ '' counter'' @ [CHR 0x0A] @
     name @ '' '' @ show_nat (unat v) @ [CHR 0x0A]"

definition render_prometheus :: "metrics \<Rightarrow> str" where
  "render_prometheus m =
     render_counter ''aidea_requests_total'' ''Total gRPC/CLI requests handled.'' (requests_total m) @
     render_counter ''aidea_tool_calls_total'' ''Tool/action executions.'' (tool_calls_total m) @
     render_counter ''aidea_llm_calls_total'' ''LLM think/plan invocations.'' (llm_calls_total m) @
     render_counter ''aidea_completions_total'' ''NES completions produced.'' (completions_total m) @
     render_counter ''aidea_denials_total'' ''Actions denied by the six-bit mask.'' (denials_total m) @
     render_counter ''aidea_audit_events_total'' ''Append-only audit events recorded.''
       (audit_events_total m) @
     render_histogram ''aidea_request_latency_ms'' (request_latency m) @
     render_histogram ''aidea_completion_latency_ms'' (completion_latency m)"

section \<open>What a histogram records\<close>

text \<open>The histogram after a sequence of observations.\<close>

definition histogram_of :: "rat list \<Rightarrow> rat list \<Rightarrow> histogram" where
  "histogram_of bs xs = fold observe_ms xs (histogram_new bs)"

lemma length_bump [simp]: "length (bump_bucket us cs x) = length cs"
  by (induction us cs x rule: bump_bucket.induct) auto

lemma cumulative_bump:
  "sorted us \<Longrightarrow> length us = length cs \<Longrightarrow> i < length us \<Longrightarrow>
   sum_list (take (Suc i) (bump_bucket us cs x)) =
     sum_list (take (Suc i) cs) + (if x \<le> us ! i then 1 else 0)"
proof (induction us cs x arbitrary: i rule: bump_bucket.induct)
  case (1 u us c cs x)
  show ?case
  proof (cases i)
    case 0
    then show ?thesis by simp
  next
    case (Suc j)
    have le: "u \<le> us ! j" using "1.prems" Suc by simp
    show ?thesis
    proof (cases "x \<le> u")
      case True
      have "x \<le> us ! j" using True le by (rule order_trans)
      with True Suc show ?thesis by simp
    next
      case False
      with 1 Suc show ?thesis by (simp add: algebra_simps)
    qed
  qed
qed auto

lemma fold_observe_buckets [simp]: "buckets (fold observe_ms xs h) = buckets h"
  by (induction xs arbitrary: h) (auto simp: observe_ms_def)

lemma fold_observe_length:
  "length (h_counts (fold observe_ms xs h)) = length (h_counts h)"
  by (induction xs arbitrary: h) (auto simp: observe_ms_def)

lemma fold_observe_count: "h_count (fold observe_ms xs h) = h_count h + of_nat (length xs)"
  by (induction xs arbitrary: h) (auto simp: observe_ms_def algebra_simps)

lemma fold_observe_cumulative:
  assumes "sorted (buckets h)" "length (buckets h) = length (h_counts h)" "i < length (buckets h)"
  shows "sum_list (take (Suc i) (h_counts (fold observe_ms xs h))) =
     sum_list (take (Suc i) (h_counts h)) +
       of_nat (length (filter (\<lambda>x. max x 0 \<le> buckets h ! i) xs))"
  using assms
proof (induction xs arbitrary: h)
  case (Cons x xs)
  have "sum_list (take (Suc i) (h_counts (observe_ms x h))) =
      sum_list (take (Suc i) (h_counts h)) + (if max x 0 \<le> buckets h ! i then 1 else 0)"
    using cumulative_bump [OF Cons.prems, of "max x 0"] by (simp add: observe_ms_def)
  with Cons.IH [of "observe_ms x h"] Cons.prems show ?case
    by (simp add: observe_ms_def algebra_simps)
qed simp

lemma sum_list_zeros: "sum_list (map (\<lambda>_. 0 :: u64) xs) = 0"
  by (induction xs) auto

lemma word_rank_le:
  fixes cum c target :: u64
  assumes "cum < target" "target \<le> cum + c"
  shows "unat (target - cum) \<le> unat c"
proof -
  have "unat cum < unat target" "unat target \<le> unat (cum + c)"
    using assms by (simp_all add: word_less_nat_alt word_le_nat_alt)
  moreover have "unat (cum + c) \<le> unat cum + unat c"
    by (metis le_add2 le_add_diff_inverse2 mod_less_eq_dividend unat_word_ariths(1))
  moreover have "unat (target - cum) = unat target - unat cum"
    using assms(1) by (intro unat_sub) simp
  ultimately show ?thesis by linarith
qed

lemma interpolate_bounds:
  fixes lower u :: rat
  assumes "lower \<le> u" "n \<le> d" "0 < d"
  shows "lower \<le> lower + (u - lower) * (of_nat n / of_nat d) \<and>
         lower + (u - lower) * (of_nat n / of_nat d) \<le> u"
proof -
  have "(u - lower) * (of_nat n / of_nat d) \<le> (u - lower) * 1"
    using assms by (intro mult_left_mono) auto
  moreover have "0 \<le> (u - lower) * (of_nat n / of_nat d)"
    using assms by simp
  ultimately show ?thesis by simp
qed

lemma p95_loop_bounds:
  "p95_loop us cs target cum lower = Some v \<Longrightarrow> cum < target \<Longrightarrow> sorted (lower # us) \<Longrightarrow>
   lower \<le> v \<and> v \<le> last us"
proof (induction us cs target cum lower rule: p95_loop.induct)
  case (1 u us c cs target cum lower)
  have last: "u \<le> last (u # us)" using "1.prems"(3) by (cases us) auto
  show ?case
  proof (cases "target \<le> cum + c")
    case False
    then have "p95_loop us cs target (cum + c) u = Some v" "cum + c < target"
      using "1.prems"(1) by (auto simp: Let_def)
    then have "u \<le> v \<and> v \<le> last us" using "1.IH" False "1.prems"(3) by simp
    moreover have "us \<noteq> []" using \<open>p95_loop us cs target (cum + c) u = Some v\<close> by (cases us) auto
    ultimately show ?thesis using "1.prems"(3) by auto
  next
    case True
    show ?thesis
    proof (cases "c = 0")
      case True
      with \<open>target \<le> cum + c\<close> "1.prems"(2) show ?thesis by simp
    next
      case False
      then have v: "v = lower + (u - lower) * (of_nat (unat (target - cum)) / of_nat (unat c))"
        using "1.prems"(1,2) True by (auto simp: Let_def)
      have "lower \<le> v \<and> v \<le> u"
        unfolding v using "1.prems" True False
        by (intro interpolate_bounds word_rank_le) (auto simp: unat_gt_0)
      with last show ?thesis by auto
    qed
  qed
qed auto

lemma ceiling_95:
  assumes "0 < k"
  shows "0 < \<lceil>of_nat k * (95 / 100 :: rat)\<rceil> \<and> \<lceil>of_nat k * (95 / 100 :: rat)\<rceil> \<le> int k"
  using assms by (simp add: zero_less_ceiling ceiling_le_iff)

lemma p95_target_nat:
  assumes k: "0 < k" "k < 2 ^ 64"
  shows "f64_as_u64 (of_int \<lceil>of_nat k * (95 / 100 :: rat)\<rceil>) \<noteq> 0"
proof -
  define c where "c = \<lceil>of_nat k * (95 / 100 :: rat)\<rceil>"
  have pos: "0 < c" and "c \<le> int k" unfolding c_def using ceiling_95 [OF k(1)] by blast+
  moreover have "int k < 2 ^ 64" using k(2) by simp
  ultimately have lt: "c < 2 ^ 64" by linarith
  have "uint (of_int c :: u64) = c" using pos lt by (simp add: unsigned_of_int take_bit_int_eq_self)
  with pos have "(of_int c :: u64) \<noteq> 0" by (metis less_irrefl unsigned_0)
  then have "f64_as_u64 (of_int c) \<noteq> 0" using pos lt \<open>(of_int c :: u64) \<noteq> 0\<close> by (simp add: f64_as_u64_def)
  then show ?thesis unfolding c_def .
qed

lemma p95_target_pos:
  "n \<noteq> (0 :: u64) \<Longrightarrow> f64_as_u64 (of_int \<lceil>of_nat (unat n) * (95 / 100 :: rat)\<rceil>) \<noteq> 0"
  using unsigned_less [of n, where ?'a = nat]
  by (intro p95_target_nat) (simp_all add: unat_gt_0)

text \<open>
  What the exposed histogram means: after any sequence of observations the cumulative
  \<open>le\<close> series of the \<open>i\<close>-th bucket is the number of samples not above its bound (counting a
  negative sample as 0), the \<open>+Inf\<close> series is the number of samples, and the estimated p95 lies
  between 0 and the last bound.  The bounds must be ascending, as \<open>LATENCY_BUCKETS_MS\<close> is.
\<close>

theorem histogram_counts_samples:
  assumes "sorted bs" and "\<forall>b\<in>set bs. 0 \<le> b" and "i < length bs"
  shows "sum_list (take (Suc i) (bucket_counts (histogram_of bs xs))) =
           of_nat (length (filter (\<lambda>x. max x 0 \<le> bs ! i) xs)) \<and>
         h_count (histogram_of bs xs) = of_nat (length xs) \<and>
         0 \<le> p95_ms (histogram_of bs xs) \<and> p95_ms (histogram_of bs xs) \<le> last bs"
proof -
  let ?h = "histogram_of bs xs"
  have new: "buckets (histogram_new bs) = bs" "length (h_counts (histogram_new bs)) = length bs"
    "sum_list (take (Suc i) (h_counts (histogram_new bs))) = 0"
    by (simp_all add: histogram_new_def take_map sum_list_zeros)
  have bounds: "0 \<le> last bs" using assms(2,3) by (cases bs rule: rev_cases) auto
  have srt: "sorted (0 # bs)" using assms by simp
  have "0 \<le> p95_ms ?h \<and> p95_ms ?h \<le> last bs"
  proof (cases "h_count ?h = 0")
    case False
    let ?t = "f64_as_u64 (of_int \<lceil>of_nat (unat (h_count ?h)) * (95 / 100 :: rat)\<rceil>)"
    have t: "0 < ?t" using p95_target_pos [OF False] by (simp add: word_neq_0_conv)
    show ?thesis
      using False bounds p95_loop_bounds [OF _ t srt] new(1) assms(3)
      by (auto simp: p95_ms_def Let_def histogram_of_def split: option.splits)
  qed (simp add: p95_ms_def bounds)
  then show ?thesis
    using fold_observe_cumulative [of "histogram_new bs" i xs] assms new
    by (simp add: histogram_of_def bucket_counts_def fold_observe_count)
      (simp add: histogram_new_def)
qed

theorem histogram_counts_samples_witness:
  "sum_list (take 2 (bucket_counts (histogram_of [5, 10] [3, 7, 20]))) = 2 \<and>
   p95_ms (histogram_of [5, 10] [3, 7, 20]) \<le> 10"
  using histogram_counts_samples [of "[5, 10]" 1 "[3, 7, 20]"] by (simp add: numeral_2_eq_2)

end
