(* ===== verification/Host.thy ===== *)
theory Host
  imports Audit_Trail Metrics
begin

text \<open>
  The host layer (crates/core/src/host): the capability record every host provides, the bridge,
  the in-memory CLI host and the gRPC client; and the state the decision Core runs in.

  A \<open>world\<close> holds the state \<open>env\<close> of the collaborators that are not code of this repository
  (model server, remote host, database), the shared metrics, Quest's list of held actions with
  its id counter, and \<open>trail\<close>, the sequence of calls the Core has made across its trait
  boundaries, in order.  The trail is what the ordering properties are about.
\<close>

section \<open>The capability contract\<close>

datatype host_error = DocumentNotFound str | EditRejected str | Transport str | ApprovalDenied str

primrec display_host_error :: "host_error \<Rightarrow> str" where
  "display_host_error (DocumentNotFound s) = ''document not found: '' @ s"
| "display_host_error (EditRejected s) = ''edit rejected by host: '' @ s"
| "display_host_error (Transport s) = ''host transport error: '' @ s"
| "display_host_error (ApprovalDenied s) = ''approval denied for action: '' @ s"

record text_edit =
  document_uri :: str
  old_text :: str
  new_text :: str

record ghost_text =
  ghost_uri :: str
  cursor_offset :: nat
  suggestion :: str

datatype host_event = Status str | Log str | CompletionAccepted str

primrec display_host_event :: "host_event \<Rightarrow> str" where
  "display_host_event (Status s) = ''[status] '' @ s"
| "display_host_event (Log s) = ''[log] '' @ s"
| "display_host_event (CompletionAccepted s) = ''[accepted] '' @ s"

record 'w host_provider =
  hp_apply_edit :: "text_edit \<Rightarrow> ('w, host_error, unit) eff"
  hp_read_document :: "str \<Rightarrow> ('w, host_error, str) eff"
  hp_show_ghost :: "ghost_text \<Rightarrow> ('w, host_error, unit) eff"
  hp_request_approval :: "str \<Rightarrow> ('w, host_error, bool) eff"
  hp_emit_event :: "host_event \<Rightarrow> 'w \<Rightarrow> 'w"

section \<open>The CLI host\<close>

text \<open>
  The document store of \<open>CliHost\<close>; its lines on stdout are not modelled.  \<open>to_lowercase\<close> is
  taken on ASCII: no other character lowers to a letter of the two words searched for.
\<close>

type_synonym docs = "str \<Rightarrow> str option"

definition cli_seed :: "str \<Rightarrow> str \<Rightarrow> docs \<Rightarrow> docs" where
  "cli_seed uri content docs = docs(uri \<mapsto> content)"

definition cli_apply_edit :: "text_edit \<Rightarrow> (docs, host_error, unit) eff" where
  "cli_apply_edit edit docs =
     (case docs (document_uri edit) of
        None \<Rightarrow> (Inl (DocumentNotFound (document_uri edit)), docs)
      | Some doc \<Rightarrow>
          if contains_str doc (old_text edit)
          then (Inr (), docs(document_uri edit \<mapsto> replace_first (old_text edit) (new_text edit) doc))
          else (Inl (EditRejected ''old_text not found in document''), docs))"

definition cli_read_document :: "str \<Rightarrow> (docs, host_error, str) eff" where
  "cli_read_document uri docs =
     (case docs uri of None \<Rightarrow> (Inl (DocumentNotFound uri), docs) | Some d \<Rightarrow> (Inr d, docs))"

definition cli_request_approval :: "str \<Rightarrow> (docs, host_error, bool) eff" where
  "cli_request_approval action docs =
     (Inr (\<not> contains_str (to_ascii_lowercase action) ''commit'' \<and>
           \<not> contains_str (to_ascii_lowercase action) ''delete''), docs)"

definition cli_host :: "docs host_provider" where
  "cli_host = \<lparr>hp_apply_edit = cli_apply_edit, hp_read_document = cli_read_document,
     hp_show_ghost = (\<lambda>_. ret ()), hp_request_approval = cli_request_approval,
     hp_emit_event = (\<lambda>_ docs. docs)\<rparr>"

section \<open>The gRPC host\<close>

text \<open>
  The three remote procedures are parameters: they answer with the reply or with the text of the
  tonic status.  A cursor offset is sent as \<open>i32\<close>.
\<close>

record 'w host_rpc =
  rpc_apply_edit :: "str \<Rightarrow> str \<Rightarrow> str \<Rightarrow> ('w, str, bool) eff"
  rpc_read_document :: "str \<Rightarrow> ('w, str, str) eff"
  rpc_show_ghost :: "str \<Rightarrow> 32 word \<Rightarrow> str \<Rightarrow> ('w, str, unit) eff"

definition grpc_apply_edit :: "'w host_rpc \<Rightarrow> text_edit \<Rightarrow> ('w, host_error, unit) eff" where
  "grpc_apply_edit rpc edit =
     handle (rpc_apply_edit rpc (document_uri edit) (old_text edit) (new_text edit))
       (\<lambda>e. throw (Transport e))
       (\<lambda>ok. if ok then ret () else throw (EditRejected ''host rejected edit''))"

definition grpc_read_document :: "'w host_rpc \<Rightarrow> str \<Rightarrow> ('w, host_error, str) eff" where
  "grpc_read_document rpc uri = handle (rpc_read_document rpc uri) (\<lambda>e. throw (Transport e)) ret"

definition grpc_show_ghost :: "'w host_rpc \<Rightarrow> ghost_text \<Rightarrow> ('w, host_error, unit) eff" where
  "grpc_show_ghost rpc g =
     handle (rpc_show_ghost rpc (ghost_uri g) (of_nat (cursor_offset g)) (suggestion g))
       (\<lambda>e. throw (Transport e)) ret"

definition grpc_host :: "'w host_rpc \<Rightarrow> 'w host_provider" where
  "grpc_host rpc = \<lparr>hp_apply_edit = grpc_apply_edit rpc, hp_read_document = grpc_read_document rpc,
     hp_show_ghost = grpc_show_ghost rpc, hp_request_approval = (\<lambda>_. ret True),
     hp_emit_event = (\<lambda>_ w. w)\<rparr>"

section \<open>The world of the Core\<close>

datatype call =
    C_Think str                     \<comment> \<open>the planner asks the model with this context\<close>
  | C_Plan str                      \<comment> \<open>the planner asks for an action for this thought\<close>
  | C_Tool str str                  \<comment> \<open>the planner runs a tool\<close>
  | C_Attempt str str               \<comment> \<open>the self-healer runs the wrapped executor\<close>
  | C_Repair str                    \<comment> \<open>the self-healer or the decomposer asks the model\<close>
  | C_Process str "str list" str    \<comment> \<open>a process is spawned: program, arguments, directory\<close>
  | C_Audit audit_event             \<comment> \<open>an audit record is written\<close>
  | C_Event host_event
  | C_Edit text_edit
  | C_Approval str

record pending_approval =
  pa_id :: str
  pa_tool :: str
  pa_argument :: str
  pa_subtask :: str

record 'w world =
  env :: 'w
  w_metrics :: metrics
  trail :: "call list"
  w_pending :: "pending_approval list"
  w_counter :: u64

definition world0 :: "'w \<Rightarrow> 'w world" where
  "world0 e = \<lparr>env = e, w_metrics = metrics_new, trail = [], w_pending = [], w_counter = 0\<rparr>"

type_synonym ('w, 'e, 'a) run = "('w world, 'e, 'a) eff"

definition mark :: "call \<Rightarrow> ('w, 'e, unit) run" where
  "mark c = modify (\<lambda>w. w\<lparr>trail := trail w @ [c]\<rparr>)"

definition count_metric :: "(metrics \<Rightarrow> metrics) \<Rightarrow> ('w, 'e, unit) run" where
  "count_metric f = modify (\<lambda>w. w\<lparr>w_metrics := f (w_metrics w)\<rparr>)"

text \<open>A call into the environment: only \<open>env\<close> is reachable from there.\<close>

definition external :: "('w, 'e, 'a) eff \<Rightarrow> ('w, 'e, 'a) run" where
  "external f = (\<lambda>w. case f (env w) of (r, e) \<Rightarrow> (r, w\<lparr>env := e\<rparr>))"

section \<open>The bridge\<close>

definition bridge_read_document :: "'w host_provider \<Rightarrow> str \<Rightarrow> ('w, host_error, str) run" where
  "bridge_read_document h uri = external (hp_read_document h uri)"

definition bridge_apply_edit :: "'w host_provider \<Rightarrow> text_edit \<Rightarrow> ('w, host_error, unit) run" where
  "bridge_apply_edit h edit = bnd (mark (C_Edit edit)) (\<lambda>_. external (hp_apply_edit h edit))"

definition bridge_show_ghost :: "'w host_provider \<Rightarrow> ghost_text \<Rightarrow> ('w, host_error, unit) run" where
  "bridge_show_ghost h g = external (hp_show_ghost h g)"

definition bridge_emit_event :: "'w host_provider \<Rightarrow> host_event \<Rightarrow> ('w, 'e, unit) run" where
  "bridge_emit_event h ev =
     bnd (mark (C_Event ev)) (\<lambda>_. modify (\<lambda>w. w\<lparr>env := hp_emit_event h ev (env w)\<rparr>))"

definition bridge_request_approval :: "'w host_provider \<Rightarrow> str \<Rightarrow> ('w, 'e, bool) run" where
  "bridge_request_approval h action =
     bnd (mark (C_Approval action)) (\<lambda>_.
       handle (external (hp_request_approval h action))
         (\<lambda>e. bnd (bridge_emit_event h (Log (''approval error: '' @ display_host_error e)))
                (\<lambda>_. ret False))
         ret)"

section \<open>How a run extends the trail\<close>

lemma mark_app [eff_simps]: "mark c w = (Inr (), w\<lparr>trail := trail w @ [c]\<rparr>)"
  by (simp add: mark_def)

lemma count_metric_app [eff_simps]: "count_metric f w = (Inr (), w\<lparr>w_metrics := f (w_metrics w)\<rparr>)"
  by (simp add: count_metric_def)

text \<open>
  A log property: one that holds of the empty list of calls and of the concatenation of two lists
  of calls that have it.  Each gives a relation between worlds, "only calls with the property
  were added", that every combination of calls keeps.
\<close>

definition logs :: "(call list \<Rightarrow> bool) \<Rightarrow> 'w world \<Rightarrow> 'w world \<Rightarrow> bool" where
  "logs Q s t \<longleftrightarrow> (\<exists>L. trail t = trail s @ L \<and> Q L)"

locale log_property =
  fixes Q :: "call list \<Rightarrow> bool"
  assumes Q_Nil: "Q []"
    and Q_append: "Q L \<Longrightarrow> Q M \<Longrightarrow> Q (L @ M)"
begin

lemma logs_refl: "logs Q s s"
  by (simp add: logs_def Q_Nil)

lemma logs_trans: "logs Q s t \<Longrightarrow> logs Q t u \<Longrightarrow> logs Q s u"
  by (auto simp: logs_def intro: Q_append)

lemma logs_mark: "Q [c] \<Longrightarrow> rel_eff (logs Q) (mark c)"
  by (rule rel_effI) (auto simp: mark_app logs_def)

lemma logs_metric: "rel_eff (logs Q) (count_metric f)"
  by (rule rel_effI) (auto simp: count_metric_app logs_def Q_Nil)

lemma logs_external: "rel_eff (logs Q) (external f)"
  by (rule rel_effI) (auto simp: external_def logs_def Q_Nil split: prod.splits)

lemma logs_env: "rel_eff (logs Q) (modify (\<lambda>w. w\<lparr>env := g w\<rparr>))"
  by (rule rel_effI) (auto simp: logs_def Q_Nil)

end

sublocale log_property \<subseteq> trail: state_rel "logs Q"
  by unfold_locales (auto intro: logs_refl logs_trans)

context log_property
begin

lemmas logs_intros = trail.rel_intros logs_mark logs_metric logs_external logs_env

lemma logs_event: "Q [C_Event ev] \<Longrightarrow> rel_eff (logs Q) (bridge_emit_event h ev)"
  unfolding bridge_emit_event_def by (intro logs_intros)

lemma logs_edit: "Q [C_Edit e] \<Longrightarrow> rel_eff (logs Q) (bridge_apply_edit h e)"
  unfolding bridge_apply_edit_def by (intro logs_intros)

lemma logs_approval:
  "Q [C_Approval a] \<Longrightarrow> (\<And>ev. Q [C_Event ev]) \<Longrightarrow> rel_eff (logs Q) (bridge_request_approval h a)"
  unfolding bridge_request_approval_def by (intro logs_intros logs_event)

end

section \<open>Document stores\<close>

text \<open>
  What the Core relies on when it edits through a host: a successful edit replaces the first
  occurrence in the named document and touches no other; a refused one changes nothing.
\<close>

locale document_store =
  fixes edit :: "text_edit \<Rightarrow> ('w, host_error, unit) eff"
    and content :: "'w \<Rightarrow> str \<Rightarrow> str option"
  assumes edit_ok: "edit e w = (Inr u, w') \<Longrightarrow>
      \<exists>d. content w (document_uri e) = Some d \<and> contains_str d (old_text e) \<and>
          content w' = (content w)(document_uri e \<mapsto> replace_first (old_text e) (new_text e) d)"
    and edit_err: "edit e w = (Inl err, w') \<Longrightarrow> content w' = content w"
begin

lemma edit_frame: "edit e w = (r, w') \<Longrightarrow> uri \<noteq> document_uri e \<Longrightarrow> content w' uri = content w uri"
  using edit_ok edit_err by (cases r) fastforce+

lemma edit_shows_new_text:
  assumes "edit e w = (Inr u, w')"
  shows "\<exists>d. content w' (document_uri e) = Some d \<and> contains_str d (new_text e)"
proof -
  from edit_ok [OF assms] obtain d where "contains_str d (old_text e)"
    "content w' (document_uri e) = Some (replace_first (old_text e) (new_text e) d)" by auto
  then show ?thesis by (auto intro: replace_first_contains)
qed

lemma edit_whole_document:
  assumes "edit e w = (Inr u, w')" "content w (document_uri e) = Some (old_text e)"
  shows "content w' (document_uri e) = Some (new_text e)"
  using edit_ok [OF assms(1)] assms(2) by auto

end

interpretation cli: document_store cli_apply_edit "\<lambda>docs. docs"
  by unfold_locales (auto simp: cli_apply_edit_def split: option.splits if_splits)

text \<open>
  Edits on the CLI host: a successful edit replaced the first occurrence of the old text, and
  the document reads back so; an edit fails exactly when the document is missing or does not
  contain the old text, and then changes nothing; other documents are never touched.
\<close>

theorem cli_edit_read_back:
  "case cli_apply_edit e docs of
     (Inr _, docs') \<Rightarrow>
       (\<exists>d. docs (document_uri e) = Some d \<and> contains_str d (old_text e) \<and>
          cli_read_document (document_uri e) docs' =
            (Inr (replace_first (old_text e) (new_text e) d), docs')) \<and>
       docs' |` (- {document_uri e}) = docs |` (- {document_uri e})
   | (Inl err, docs') \<Rightarrow> docs' = docs \<and>
       (if docs (document_uri e) = None then err = DocumentNotFound (document_uri e)
        else err = EditRejected ''old_text not found in document'' \<and>
             \<not> contains_str (the (docs (document_uri e))) (old_text e))"
proof (cases "cli_apply_edit e docs")
  case (Pair r docs')
  show ?thesis
  proof (cases r)
    case (Inl err)
    with Pair show ?thesis by (auto simp: cli_apply_edit_def split: option.splits if_splits)
  next
    case (Inr u)
    with Pair cli.edit_ok [of e docs u docs'] show ?thesis
      by (auto simp: cli_read_document_def)
  qed
qed

text \<open>
  The approval rail never fails: asking through the bridge always returns a decision, which is
  yes only if the host itself answered yes; a host error counts as a refusal and is reported as
  one log event, after the request.
\<close>

theorem bridge_approval_total:
  "case hp_request_approval h a (env w) of (r, e') \<Rightarrow>
     (case (bridge_request_approval h a :: ('w, 'e, bool) run) w of (res, w') \<Rightarrow>
        res = Inr (r = Inr True) \<and> w_metrics w' = w_metrics w \<and>
        trail w' = trail w @ C_Approval a #
          (case r of Inl err \<Rightarrow> [C_Event (Log (''approval error: '' @ display_host_error err))]
           | Inr _ \<Rightarrow> []))"
  by (auto simp: bridge_request_approval_def bridge_emit_event_def external_def eff_simps
      split: prod.splits sum.splits)

end
