(* ===== verification/Tools.thy ===== *)
theory Tools
  imports Host
begin

text \<open>
  The model and the tools the loop is driven by: llm.rs (the \<open>Llm\<close> contract, the deterministic
  model, the two HTTP backends and the action directive they share), tool_executor.rs,
  validator.rs and engineering.rs (shell, git and cargo).  HTTP replies and spawned processes are
  parameters; a process answers with its exit flag and its decoded output, or fails to start.
\<close>

section \<open>The model (llm.rs)\<close>

record action_plan =
  plan_tool :: str
  plan_argument :: str

record 'w llm =
  llm_think :: "str \<Rightarrow> ('w, str, str) eff"
  llm_plan_action :: "str \<Rightarrow> ('w, str, action_plan) eff"

definition mock_think :: "str \<Rightarrow> str" where
  "mock_think context = (if contains_str context ''DONE'' then ''Goal satisfied; finalizing.''
     else ''Inspecting context to progress toward goal. (ctx len='' @ show_nat (length context) @ '')'')"

definition mock_plan_action :: "str \<Rightarrow> action_plan" where
  "mock_plan_action thought =
     (if contains_str thought ''finalizing'' then \<lparr>plan_tool = ''finish'', plan_argument = []\<rparr>
      else \<lparr>plan_tool = ''inspect'', plan_argument = ''current_state''\<rparr>)"

definition mock_llm :: "'w llm" where
  "mock_llm = \<lparr>llm_think = (\<lambda>c. ret (mock_think c)), llm_plan_action = (\<lambda>t. ret (mock_plan_action t))\<rparr>"

fun directive_in :: "str list \<Rightarrow> action_plan option" where
  "directive_in [] = None"
| "directive_in (l # ls) =
     (case strip_prefix ''ACTION:'' (trim l) of
        None \<Rightarrow> directive_in ls
      | Some rest0 \<Rightarrow>
          let rest = trim rest0 in
          (case split_once_ws rest of
             Some (tool, arg) \<Rightarrow> Some \<lparr>plan_tool = trim tool, plan_argument = trim arg\<rparr>
           | None \<Rightarrow> if rest \<noteq> [] then Some \<lparr>plan_tool = rest, plan_argument = []\<rparr>
                     else directive_in ls))"

definition parse_action_directive :: "str \<Rightarrow> action_plan option" where
  "parse_action_directive text = directive_in (str_lines text)"

definition plan_of_directive :: "str \<Rightarrow> action_plan" where
  "plan_of_directive thought =
     (case parse_action_directive thought of
        Some p \<Rightarrow> p | None \<Rightarrow> \<lparr>plan_tool = [], plan_argument = []\<rparr>)"

subsection \<open>The HTTP backends\<close>

datatype http_error = Send_Failed str | Http_Status str | Bad_Body str

record chat_request =
  rq_url :: str
  rq_model :: str
  rq_messages :: "(str \<times> str) list"
  rq_bearer :: "str option"

definition ollama_chat_url :: "str \<Rightarrow> str" where
  "ollama_chat_url endpoint = trim_end_matches (CHR ''/'') endpoint @ ''/api/chat''"

definition completions_url :: "str \<Rightarrow> str" where
  "completions_url base = trim_end_matches (CHR ''/'') base @ ''/chat/completions''"

definition ollama_error :: "http_error \<Rightarrow> str" where
  "ollama_error e = (case e of
       Send_Failed x \<Rightarrow> ''ollama chat request failed: '' @ x
     | Http_Status x \<Rightarrow> ''ollama http error: '' @ x
     | Bad_Body x \<Rightarrow> ''invalid ollama chat response: '' @ x)"

text \<open>The reply of \<open>post\<close> is the content of the message.\<close>

definition ollama_think ::
  "(chat_request \<Rightarrow> ('w, http_error, str) eff) \<Rightarrow> str \<Rightarrow> str \<Rightarrow> str \<Rightarrow> str \<Rightarrow> ('w, str, str) eff" where
  "ollama_think post endpoint model system_prompt context =
     handle (post \<lparr>rq_url = ollama_chat_url endpoint, rq_model = model,
               rq_messages = [(''system'', system_prompt), (''user'', context)], rq_bearer = None\<rparr>)
       (\<lambda>e. throw (ollama_error e)) (\<lambda>content. ret (trim content))"

definition openai_error :: "http_error \<Rightarrow> str" where
  "openai_error e = (case e of
       Send_Failed x \<Rightarrow> ''openai chat request failed: '' @ x
     | Http_Status x \<Rightarrow> ''openai http error: '' @ x
     | Bad_Body x \<Rightarrow> ''invalid openai chat response: '' @ x)"

definition first_choice :: "str list \<Rightarrow> str option" where
  "first_choice choices = (case choices of [] \<Rightarrow> None
     | c # _ \<Rightarrow> if trim c = [] then None else Some (trim c))"

text \<open>The reply of \<open>post\<close> is the list of the choices' contents.\<close>

definition openai_think ::
  "(chat_request \<Rightarrow> ('w, http_error, str list) eff) \<Rightarrow> str \<Rightarrow> str \<Rightarrow> str \<Rightarrow> str \<Rightarrow> str \<Rightarrow>
   ('w, str, str) eff" where
  "openai_think post base_url api_key model system_prompt context =
     handle (post \<lparr>rq_url = completions_url base_url, rq_model = model,
               rq_messages = [(''system'', system_prompt), (''user'', context)],
               rq_bearer = (if trim api_key = [] then None else Some (trim api_key))\<rparr>)
       (\<lambda>e. throw (openai_error e))
       (\<lambda>choices. case first_choice choices of
            Some t \<Rightarrow> ret t | None \<Rightarrow> throw ''openai returned no chat choice'')"

text \<open>The two system prompts; the first is Chinese text, given by its UTF-8 bytes.\<close>

definition ollama_system_prompt :: str where
  "ollama_system_prompt =
     [CHR 0xE4, CHR 0xBD, CHR 0xA0, CHR 0xE6, CHR 0x98, CHR 0xAF, CHR 0xE7, CHR 0x94, CHR 0xB1] @
     '' aidea '' @ [CHR 0xE9, CHR 0x9B, CHR 0x86, CHR 0xE6, CHR 0x88, CHR 0x90, CHR 0xE7, CHR
     0x9A, CHR 0x84, CHR 0xE7, CHR 0xBC, CHR 0x96, CHR 0xE7, CHR 0xA8, CHR 0x8B, CHR 0xE5, CHR
     0x8A, CHR 0xA9, CHR 0xE6, CHR 0x89, CHR 0x8B, CHR 0xEF, CHR 0xBC, CHR 0x8C, CHR 0xE5, CHR
     0x86, CHR 0x85, CHR 0xE5, CHR 0xB5, CHR 0x8C, CHR 0xE4, CHR 0xBA, CHR 0x8E] @ '' IDE '' @
     [CHR 0xE4, CHR 0xB8, CHR 0xAD, CHR 0xE3, CHR 0x80, CHR 0x82, CHR 0xE8, CHR 0xAF, CHR 0xB7,
     CHR 0xE6, CHR 0xB8, CHR 0x85, CHR 0xE6, CHR 0x99, CHR 0xB0, CHR 0xE3, CHR 0x80, CHR 0x81,
     CHR 0xE7, CHR 0xAE, CHR 0x80, CHR 0xE6, CHR 0xB4, CHR 0x81, CHR 0xE5, CHR 0x9C, CHR 0xB0,
     CHR 0xE5, CHR 0x9B, CHR 0x9E, CHR 0xE7, CHR 0xAD, CHR 0x94, CHR 0xE7, CHR 0x94, CHR 0xA8,
     CHR 0xE6, CHR 0x88, CHR 0xB7, CHR 0xE7, CHR 0x9A, CHR 0x84, CHR 0xE9, CHR 0x97, CHR 0xAE,
     CHR 0xE9, CHR 0xA2, CHR 0x98, CHR 0xEF, CHR 0xBC, CHR 0x8C, CHR 0xE5, CHR 0x9C, CHR 0xA8,
     CHR 0xE5, CHR 0x90, CHR 0x88, CHR 0xE9, CHR 0x80, CHR 0x82, CHR 0xE5, CHR 0xA4, CHR 0x84,
     CHR 0xE4, CHR 0xBD, CHR 0xBF, CHR 0xE7, CHR 0x94, CHR 0xA8] @ '' Markdown'' @ [CHR 0xE3, CHR
     0x80, CHR 0x82, CHR 0xE8, CHR 0x8B, CHR 0xA5, CHR 0xE7, CHR 0x94, CHR 0xA8, CHR 0xE6, CHR
     0x88, CHR 0xB7, CHR 0xE7, CHR 0x94, CHR 0xA8, CHR 0xE4, CHR 0xB8, CHR 0xAD, CHR 0xE6, CHR
     0x96, CHR 0x87, CHR 0xE6, CHR 0x8F, CHR 0x90, CHR 0xE9, CHR 0x97, CHR 0xAE, CHR 0xEF, CHR
     0xBC, CHR 0x8C, CHR 0xE7, CHR 0x94, CHR 0xA8, CHR 0xE4, CHR 0xB8, CHR 0xAD, CHR 0xE6, CHR
     0x96, CHR 0x87, CHR 0xE5, CHR 0x9B, CHR 0x9E, CHR 0xE7, CHR 0xAD, CHR 0x94, CHR 0xE3, CHR
     0x80, CHR 0x82]"

definition openai_system_prompt :: str where
  "openai_system_prompt =
     ''You are aidea, a coding assistant embedded in an IDE. Answer the '' @
     ''user'' @ [CHR 0x27] @ ''s question clearly and concisely, using Markdown when helpful. Reply in the '' @
     ''same language the user writes in.''"

definition ollama_llm ::
  "(chat_request \<Rightarrow> ('w, http_error, str) eff) \<Rightarrow> str \<Rightarrow> str \<Rightarrow> 'w llm" where
  "ollama_llm post endpoint model =
     \<lparr>llm_think = ollama_think post endpoint model ollama_system_prompt,
      llm_plan_action = (\<lambda>thought. ret (plan_of_directive thought))\<rparr>"

definition openai_llm ::
  "(chat_request \<Rightarrow> ('w, http_error, str list) eff) \<Rightarrow> str \<Rightarrow> str \<Rightarrow> str \<Rightarrow> 'w llm" where
  "openai_llm post base_url api_key model =
     \<lparr>llm_think = openai_think post base_url api_key model openai_system_prompt,
      llm_plan_action = (\<lambda>thought. ret (plan_of_directive thought))\<rparr>"

section \<open>Tool executors (tool_executor.rs)\<close>

record observation =
  obs_tool :: str
  obs_output :: str
  obs_terminal :: bool

type_synonym 'w executor = "str \<Rightarrow> str \<Rightarrow> ('w, str, observation) run"

definition basic_observation :: "str \<Rightarrow> str \<Rightarrow> observation" where
  "basic_observation tool argument =
     (if tool = ''inspect''
      then \<lparr>obs_tool = tool, obs_output = ''inspected '' @ argument, obs_terminal = False\<rparr>
      else if tool = ''finish''
      then \<lparr>obs_tool = tool, obs_output = ''task finished'', obs_terminal = True\<rparr>
      else \<lparr>obs_tool = tool, obs_output = ''no-op tool: '' @ tool, obs_terminal = False\<rparr>)"

definition basic_run :: "'w executor" where
  "basic_run tool argument = ret (basic_observation tool argument)"

section \<open>The validator (validator.rs)\<close>

datatype verdict = V_Continue | V_Done | V_BudgetExhausted

type_synonym validator = "observation \<Rightarrow> nat \<Rightarrow> verdict"

definition basic_validate :: "nat \<Rightarrow> validator" where
  "basic_validate max_steps obs step =
     (if obs_terminal obs then V_Done
      else if max_steps \<le> step then V_BudgetExhausted
      else V_Continue)"

section \<open>Build, test and git automation (engineering.rs)\<close>

record run_output =
  ro_ok :: bool
  ro_stdout :: str
  ro_stderr :: str

type_synonym 'w spawner = "str \<Rightarrow> str list \<Rightarrow> str \<Rightarrow> ('w, str, run_output) eff"

definition spawn :: "'w spawner \<Rightarrow> str \<Rightarrow> str list \<Rightarrow> str \<Rightarrow> ('w, str, run_output) run" where
  "spawn sp prog args dir = bnd (mark (C_Process prog args dir)) (\<lambda>_. external (sp prog args dir))"

record git_client =
  git_workdir :: str
  allow_commit :: bool

definition git_new :: "str \<Rightarrow> git_client" where
  "git_new dir = \<lparr>git_workdir = dir, allow_commit = False\<rparr>"

definition with_auto_commit :: "bool \<Rightarrow> git_client \<Rightarrow> git_client" where
  "with_auto_commit b g = g\<lparr>allow_commit := b\<rparr>"

definition git_args_for :: "str \<Rightarrow> str list \<Rightarrow> str list" where
  "git_args_for subcommand args = subcommand # args"

definition git_run_cmd :: "'w spawner \<Rightarrow> git_client \<Rightarrow> str \<Rightarrow> str list \<Rightarrow> ('w, str, run_output) run" where
  "git_run_cmd sp g subcommand args = spawn sp ''git'' (git_args_for subcommand args) (git_workdir g)"

definition git_status :: "'w spawner \<Rightarrow> git_client \<Rightarrow> ('w, str, run_output) run" where
  "git_status sp g = git_run_cmd sp g ''status'' []"

definition git_diff :: "'w spawner \<Rightarrow> git_client \<Rightarrow> bool \<Rightarrow> ('w, str, run_output) run" where
  "git_diff sp g cached = git_run_cmd sp g ''diff'' (if cached then [''--cached''] else [])"

definition git_branch :: "'w spawner \<Rightarrow> git_client \<Rightarrow> ('w, str, run_output) run" where
  "git_branch sp g = git_run_cmd sp g ''branch'' []"

definition git_add :: "'w spawner \<Rightarrow> git_client \<Rightarrow> str \<Rightarrow> ('w, str, run_output) run" where
  "git_add sp g pathspec = git_run_cmd sp g ''add'' [pathspec]"

definition git_commit :: "'w spawner \<Rightarrow> git_client \<Rightarrow> str \<Rightarrow> ('w, str, run_output) run" where
  "git_commit sp g message =
     (if \<not> allow_commit g
      then ret \<lparr>ro_ok = False, ro_stdout = [],
                ro_stderr = ''commit blocked: auto_commit=false (requires approval)''\<rparr>
      else git_run_cmd sp g ''commit'' [''-m'', message])"

definition cargo_args :: "str \<Rightarrow> str list" where
  "cargo_args cmd = [cmd]"

definition cargo_run_cmd :: "'w spawner \<Rightarrow> str \<Rightarrow> str \<Rightarrow> ('w, str, run_output) run" where
  "cargo_run_cmd sp dir cmd = spawn sp ''cargo'' (cargo_args cmd) dir"

definition extract_error_lines :: "str \<Rightarrow> str list" where
  "extract_error_lines stderr =
     map trim (filter (\<lambda>l. starts_with (trim_start l) ''error'' \<or> contains_str (trim_start l) ''error['')
       (str_lines stderr))"

definition run_shell :: "'w spawner \<Rightarrow> str \<Rightarrow> str \<Rightarrow> ('w, str, run_output) run" where
  "run_shell sp command dir = spawn sp ''sh'' [''-c'', command] dir"

definition command_for :: "str \<Rightarrow> str \<Rightarrow> str option" where
  "command_for tool argument =
     (if tool = ''sh'' \<or> tool = ''shell'' then Some argument
      else if tool = ''git'' then Some (''git '' @ argument)
      else if tool = ''cargo'' then Some (''cargo '' @ argument)
      else if tool = ''cargo_build'' \<or> tool = ''build'' then Some ''cargo build''
      else if tool = ''cargo_check'' \<or> tool = ''check'' then Some ''cargo check''
      else if tool = ''cargo_test'' \<or> tool = ''test'' then Some ''cargo test''
      else None)"

definition shell_tool_run :: "'w spawner \<Rightarrow> str \<Rightarrow> 'w executor" where
  "shell_tool_run sp dir tool argument =
     (case command_for tool argument of
        Some cmd \<Rightarrow>
          bnd (run_shell sp cmd dir) (\<lambda>out.
            if \<not> ro_ok out
            then throw (''command `'' @ cmd @ ''` failed: '' @ trim (ro_stderr out))
            else ret \<lparr>obs_tool = tool, obs_output = ro_stdout out, obs_terminal = True\<rparr>)
      | None \<Rightarrow> basic_run tool argument)"

section \<open>The contract of an executor\<close>

text \<open>
  What the loop relies on: running a tool adds only calls of the executor's own level to the
  trail (attempts, repair questions, processes), so an executor neither writes audit records nor
  edits documents, and it leaves the metrics alone.
\<close>

definition executor_call :: "call \<Rightarrow> bool" where
  "executor_call c = (case c of C_Attempt _ _ \<Rightarrow> True | C_Repair _ \<Rightarrow> True | C_Process _ _ _ \<Rightarrow> True
     | _ \<Rightarrow> False)"

definition quiet :: "'w world \<Rightarrow> 'w world \<Rightarrow> bool" where
  "quiet s t \<longleftrightarrow> w_metrics t = w_metrics s \<and> logs (list_all executor_call) s t"

interpretation exec_log: log_property "list_all executor_call"
  by unfold_locales auto

interpretation quiet: state_rel quiet
  by unfold_locales (auto simp: quiet_def intro: exec_log.logs_refl exec_log.logs_trans)

lemma quiet_mark: "executor_call c \<Longrightarrow> rel_eff quiet (mark c)"
  by (rule rel_effI) (auto simp: quiet_def mark_app logs_def)

lemma quiet_external: "rel_eff quiet (external f)"
  by (rule rel_effI) (auto simp: quiet_def external_def logs_def split: prod.splits)

locale tool_executor =
  fixes run_tool :: "'w executor"
  assumes run_quiet: "rel_eff quiet (run_tool tool arg)"
begin

lemma run_metrics: "run_tool tool arg s = (r, t) \<Longrightarrow> w_metrics t = w_metrics s"
  using rel_effD [OF run_quiet] by (simp add: quiet_def)

lemma run_trail:
  assumes "run_tool tool arg s = (r, t)"
  obtains L where "trail t = trail s @ L" "list_all executor_call L"
  using rel_effD [OF run_quiet assms] by (auto simp: quiet_def logs_def)

end

text \<open>A base executor, the kind the self-healer wraps, spawns processes and nothing else.\<close>

definition process_call :: "call \<Rightarrow> bool" where
  "process_call c = (case c of C_Process _ _ _ \<Rightarrow> True | _ \<Rightarrow> False)"

interpretation process_log: log_property "list_all process_call"
  by unfold_locales auto

locale base_executor = tool_executor +
  assumes run_processes: "rel_eff (logs (list_all process_call)) (run_tool tool arg)"
begin

lemma run_only_processes:
  assumes "run_tool tool arg s = (r, t)"
  obtains L where "trail t = trail s @ L" "list_all process_call L"
  using rel_effD [OF run_processes assms] by (auto simp: logs_def)

end

lemma quiet_spawn: "rel_eff quiet (spawn sp prog args dir)"
  unfolding spawn_def by (intro quiet.rel_bnd quiet_mark quiet_external) (simp add: executor_call_def)

lemma process_spawn: "rel_eff (logs (list_all process_call)) (spawn sp prog args dir)"
  unfolding spawn_def by (intro process_log.logs_intros) (simp add: process_call_def)

interpretation basic: base_executor basic_run
  by unfold_locales
    (auto simp: basic_run_def intro: quiet.rel_ret process_log.trail.rel_ret)

interpretation shell: base_executor "shell_tool_run sp dir" for sp dir
  by unfold_locales
    (auto simp: shell_tool_run_def run_shell_def split: option.splits
      intro!: quiet.rel_intros process_log.trail.rel_intros quiet_spawn process_spawn
        basic.run_quiet basic.run_processes)

section \<open>The action directive\<close>

definition word_only :: "str \<Rightarrow> bool" where
  "word_only s \<longleftrightarrow> s \<noteq> [] \<and> list_all (\<lambda>c. \<not> is_whitespace c) (chars s)"

lemma hd_chars_trim: "trim s \<noteq> [] \<Longrightarrow> \<not> is_whitespace (hd (chars (trim s)))"
proof -
  assume ne: "trim s \<noteq> []"
  have "dropWhile is_whitespace (chars (trim s)) = chars (trim s)"
    using chars_trim_start [of "trim s"]
    by (metis chars_trim dropWhile_idem dropWhile_rdropWhile_idem)
  then show ?thesis using ne by (metis chars_eq_Nil hd_dropWhile)
qed

lemma dropWhile_none: "list_all (\<lambda>c. \<not> P c) xs \<Longrightarrow> dropWhile P xs = xs"
  by (cases xs) auto

lemma no_ws_trim: "list_all (\<lambda>c. \<not> is_whitespace c) (chars s) \<Longrightarrow> trim s = s"
  by (simp add: trim_def trim_start_def trim_end_def dropWhile_none)

lemma split_once_ws_word:
  assumes "split_once_ws s = Some (u, v)" "s \<noteq> []" "\<not> is_whitespace (hd (chars s))"
  shows "word_only u"
proof -
  let ?P = "\<lambda>c. \<not> is_whitespace c"
  have u: "u = concat (takeWhile ?P (chars s))"
    using assms(1) by (auto simp: split_once_ws_def split: list.splits)
  have "wf_chars (takeWhile ?P (chars s))"
    by (metis takeWhile_dropWhile_id wf_chars_appendD1 wf_chars_chars)
  then have "chars u = takeWhile ?P (chars s)" by (simp add: u chars_concat)
  moreover obtain c cs where "chars s = c # cs" using assms(2) by (cases "chars s") auto
  ultimately show ?thesis using assms(3) by (auto simp: word_only_def)
qed

lemma split_once_ws_None:
  "split_once_ws s = None \<Longrightarrow> list_all (\<lambda>c. \<not> is_whitespace c) (chars s)"
  by (auto simp: split_once_ws_def list_all_iff dropWhile_eq_Nil_conv split: list.splits)

lemma directive_in_Some:
  "directive_in ls = Some p \<Longrightarrow>
   word_only (plan_tool p) \<and> trim (plan_argument p) = plan_argument p \<and>
   (\<exists>l\<in>set ls. \<exists>r. strip_prefix ''ACTION:'' (trim l) = Some r \<and> trim r \<noteq> [])"
proof (induction ls)
  case (Cons l ls)
  show ?case
  proof (cases "\<exists>r. strip_prefix ''ACTION:'' (trim l) = Some r \<and> trim r \<noteq> []")
    case False
    then have "directive_in (l # ls) = directive_in ls"
      by (auto simp: split_once_ws_def split: option.splits)
    with Cons show ?thesis by auto
  next
    case True
    then obtain r where r: "strip_prefix ''ACTION:'' (trim l) = Some r" "trim r \<noteq> []" by blast
    show ?thesis
    proof (cases "split_once_ws (trim r)")
      case None
      then have "word_only (trim r)" using r(2) by (simp add: split_once_ws_None word_only_def)
      with Cons.prems None r show ?thesis by auto
    next
      case (Some uv)
      obtain u v where uv: "uv = (u, v)" by (cases uv)
      have "word_only u"
        using Some r(2) hd_chars_trim [OF r(2)] by (intro split_once_ws_word) (auto simp: uv)
      moreover from this have "trim u = u" by (simp add: no_ws_trim word_only_def)
      ultimately show ?thesis using Cons.prems Some r by (auto simp: uv)
    qed
  qed
qed simp

lemma directive_in_None:
  "directive_in ls = None \<longleftrightarrow>
     (\<forall>l\<in>set ls. \<forall>r. strip_prefix ''ACTION:'' (trim l) = Some r \<longrightarrow> trim r = [])"
  by (induction ls) (auto simp: split_once_ws_def Let_def split: option.splits list.splits)

text \<open>
  The action directive: a parsed action always names a non-empty tool without whitespace and
  a trimmed argument, taken from a line that starts with \<open>ACTION:\<close>; and no action is parsed
  exactly when every such line is blank after the marker.  With the HTTP backends, a reply
  without a directive becomes the empty action.
\<close>

theorem parse_action_directive_spec:
  "case parse_action_directive text of
     Some p \<Rightarrow> plan_tool p \<noteq> [] \<and> list_all (\<lambda>c. \<not> is_whitespace c) (chars (plan_tool p)) \<and>
       trim (plan_argument p) = plan_argument p \<and>
       (\<exists>l\<in>set (str_lines text). starts_with (trim l) ''ACTION:'')
   | None \<Rightarrow> plan_of_directive text = \<lparr>plan_tool = [], plan_argument = []\<rparr> \<and>
       filter (\<lambda>l. case strip_prefix ''ACTION:'' (trim l) of Some r \<Rightarrow> trim r \<noteq> [] | None \<Rightarrow> False)
         (str_lines text) = []"
proof (cases "parse_action_directive text")
  case None
  then have "directive_in (str_lines text) = None" by (simp add: parse_action_directive_def)
  with None show ?thesis
    by (auto simp: plan_of_directive_def directive_in_None filter_empty_conv split: option.splits)
next
  case (Some p)
  then show ?thesis
    using directive_in_Some [of "str_lines text" p]
    by (auto simp: parse_action_directive_def word_only_def strip_prefix_def starts_with_def
        split: if_splits)
qed

section \<open>The commit gate of the git client\<close>

text \<open>
  The approval gate of \<open>GitClient\<close>: a client that was not switched to auto-commit never
  spawns a process for a commit, it returns a failed result without an error; the switch is the
  only thing that opens it, and then exactly \<open>git commit -m <message>\<close> runs in the work directory.
\<close>

theorem git_commit_gated:
  "git_commit sp (git_new dir) msg w =
     (Inr \<lparr>ro_ok = False, ro_stdout = [],
           ro_stderr = ''commit blocked: auto_commit=false (requires approval)''\<rparr>, w) \<and>
   trail (snd (git_commit sp (with_auto_commit b (git_new dir)) msg w)) =
     trail w @ (if b then [C_Process ''git'' [''commit'', ''-m'', msg] dir] else []) \<and>
   fst (git_commit sp (with_auto_commit True (git_new dir)) msg w) =
     fst (sp ''git'' [''commit'', ''-m'', msg] dir (env w))"
  by (simp add: git_commit_def git_new_def with_auto_commit_def git_run_cmd_def git_args_for_def
      spawn_def external_def eff_simps split: prod.splits)

end
