(* ===== verification/Self_Heal.thy ===== *)
theory Self_Heal
  imports Tools
begin

text \<open>
  The self-healing executor (crates/core/src/self_heal.rs): run a tool, on failure ask the model
  for a corrected input and run again, at most \<open>max_repair_attempts\<close> times.
\<close>

section \<open>The executor\<close>

record repair_outcome =
  ro_observation :: observation
  repair_attempts :: nat
  healed :: bool

definition parse_patch :: "str \<Rightarrow> str" where
  "parse_patch text =
     (let trimmed = trim text in
      case strip_prefix ''PATCH:'' trimmed of
        Some rest \<Rightarrow> trim rest
      | None \<Rightarrow>
          (case strip_prefix ''PATCH '' trimmed of Some rest \<Rightarrow> trim rest | None \<Rightarrow> trimmed))"

definition repair_prompt :: "str \<Rightarrow> str \<Rightarrow> str \<Rightarrow> str" where
  "repair_prompt tool input err =
     ''The tool `'' @ tool @ ''` failed when run with input `'' @ input @ ''`.'' @ [CHR 0x0A] @
     ''Error: '' @ err @ [CHR 0x0A] @
     ''Propose a corrected input that would make the tool succeed. '' @
     ''Reply with a single line beginning with PATCH: followed by the corrected input.''"

definition suggest_patch :: "'w llm \<Rightarrow> str \<Rightarrow> str \<Rightarrow> str \<Rightarrow> ('w, str, str) run" where
  "suggest_patch llm tool input err =
     bnd (mark (C_Repair (repair_prompt tool input err))) (\<lambda>_.
     bnd (external (llm_think llm (repair_prompt tool input err))) (\<lambda>thought.
     ret (parse_patch thought)))"

definition attempt :: "'w executor \<Rightarrow> 'w executor" where
  "attempt run_tool tool input = bnd (mark (C_Attempt tool input)) (\<lambda>_. run_tool tool input)"

definition exhausted :: "nat \<Rightarrow> str \<Rightarrow> str \<Rightarrow> str" where
  "exhausted attempts tool last_err =
     ''self-heal exhausted after '' @ show_nat attempts @ '' repair attempts for tool `'' @ tool @
     ''`: '' @ last_err"

text \<open>The repair loop; the first argument is \<open>max_repair_attempts - attempts\<close>.\<close>

fun heal_loop ::
  "nat \<Rightarrow> 'w executor \<Rightarrow> 'w llm \<Rightarrow> str \<Rightarrow> nat \<Rightarrow> str \<Rightarrow> str \<Rightarrow> ('w, str, repair_outcome) run" where
  "heal_loop 0 run_tool llm tool attempts current last_err = throw (exhausted attempts tool last_err)"
| "heal_loop (Suc n) run_tool llm tool attempts current last_err =
     bnd (suggest_patch llm tool current last_err) (\<lambda>patch.
       handle (attempt run_tool tool patch)
         (\<lambda>e. heal_loop n run_tool llm tool (attempts + 1) patch e)
         (\<lambda>obs. ret \<lparr>ro_observation = obs, repair_attempts = attempts + 1, healed = True\<rparr>))"

definition self_heal_run ::
  "'w executor \<Rightarrow> nat \<Rightarrow> 'w llm \<Rightarrow> str \<Rightarrow> str \<Rightarrow> ('w, str, repair_outcome) run" where
  "self_heal_run run_tool max_attempts llm tool input =
     handle (attempt run_tool tool input)
       (\<lambda>first_err. heal_loop max_attempts run_tool llm tool 0 input first_err)
       (\<lambda>obs. ret \<lparr>ro_observation = obs, repair_attempts = 0, healed = False\<rparr>)"

definition healing_run :: "'w executor \<Rightarrow> nat \<Rightarrow> 'w llm \<Rightarrow> 'w executor" where
  "healing_run run_tool max_attempts llm tool argument =
     bnd (self_heal_run run_tool max_attempts llm tool argument) (\<lambda>out. ret (ro_observation out))"

section \<open>It is an executor\<close>

lemma quiet_attempt: "rel_eff quiet (run_tool tool arg) \<Longrightarrow> rel_eff quiet (attempt run_tool tool arg)"
  unfolding attempt_def by (intro quiet.rel_bnd quiet_mark) (simp_all add: executor_call_def)

lemma quiet_suggest: "rel_eff quiet (suggest_patch llm tool input err)"
  unfolding suggest_patch_def
  by (intro quiet.rel_bnd quiet_mark quiet_external quiet.rel_ret) (simp add: executor_call_def)

lemma quiet_heal_loop:
  assumes "\<And>arg. rel_eff quiet (run_tool tool arg)"
  shows "rel_eff quiet (heal_loop n run_tool llm tool k current err)"
  by (induction n arbitrary: k current err)
    (auto intro!: quiet.rel_intros quiet_suggest quiet_attempt assms)

lemma tool_executor_healing:
  assumes "tool_executor run_tool"
  shows "tool_executor (healing_run run_tool m llm)"
proof
  fix tool arg
  from assms have "\<And>a. rel_eff quiet (run_tool tool a)" by (rule tool_executor.run_quiet)
  then show "rel_eff quiet (healing_run run_tool m llm tool arg)"
    unfolding healing_run_def self_heal_run_def
    by (intro quiet.rel_bnd quiet.rel_handle quiet_attempt quiet_heal_loop quiet.rel_ret)
qed

interpretation healing_shell: tool_executor "healing_run (shell_tool_run sp dir) m llm" for sp dir m llm
  by (rule tool_executor_healing) (rule shell.tool_executor_axioms)

section \<open>The attempts it makes\<close>

definition heal_call :: "call \<Rightarrow> bool" where
  "heal_call c = (case c of C_Attempt _ _ \<Rightarrow> True | C_Repair _ \<Rightarrow> True | _ \<Rightarrow> False)"

definition heal_calls :: "'w world \<Rightarrow> call list" where
  "heal_calls w = filter heal_call (trail w)"

text \<open>A repair is a question to the model followed by an attempt with the patched input.\<close>

definition repair_calls :: "str \<Rightarrow> (str \<times> str) list \<Rightarrow> call list" where
  "repair_calls tool rs = concat (map (\<lambda>(q, p). [C_Repair q, C_Attempt tool p]) rs)"

lemma repair_calls_Cons [simp]:
  "repair_calls tool ((q, p) # rs) = C_Repair q # C_Attempt tool p # repair_calls tool rs"
  by (simp add: repair_calls_def)

lemma repair_calls_Nil [simp]: "repair_calls tool [] = []"
  by (simp add: repair_calls_def)

context base_executor
begin

lemma attempt_calls:
  assumes "attempt run_tool tool input s = (r, t)"
  shows "heal_calls t = heal_calls s @ [C_Attempt tool input] \<and>
    run_tool tool input (s\<lparr>trail := trail s @ [C_Attempt tool input]\<rparr>) = (r, t)"
proof -
  let ?s = "s\<lparr>trail := trail s @ [C_Attempt tool input]\<rparr>"
  from assms have run: "run_tool tool input ?s = (r, t)" by (simp add: attempt_def eff_simps)
  from run_only_processes [OF run] obtain L where
    "trail t = trail ?s @ L" "list_all process_call L" .
  moreover from this have "filter heal_call L = []"
    by (auto simp: filter_empty_conv list_all_iff process_call_def heal_call_def split: call.splits)
  ultimately show ?thesis using run by (simp add: heal_calls_def heal_call_def)
qed

end

lemma suggest_calls:
  assumes "suggest_patch llm tool input err s = (r, t)"
  shows "heal_calls t = heal_calls s @ [C_Repair (repair_prompt tool input err)]"
  using assms
  by (auto simp: suggest_patch_def external_def eff_simps heal_calls_def heal_call_def
      split: prod.splits sum.splits)

context base_executor
begin

lemma heal_loop_calls:
  "heal_loop n run_tool llm tool k current err s = (res, t) \<Longrightarrow>
   \<exists>rs. length rs \<le> n \<and>
     (case res of
        Inr out \<Rightarrow> heal_calls t = heal_calls s @ repair_calls tool rs \<and> rs \<noteq> [] \<and> healed out \<and>
          repair_attempts out = k + length rs \<and>
          (\<exists>u. run_tool tool (snd (last rs)) u = (Inr (ro_observation out), t))
      | Inl e \<Rightarrow>
          (heal_calls t = heal_calls s @ repair_calls tool rs \<and> length rs = n \<and>
             (\<exists>x. e = exhausted (k + n) tool x)) \<or>
          (\<exists>q. heal_calls t = heal_calls s @ repair_calls tool rs @ [C_Repair q] \<and> length rs < n))"
proof (induction n arbitrary: k current err s)
  case 0
  then show ?case by (intro exI [of _ "[]"]) auto
next
  case (Suc n)
  obtain p s1 where sug: "suggest_patch llm tool current err s = (p, s1)" by force
  note q = suggest_calls [OF sug]
  let ?q = "repair_prompt tool current err"
  show ?case
  proof (cases p)
    case (Inl e)
    with Suc.prems sug have "res = Inl e" "t = s1" by auto
    then show ?thesis using q by (intro exI [of _ "[]"]) simp
  next
    case (Inr patch)
    obtain r s2 where att: "attempt run_tool tool patch s1 = (r, s2)" by force
    note a = attempt_calls [OF att]
    show ?thesis
    proof (cases r)
      case (Inr obs)
      with Suc.prems sug att \<open>p = Inr patch\<close>
      have "res = Inr \<lparr>ro_observation = obs, repair_attempts = k + 1, healed = True\<rparr>" "t = s2"
        by auto
      with a q Inr show ?thesis by (intro exI [of _ "[(?q, patch)]"]) auto
    next
      case (Inl e)
      with Suc.prems sug att \<open>p = Inr patch\<close>
      have "heal_loop n run_tool llm tool (k + 1) patch e s2 = (res, t)" by simp
      from Suc.IH [OF this] obtain rs where "length rs \<le> n" and rs:
        "case res of
           Inr out \<Rightarrow> heal_calls t = heal_calls s2 @ repair_calls tool rs \<and> rs \<noteq> [] \<and> healed out \<and>
             repair_attempts out = k + 1 + length rs \<and>
             (\<exists>u. run_tool tool (snd (last rs)) u = (Inr (ro_observation out), t))
         | Inl e \<Rightarrow>
             (heal_calls t = heal_calls s2 @ repair_calls tool rs \<and> length rs = n \<and>
                (\<exists>x. e = exhausted (k + 1 + n) tool x)) \<or>
             (\<exists>q. heal_calls t = heal_calls s2 @ repair_calls tool rs @ [C_Repair q] \<and> length rs < n)"
        by blast
      then show ?thesis using a q
        by (intro exI [of _ "(?q, patch) # rs"]) (cases res; auto)
    qed
  qed
qed

end

text \<open>
  C4: a self-healing run over a base executor: the first attempt is the caller's input, every
  further attempt (of the same tool) follows one question to the model, and there are at most
  \<open>max_repair_attempts\<close> repairs.  On success the count of repairs is exact, the observation is the
  one the executor returned for the last input tried, and no attempt follows it.  A failure is
  either the exhausted breaker after exactly that many repairs, or the model failing to answer.
\<close>

theorem self_heal_attempts:
  assumes "base_executor run_tool" and "self_heal_run run_tool m llm tool input s = (res, t)"
  shows "\<exists>rs. length rs \<le> m \<and>
    (case res of
       Inr out \<Rightarrow>
         heal_calls t = heal_calls s @ C_Attempt tool input # repair_calls tool rs \<and>
         repair_attempts out = length rs \<and> healed out = (rs \<noteq> []) \<and>
         (\<exists>u. run_tool tool (if rs = [] then input else snd (last rs)) u =
                (Inr (ro_observation out), t))
     | Inl e \<Rightarrow>
         (heal_calls t = heal_calls s @ C_Attempt tool input # repair_calls tool rs \<and>
            length rs = m \<and> (\<exists>x. e = exhausted m tool x)) \<or>
         (\<exists>q. heal_calls t = heal_calls s @ C_Attempt tool input # repair_calls tool rs @ [C_Repair q] \<and>
            length rs < m))"
proof -
  obtain r s1 where att: "attempt run_tool tool input s = (r, s1)" by force
  note a = base_executor.attempt_calls [OF assms(1) att]
  show ?thesis
  proof (cases r)
    case (Inr obs)
    with att assms(2) have "res = Inr \<lparr>ro_observation = obs, repair_attempts = 0, healed = False\<rparr>" "t = s1"
      by (auto simp: self_heal_run_def)
    with a Inr show ?thesis by (intro exI [of _ "[]"]) auto
  next
    case (Inl e)
    with att assms(2) have "heal_loop m run_tool llm tool 0 input e s1 = (res, t)"
      by (simp add: self_heal_run_def)
    from base_executor.heal_loop_calls [OF assms(1) this] obtain rs where "length rs \<le> m" and
      "case res of
         Inr out \<Rightarrow> heal_calls t = heal_calls s1 @ repair_calls tool rs \<and> rs \<noteq> [] \<and> healed out \<and>
           repair_attempts out = 0 + length rs \<and>
           (\<exists>u. run_tool tool (snd (last rs)) u = (Inr (ro_observation out), t))
       | Inl e \<Rightarrow>
           (heal_calls t = heal_calls s1 @ repair_calls tool rs \<and> length rs = m \<and>
              (\<exists>x. e = exhausted (0 + m) tool x)) \<or>
           (\<exists>q. heal_calls t = heal_calls s1 @ repair_calls tool rs @ [C_Repair q] \<and> length rs < m)"
      by blast
    with a show ?thesis by (intro exI [of _ rs]) (cases res; auto)
  qed
qed

theorem self_heal_attempts_witness:
  "let run = shell_tool_run (\<lambda>_ _ _ up. if up then (Inr \<lparr>ro_ok = True, ro_stdout = ''ok'', ro_stderr = []\<rparr>, up)
         else (Inl ''no sh'', True)) ''.'';
       t = snd (self_heal_run run 1 mock_llm ''sh'' ''ls'' (world0 False))
   in \<exists>rs. length rs = 1 \<and> heal_calls t = C_Attempt ''sh'' ''ls'' # repair_calls ''sh'' rs"
proof -
  define run where "run = (shell_tool_run (\<lambda>_ _ _ up. if up
      then (Inr \<lparr>ro_ok = True, ro_stdout = ''ok'', ro_stderr = []\<rparr>, up) else (Inl ''no sh'', True)) ''.''
      :: bool executor)"
  obtain res t where go: "self_heal_run run 1 mock_llm ''sh'' ''ls'' (world0 False) = (res, t)" by force
  have heals: "\<exists>out. res = Inr out \<and> repair_attempts out = 1"
    using go by (auto simp: run_def self_heal_run_def attempt_def shell_tool_run_def command_for_def
        run_shell_def spawn_def suggest_patch_def mock_llm_def external_def eff_simps world0_def)
  have "base_executor run" unfolding run_def by (rule shell.base_executor_axioms)
  from self_heal_attempts [OF this go] heals
  have "\<exists>rs. length rs = 1 \<and> heal_calls t = C_Attempt ''sh'' ''ls'' # repair_calls ''sh'' rs"
    by (auto simp: heal_calls_def world0_def)
  with go show ?thesis by (simp add: run_def)
qed

lemma parse_patch_trimmed: "trim (parse_patch text) = parse_patch text"
  by (auto simp: parse_patch_def Let_def split: option.splits)

section \<open>Any log property\<close>

context log_property
begin

lemma healing_logs:
  assumes "base_executor run_tool"
    and attempt: "\<And>a. Q [C_Attempt tool a]" and repair: "\<And>q. Q [C_Repair q]"
    and process: "\<And>L. list_all process_call L \<Longrightarrow> Q L"
  shows "rel_eff (logs Q) (healing_run run_tool m llm tool arg)"
proof -
  have run: "rel_eff (logs Q) (run_tool tool a)" for a
    using base_executor.run_processes [OF assms(1)] process
    unfolding rel_eff_def logs_def by blast
  have att: "rel_eff (logs Q) (attempt run_tool tool a)" for a
    unfolding attempt_def by (intro logs_intros attempt run)
  have sug: "rel_eff (logs Q) (suggest_patch llm tool i e)" for i e
    unfolding suggest_patch_def by (intro logs_intros repair)
  have "rel_eff (logs Q) (heal_loop n run_tool llm tool k c e)" for n k c e
    by (induction n arbitrary: k c e) (auto intro!: logs_intros att sug)
  then show ?thesis
    unfolding healing_run_def self_heal_run_def by (intro logs_intros att)
qed

end

end
