(* ===== verification/Context_Manager.thy ===== *)
theory Context_Manager
  imports Rust_Str
begin

text \<open>
  The working memory of the loop (crates/core/src/context_manager.rs): a bounded window of raw
  observations and a store of typed chunks under a token budget.  Retrieval and
  enrichment from the code graph are in the theory Ckg; the placeholder embedding and its cosine in
  32-bit floats are in the theory Embedding.
\<close>

section \<open>Chunks\<close>

datatype context_source = OpenFile | Selection | Diagnostic | Symbol | RecentEdit

primrec source_str :: "context_source \<Rightarrow> str" where
  "source_str OpenFile = ''OpenFile''"
| "source_str Selection = ''Selection''"
| "source_str Diagnostic = ''Diagnostic''"
| "source_str Symbol = ''Symbol''"
| "source_str RecentEdit = ''RecentEdit''"

datatype priority = Low | Medium | High

primrec pri_val :: "priority \<Rightarrow> nat" where
  "pri_val Low = 0"
| "pri_val Medium = 1"
| "pri_val High = 2"

lemma pri_val_inj: "pri_val a = pri_val b \<longleftrightarrow> a = b"
  by (cases a; cases b) simp_all

text \<open>The derived \<open>Ord\<close> of the enum.\<close>

instantiation priority :: linorder
begin

definition less_eq_priority :: "priority \<Rightarrow> priority \<Rightarrow> bool" where
  "less_eq_priority a b \<longleftrightarrow> pri_val a \<le> pri_val b"

definition less_priority :: "priority \<Rightarrow> priority \<Rightarrow> bool" where
  "less_priority a b \<longleftrightarrow> pri_val a < pri_val b"

instance
  by standard (auto simp: less_eq_priority_def less_priority_def pri_val_inj)

end

lemma priority_le [simp]: "Low \<le> p" "p \<le> High"
  by (cases p; simp add: less_eq_priority_def)+

record context_chunk =
  cc_source :: context_source
  cc_uri :: str
  cc_content :: str
  cc_priority :: priority
  token_est :: nat

definition estimate_tokens :: "str \<Rightarrow> nat" where
  "estimate_tokens t = (length t + 3) div 4"

definition context_chunk_new :: "context_source \<Rightarrow> str \<Rightarrow> str \<Rightarrow> priority \<Rightarrow> context_chunk" where
  "context_chunk_new src uri content p =
     \<lparr>cc_source = src, cc_uri = uri, cc_content = content, cc_priority = p,
      token_est = estimate_tokens content\<rparr>"

section \<open>The manager\<close>

record context_manager =
  window :: "str list"
  max_items :: nat
  cm_chunks :: "context_chunk list"
  budget_tokens :: nat

definition cm_new :: "nat \<Rightarrow> context_manager" where
  "cm_new n = \<lparr>window = [], max_items = max n 1, cm_chunks = [], budget_tokens = 4096\<rparr>"

definition cm_with_budget :: "nat \<Rightarrow> nat \<Rightarrow> context_manager" where
  "cm_with_budget n b = \<lparr>window = [], max_items = max n 1, cm_chunks = [], budget_tokens = max b 1\<rparr>"

definition cm_push :: "str \<Rightarrow> context_manager \<Rightarrow> context_manager" where
  "cm_push item cm =
     (let w = (if length (window cm) = max_items cm then tl (window cm) else window cm)
      in cm\<lparr>window := w @ [item]\<rparr>)"

definition add_chunk :: "context_chunk \<Rightarrow> context_manager \<Rightarrow> context_manager" where
  "add_chunk c cm = cm\<lparr>cm_chunks := cm_chunks cm @ [c]\<rparr>"

definition total_tokens :: "context_manager \<Rightarrow> nat" where
  "total_tokens cm = sum_list (map estimate_tokens (window cm)) + sum_list (map token_est (cm_chunks cm))"

text \<open>The scan for the lowest-priority chunk: \<open>worst\<close> and \<open>worst_pri\<close> of the inner loop.\<close>

fun worst_scan :: "nat \<Rightarrow> context_chunk list \<Rightarrow> nat option \<Rightarrow> priority \<Rightarrow> nat option \<times> priority" where
  "worst_scan i [] worst worst_pri = (worst, worst_pri)"
| "worst_scan i (c # cs) worst worst_pri =
     (if worst = None \<or> cc_priority c < worst_pri
      then worst_scan (i + 1) cs (Some i) (cc_priority c)
      else worst_scan (i + 1) cs worst worst_pri)"

definition remove_at :: "nat \<Rightarrow> 'a list \<Rightarrow> 'a list" where
  "remove_at i xs = take i xs @ drop (i + 1) xs"

lemma worst_scan_bound:
  "worst_scan i cs w p = (Some j, q) \<Longrightarrow> (\<And>k. w = Some k \<Longrightarrow> k < i) \<Longrightarrow> j < i + length cs"
  by (induction cs arbitrary: i w p) (fastforce split: if_splits)+

function trim_loop :: "nat \<Rightarrow> context_manager \<Rightarrow> nat \<times> context_manager" where
  "trim_loop dropped cm =
     (if budget_tokens cm < total_tokens cm \<and> cm_chunks cm \<noteq> []
      then (case worst_scan 0 (cm_chunks cm) None High of (worst, worst_pri) \<Rightarrow>
              if worst_pri = High then (dropped, cm)
              else (case worst of
                      Some i \<Rightarrow> trim_loop (dropped + 1) (cm\<lparr>cm_chunks := remove_at i (cm_chunks cm)\<rparr>)
                    | None \<Rightarrow> (dropped, cm)))
      else (dropped, cm))"
  by pat_completeness auto
termination
  by (relation "measure (\<lambda>(_, cm). length (cm_chunks cm))")
    (auto simp: remove_at_def dest!: sym [of "(_, _)"] worst_scan_bound)

declare trim_loop.simps [simp del]

record trim_report =
  tr_dropped :: nat
  tr_kept :: nat

definition budget_trim :: "context_manager \<Rightarrow> trim_report \<times> context_manager" where
  "budget_trim cm = (let (d, cm') = trim_loop 0 cm
     in (\<lparr>tr_dropped = d, tr_kept = length (cm_chunks cm')\<rparr>, cm'))"

text \<open>
  \<open>&s[..n]\<close> panics unless \<open>n\<close> is on a character boundary; \<open>None\<close> is that panic.
\<close>

definition is_char_boundary :: "str \<Rightarrow> nat \<Rightarrow> bool" where
  "is_char_boundary s n \<longleftrightarrow> n = length s \<or> n < length s \<and> \<not> is_cont (s ! n)"

definition slice_to :: "str \<Rightarrow> nat \<Rightarrow> str option" where
  "slice_to s n = (if is_char_boundary s n then Some (take n s) else None)"

definition CAP :: nat where
  "CAP = 2000"

fun retain_new :: "str set \<Rightarrow> context_chunk list \<Rightarrow> context_chunk list" where
  "retain_new seen [] = []"
| "retain_new seen (c # cs) =
     (if cc_content c \<in> seen then retain_new seen cs
      else c # retain_new (insert (cc_content c) seen) cs)"

definition truncation_mark :: str where
  "truncation_mark = [CHR 0xE2, CHR 0x80, CHR 0xA6] @ ''[truncated]''"

definition truncate_chunk :: "context_chunk \<Rightarrow> context_chunk option" where
  "truncate_chunk c =
     (if CAP < length (cc_content c)
      then (case slice_to (cc_content c) CAP of
              None \<Rightarrow> None
            | Some s \<Rightarrow> let content = s @ truncation_mark in
                Some (c\<lparr>cc_content := content, token_est := estimate_tokens content\<rparr>))
      else Some c)"

fun truncate_all :: "context_chunk list \<Rightarrow> context_chunk list option" where
  "truncate_all [] = Some []"
| "truncate_all (c # cs) =
     (case truncate_chunk c of
        None \<Rightarrow> None
      | Some c' \<Rightarrow> (case truncate_all cs of None \<Rightarrow> None | Some cs' \<Rightarrow> Some (c' # cs')))"

definition compress :: "context_manager \<Rightarrow> context_manager option" where
  "compress cm =
     (case truncate_all (retain_new {} (cm_chunks cm)) of
        None \<Rightarrow> None
      | Some cs \<Rightarrow> Some (cm\<lparr>cm_chunks := cs\<rparr>))"

fun snapshot_from :: "nat \<Rightarrow> str list \<Rightarrow> str" where
  "snapshot_from i [] = []"
| "snapshot_from i (s # ss) =
     ''['' @ show_nat i @ ''] '' @ s @ [CHR 0x0A] @ snapshot_from (i + 1) ss"

definition snapshot :: "context_manager \<Rightarrow> str" where
  "snapshot cm = snapshot_from 0 (window cm)"

definition render_chunk :: "context_chunk \<Rightarrow> str" where
  "render_chunk c = ''['' @ source_str (cc_source c) @ ''] '' @ cc_uri c @ '': '' @ cc_content c @ [CHR 0x0A]"

definition build_prompt :: "context_manager \<Rightarrow> str" where
  "build_prompt cm = ''=== Context ==='' @ [CHR 0x0A] @ concat (map render_chunk (cm_chunks cm)) @
     ''=== Working memory ==='' @ [CHR 0x0A] @ snapshot cm"

section \<open>The window\<close>

definition cm_wf :: "context_manager \<Rightarrow> bool" where
  "cm_wf cm \<longleftrightarrow> 0 < max_items cm \<and> length (window cm) \<le> max_items cm"

definition last_n :: "nat \<Rightarrow> 'a list \<Rightarrow> 'a list" where
  "last_n n xs = drop (length xs - n) xs"

lemma last_n_snoc:
  assumes "0 < n"
  shows "(let w = (if length (last_n n xs) = n then tl (last_n n xs) else last_n n xs) in w @ [x]) =
     last_n n (xs @ [x])"
proof (cases "n \<le> length xs")
  case True
  then have "length (last_n n xs) = n" by (simp add: last_n_def)
  moreover have "tl (last_n n xs) = drop (Suc (length xs) - n) xs"
    using True by (simp add: last_n_def tl_drop drop_Suc Suc_diff_le)
  ultimately show ?thesis using True assms by (simp add: last_n_def Let_def)
next
  case False
  then show ?thesis by (simp add: last_n_def)
qed

lemma push_last_n:
  assumes "window cm = last_n (max_items cm) xs" "0 < max_items cm"
  shows "window (cm_push x cm) = last_n (max_items cm) (xs @ [x])"
  using last_n_snoc [OF assms(2), of xs x] assms(1)
  by (auto simp: cm_push_def Let_def split: if_splits)

lemma cm_push_wf: "cm_wf cm \<Longrightarrow> cm_wf (cm_push x cm)"
  by (auto simp: cm_wf_def cm_push_def Let_def)

lemma max_items_push [simp]: "max_items (cm_push x cm) = max_items cm"
  by (simp add: cm_push_def)

lemma max_items_fold [simp]: "max_items (fold cm_push xs cm) = max_items cm"
  by (induction xs arbitrary: cm) auto

text \<open>
  The rolling window: a manager created for \<open>n\<close> items and fed any observations holds
  exactly the last \<open>max n 1\<close> of them, in order; pushing touches neither the chunks nor the
  budget.
\<close>

theorem window_is_last_items:
  "window (fold cm_push xs (cm_new n)) = drop (length xs - max n 1) xs \<and>
   window (fold cm_push xs (cm_with_budget n b)) = drop (length xs - max n 1) xs \<and>
   cm_chunks (cm_push x cm) = cm_chunks cm \<and> budget_tokens (cm_push x cm) = budget_tokens cm"
proof -
  have "window (fold cm_push xs cm0) = last_n (max_items cm0) xs"
    if "window cm0 = []" "0 < max_items cm0" for cm0
  proof (induction xs rule: rev_induct)
    case Nil
    then show ?case using that by (simp add: last_n_def)
  next
    case (snoc x xs)
    then show ?case using push_last_n [of "fold cm_push xs cm0" xs x] that(2) by simp
  qed
  from this [of "cm_new n"] this [of "cm_with_budget n b"] show ?thesis
    by (simp add: cm_new_def cm_with_budget_def last_n_def cm_push_def)
qed

section \<open>Budget trimming\<close>

lemma worst_scan_Some:
  "worst_scan i cs (Some k) p =
     (case worst_scan i cs (Some k) p of (w, q) \<Rightarrow> (w, q)) \<and> fst (worst_scan i cs (Some k) p) \<noteq> None"
  by (induction cs arbitrary: i k p) auto

text \<open>After an element of priority \<open>p\<close>, the scan finds the first strictly smaller minimum.\<close>

lemma worst_scan_spec:
  "worst_scan i cs (Some k) p = (w, q) \<Longrightarrow>
   (w = Some k \<and> q = p \<and> (\<forall>c\<in>set cs. p \<le> cc_priority c)) \<or>
   (\<exists>j<length cs. w = Some (i + j) \<and> q = cc_priority (cs ! j) \<and> q < p \<and>
      (\<forall>c\<in>set cs. q \<le> cc_priority c) \<and> (\<forall>l<j. q < cc_priority (cs ! l)))"
proof (induction cs arbitrary: i k p)
  case (Cons c cs)
  show ?case
  proof (cases "cc_priority c < p")
    case False
    with Cons.prems have "worst_scan (i + 1) cs (Some k) p = (w, q)" by simp
    from Cons.IH [OF this] False show ?thesis
    proof (elim disjE exE conjE)
      fix j assume "j < length cs" "w = Some (i + 1 + j)" "q = cc_priority (cs ! j)" "q < p"
        "\<forall>c\<in>set cs. q \<le> cc_priority c" "\<forall>l<j. q < cc_priority (cs ! l)"
      with False show ?thesis
        by (intro disjI2 exI [of _ "Suc j"]) (auto simp: nth_Cons' less_Suc_eq_0_disj)
    qed auto
  next
    case True
    with Cons.prems have "worst_scan (i + 1) cs (Some i) (cc_priority c) = (w, q)" by simp
    from Cons.IH [OF this] True show ?thesis
    proof (elim disjE exE conjE)
      fix j assume "j < length cs" "w = Some (i + 1 + j)" "q = cc_priority (cs ! j)"
        "q < cc_priority c" "\<forall>c\<in>set cs. q \<le> cc_priority c" "\<forall>l<j. q < cc_priority (cs ! l)"
      with True show ?thesis
        by (intro disjI2 exI [of _ "Suc j"]) (auto simp: nth_Cons' less_Suc_eq_0_disj)
    qed (intro disjI2 exI [of _ 0], auto)
  qed
qed simp

lemma worst_scan_first_min:
  assumes "cs \<noteq> []" "worst_scan 0 cs None High = (w, q)"
  obtains j where "w = Some j" "j < length cs" "q = cc_priority (cs ! j)"
    "\<And>c. c \<in> set cs \<Longrightarrow> q \<le> cc_priority c" "\<And>l. l < j \<Longrightarrow> q < cc_priority (cs ! l)"
proof -
  obtain c cs' where cs: "cs = c # cs'" using assms(1) by (cases cs) auto
  with assms(2) have "worst_scan 1 cs' (Some 0) (cc_priority c) = (w, q)" by simp
  from worst_scan_spec [OF this] show thesis
  proof (elim disjE exE conjE)
    assume "w = Some 0" "q = cc_priority c" "\<forall>d\<in>set cs'. cc_priority c \<le> cc_priority d"
    with cs show thesis by (intro that [of 0]) auto
  next
    fix j assume "j < length cs'" "w = Some (1 + j)" "q = cc_priority (cs' ! j)"
      "q < cc_priority c" "\<forall>c\<in>set cs'. q \<le> cc_priority c" "\<forall>l<j. q < cc_priority (cs' ! l)"
    with cs show thesis
      by (intro that [of "Suc j"]) (auto simp: nth_Cons' less_Suc_eq_0_disj)
  qed
qed

lemma filter_remove_first:
  assumes "j < length cs" "P (cs ! j)" "\<And>l. l < j \<Longrightarrow> \<not> P (cs ! l)"
  shows "filter P cs = cs ! j # filter P (remove_at j cs)"
proof -
  have split: "cs = take j cs @ cs ! j # drop (Suc j) cs" by (rule id_take_nth_drop [OF assms(1)])
  have "filter P (take j cs) = []"
    using assms(1,3) by (auto simp: filter_empty_conv in_set_conv_nth)
  then show ?thesis
    by (subst (1) split) (simp add: assms(2) remove_at_def)
qed

lemma filter_remove_other:
  assumes "j < length cs" "\<not> P (cs ! j)"
  shows "filter P (remove_at j cs) = filter P cs"
  by (subst (2) id_take_nth_drop [OF assms(1)]) (simp add: assms(2) remove_at_def)

lemma length_remove_at: "j < length cs \<Longrightarrow> Suc (length (remove_at j cs)) = length cs"
  by (simp add: remove_at_def)

lemma set_remove_at: "set (remove_at j cs) \<subseteq> set cs"
  by (auto simp: remove_at_def dest: in_set_takeD in_set_dropD)

lemma subseq_remove_at: "subseq (remove_at j cs) cs"
proof -
  have "subseq (drop (j + 1) cs) (drop j cs)"
    by (metis add.commute drop_drop suffix_drop suffix_imp_subseq)
  then have "subseq (take j cs @ drop (j + 1) cs) (take j cs @ drop j cs)"
    by (intro list_emb_append_mono) simp_all
  then show ?thesis by (simp add: remove_at_def)
qed

lemma total_remove_at:
  assumes "j < length (cm_chunks cm)"
  shows "total_tokens cm =
     total_tokens (cm\<lparr>cm_chunks := remove_at j (cm_chunks cm)\<rparr>) + token_est (cm_chunks cm ! j)"
proof -
  have "sum_list (map token_est (cm_chunks cm)) =
      sum_list (map token_est (take j (cm_chunks cm) @ cm_chunks cm ! j # drop (Suc j) (cm_chunks cm)))"
    by (subst (1) id_take_nth_drop [OF assms]) simp
  then show ?thesis by (simp add: total_tokens_def remove_at_def)
qed

text \<open>The chunks of one tier.\<close>

definition tier :: "priority \<Rightarrow> context_chunk list \<Rightarrow> context_chunk list" where
  "tier p cs = filter (\<lambda>c. cc_priority c = p) cs"

text \<open>What trimming \<open>cs\<close> to \<open>cs'\<close> may have dropped: in each tier only the oldest, and from a
  tier only when every lower tier is gone.\<close>

definition dropped_in_order :: "context_chunk list \<Rightarrow> context_chunk list \<Rightarrow> bool" where
  "dropped_in_order cs cs' \<longleftrightarrow> subseq cs' cs \<and> tier High cs' = tier High cs \<and>
     suffix (tier Low cs') (tier Low cs) \<and> suffix (tier Medium cs') (tier Medium cs) \<and>
     (tier Medium cs' \<noteq> tier Medium cs \<longrightarrow> tier Low cs' = [])"

lemma dropped_in_order_refl [simp]: "dropped_in_order cs cs"
  by (simp add: dropped_in_order_def)

text \<open>The order in which chunks go: the Low ones, oldest first, then the Medium ones, oldest first.\<close>

definition drop_order :: "context_chunk list \<Rightarrow> context_chunk list" where
  "drop_order cs = tier Low cs @ tier Medium cs"

lemma drop_order_step:
  assumes "j < length cs" "cc_priority (cs ! j) \<noteq> High"
    "\<And>c. c \<in> set cs \<Longrightarrow> cc_priority (cs ! j) \<le> cc_priority c"
    "\<And>l. l < j \<Longrightarrow> cc_priority (cs ! j) < cc_priority (cs ! l)"
  shows "drop_order cs = cs ! j # drop_order (remove_at j cs)"
proof -
  have same: "tier p (remove_at j cs) = tier p cs" if "p \<noteq> cc_priority (cs ! j)" for p
    unfolding tier_def by (rule filter_remove_other [OF assms(1)]) (use that in auto)
  have first: "tier p cs = cs ! j # tier p (remove_at j cs)" if "p = cc_priority (cs ! j)" for p
    unfolding tier_def by (rule filter_remove_first [OF assms(1)]) (use that in simp, metis that assms(4) less_irrefl)
  show ?thesis
  proof (cases "cc_priority (cs ! j)")
    case Low
    with same [of Medium] first [of Low] show ?thesis by (simp add: drop_order_def)
  next
    case Medium
    then have "tier Low cs = []"
      using assms(3) by (auto simp: tier_def filter_empty_conv less_eq_priority_def) fastforce
    with Medium same [of Low] first [of Medium] show ?thesis by (simp add: drop_order_def)
  qed (use assms(2) in simp)
qed

lemma drop_step:
  assumes "j < length cs" "cc_priority (cs ! j) \<noteq> High"
    "\<And>c. c \<in> set cs \<Longrightarrow> cc_priority (cs ! j) \<le> cc_priority c"
    "\<And>l. l < j \<Longrightarrow> cc_priority (cs ! j) < cc_priority (cs ! l)"
    and rest: "dropped_in_order (remove_at j cs) cs'"
  shows "dropped_in_order cs cs'"
proof -
  have sub: "subseq cs' cs"
    using rest subseq_remove_at [of j cs] unfolding dropped_in_order_def by (metis subseq_order.order_trans)
  have same: "tier p (remove_at j cs) = tier p cs" if "p \<noteq> cc_priority (cs ! j)" for p
    unfolding tier_def by (rule filter_remove_other [OF assms(1)]) (use that in auto)
  have first: "tier p cs = cs ! j # tier p (remove_at j cs)" if "p = cc_priority (cs ! j)" for p
    unfolding tier_def by (rule filter_remove_first [OF assms(1)]) (use that in simp, metis that assms(4) less_irrefl)
  consider (low) "cc_priority (cs ! j) = Low" | (med) "cc_priority (cs ! j) = Medium"
    using assms(2) by (cases "cc_priority (cs ! j)") auto
  then show ?thesis
  proof cases
    case low
    with rest sub same [of High] same [of Medium] first [of Low] show ?thesis
      by (auto simp: dropped_in_order_def suffix_ConsI)
  next
    case med
    have "tier Low cs = []"
      using assms(3) med by (auto simp: tier_def filter_empty_conv less_eq_priority_def) fastforce
    with med rest sub same [of High] same [of Low] first [of Medium] show ?thesis
      by (auto simp: dropped_in_order_def suffix_ConsI)
  qed
qed

lemma trim_loop_run:
  "trim_loop d cm = (d', cm') \<Longrightarrow>
   window cm' = window cm \<and> budget_tokens cm' = budget_tokens cm \<and> max_items cm' = max_items cm \<and>
   dropped_in_order (cm_chunks cm) (cm_chunks cm') \<and>
   d' + length (cm_chunks cm') = d + length (cm_chunks cm) \<and>
   (total_tokens cm' \<le> budget_tokens cm \<or> (\<forall>c\<in>set (cm_chunks cm'). cc_priority c = High)) \<and>
   drop_order (cm_chunks cm') = drop (d' - d) (drop_order (cm_chunks cm)) \<and>
   (d < d' \<longrightarrow> d' - d \<le> length (drop_order (cm_chunks cm)) \<and>
      budget_tokens cm < total_tokens cm' + token_est (drop_order (cm_chunks cm) ! (d' - d - 1)))"
proof (induction d cm arbitrary: d' cm' rule: trim_loop.induct)
  case (1 d cm)
  show ?case
  proof (cases "budget_tokens cm < total_tokens cm \<and> cm_chunks cm \<noteq> []")
    case False
    with "1.prems" have "d' = d" "cm' = cm" by (simp_all add: trim_loop.simps [of d cm])
    with False show ?thesis by auto
  next
    case True
    obtain w q where scan: "worst_scan 0 (cm_chunks cm) None High = (w, q)" by force
    from True scan obtain j where j: "w = Some j" "j < length (cm_chunks cm)"
      and q: "q = cc_priority (cm_chunks cm ! j)"
      and least: "\<And>c. c \<in> set (cm_chunks cm) \<Longrightarrow> q \<le> cc_priority c"
      and first: "\<And>l. l < j \<Longrightarrow> q < cc_priority (cm_chunks cm ! l)"
      by (auto elim: worst_scan_first_min)
    show ?thesis
    proof (cases "q = High")
      case True
      with least have "\<forall>c\<in>set (cm_chunks cm). cc_priority c = High"
        by (meson antisym priority_le(2))
      moreover have "d' = d" "cm' = cm"
        using "1.prems" True scan j by (auto simp: trim_loop.simps [of d cm] split: if_splits)
      ultimately show ?thesis by simp
    next
      case low: False
      let ?cm = "cm\<lparr>cm_chunks := remove_at j (cm_chunks cm)\<rparr>"
      have run: "trim_loop (d + 1) ?cm = (d', cm')"
        using "1.prems" True low scan j by (simp add: trim_loop.simps [of d cm])
      note IH = "1.IH" [OF True scan [symmetric] low j(1) run]
      have "dropped_in_order (cm_chunks cm) (cm_chunks cm')"
        using IH low q least first by (intro drop_step [OF j(2)]) auto
      moreover have order: "drop_order (cm_chunks cm) = cm_chunks cm ! j # drop_order (remove_at j (cm_chunks cm))"
        using low q least first by (intro drop_order_step [OF j(2)]) auto
      have sub: "subseq (cm_chunks cm') (cm_chunks ?cm)"
        using IH by (simp add: dropped_in_order_def)
      then have le: "length (cm_chunks cm') \<le> length (cm_chunks ?cm)" by (rule list_emb_length)
      have "d' - d \<le> length (drop_order (cm_chunks cm)) \<and>
          budget_tokens cm < total_tokens cm' + token_est (drop_order (cm_chunks cm) ! (d' - d - 1))"
      proof (cases "d + 1 < d'")
        case True
        have "d' - (d + 1) \<le> length (drop_order (remove_at j (cm_chunks cm)))"
          "budget_tokens cm < total_tokens cm' + token_est (drop_order (remove_at j (cm_chunks cm)) ! (d' - (d + 1) - 1))"
          using IH True by simp_all
        then have "budget_tokens cm < total_tokens cm' + token_est (drop_order (cm_chunks cm) ! Suc (d' - (d + 1) - 1))"
          "Suc (d' - (d + 1)) \<le> length (drop_order (cm_chunks cm))"
          unfolding order by simp_all
        moreover have "d' - d = Suc (d' - (d + 1))" "d' - d - 1 = Suc (d' - (d + 1) - 1)" using True by simp_all
        ultimately show ?thesis by (simp only:)
      next
        case False
        with IH le have d': "d' = d + 1" and "length (cm_chunks cm') = length (cm_chunks ?cm)" by simp_all
        with sub have "cm_chunks cm' = cm_chunks ?cm" by (simp add: subseq_same_length)
        with IH have "total_tokens cm' = total_tokens ?cm" by (simp add: total_tokens_def)
        then have "budget_tokens cm < total_tokens cm' + token_est (cm_chunks cm ! j)"
          using True total_remove_at [OF j(2)] by simp
        with order d' show ?thesis by simp
      qed
      moreover have "d < d'" using IH le by simp
      then have "drop_order (cm_chunks cm') = drop (d' - d) (drop_order (cm_chunks cm))"
        using IH order by (simp add: drop_Cons' Suc_diff_le)
      ultimately show ?thesis
        using IH length_remove_at [OF j(2)] by simp
    qed
  qed
qed

text \<open>
  C14: budget trimming: the surviving chunks are the old ones in their order, every High chunk
  survives, within a tier only the oldest were dropped and no Medium before every Low; the window
  and the budget are untouched; the result fits the budget unless only High chunks are left; the
  report is exact; what was dropped is, in this order, the first chunks of the Low tier followed by the
  Medium tier; and nothing is dropped needlessly: with the last dropped chunk back the result would
  exceed the budget.
\<close>

theorem budget_trim_spec:
  assumes "budget_trim cm = (rep, cm')"
  shows "subseq (cm_chunks cm') (cm_chunks cm) \<and>
    tier High (cm_chunks cm') = tier High (cm_chunks cm) \<and>
    suffix (tier Low (cm_chunks cm')) (tier Low (cm_chunks cm)) \<and>
    suffix (tier Medium (cm_chunks cm')) (tier Medium (cm_chunks cm)) \<and>
    (tier Medium (cm_chunks cm') \<noteq> tier Medium (cm_chunks cm) \<longrightarrow> tier Low (cm_chunks cm') = []) \<and>
    window cm' = window cm \<and> budget_tokens cm' = budget_tokens cm \<and>
    (total_tokens cm' \<le> budget_tokens cm' \<or> (\<forall>c\<in>set (cm_chunks cm'). cc_priority c = High)) \<and>
    tr_kept rep = length (cm_chunks cm') \<and>
    tr_dropped rep + tr_kept rep = length (cm_chunks cm) \<and>
    drop_order (cm_chunks cm') = drop (tr_dropped rep) (drop_order (cm_chunks cm)) \<and>
    (0 < tr_dropped rep \<longrightarrow> tr_dropped rep \<le> length (drop_order (cm_chunks cm)) \<and>
       budget_tokens cm < total_tokens cm' + token_est (drop_order (cm_chunks cm) ! (tr_dropped rep - 1)))"
proof -
  obtain d where run: "trim_loop 0 cm = (d, cm')" and rep: "rep = \<lparr>tr_dropped = d, tr_kept = length (cm_chunks cm')\<rparr>"
    using assms by (auto simp: budget_trim_def split: prod.splits)
  show ?thesis
    using trim_loop_run [OF run] by (simp add: rep dropped_in_order_def)
qed

theorem budget_trim_spec_witness:
  "let big = context_chunk_new OpenFile ''a'' (replicate 8 (CHR ''x'')) Low;
       keep = context_chunk_new Selection ''b'' (replicate 8 (CHR ''y'')) High;
       cm = add_chunk keep (add_chunk big (cm_with_budget 4 2))
   in total_tokens cm = 4 \<and> tier High (cm_chunks (snd (budget_trim cm))) = [keep]"
proof -
  define big where "big = context_chunk_new OpenFile ''a'' (replicate 8 (CHR ''x'')) Low"
  define keep where "keep = context_chunk_new Selection ''b'' (replicate 8 (CHR ''y'')) High"
  define cm where "cm = add_chunk keep (add_chunk big (cm_with_budget 4 2))"
  have total: "total_tokens cm = 4"
    by (simp add: cm_def keep_def big_def add_chunk_def cm_with_budget_def total_tokens_def
        context_chunk_new_def estimate_tokens_def)
  have "tier High (cm_chunks cm) = [keep]"
    by (simp add: cm_def keep_def big_def add_chunk_def cm_with_budget_def tier_def
        context_chunk_new_def)
  then have kept: "tier High (cm_chunks (snd (budget_trim cm))) = [keep]"
    using budget_trim_spec [of cm "fst (budget_trim cm)" "snd (budget_trim cm)"] by simp
  show ?thesis
    using conjI [OF total kept] unfolding cm_def keep_def big_def Let_def .
qed

section \<open>Compression\<close>

lemma retain_new_contents:
  "distinct (map cc_content (retain_new seen cs)) \<and>
   set (map cc_content (retain_new seen cs)) = cc_content ` set cs - seen \<and>
   subseq (retain_new seen cs) cs"
proof (induction seen cs rule: retain_new.induct)
  case (2 seen c cs)
  then show ?case by (cases "cc_content c \<in> seen") auto
qed simp

lemma length_truncation_mark: "length truncation_mark = 14"
  by (simp add: truncation_mark_def)

lemma truncate_all_None:
  "truncate_all cs = None \<longleftrightarrow>
     (\<exists>c\<in>set cs. CAP < length (cc_content c) \<and> \<not> is_char_boundary (cc_content c) CAP)"
  by (induction cs) (auto simp: truncate_chunk_def slice_to_def Let_def split: option.splits)

lemma set_retain_new: "set (retain_new seen cs) \<subseteq> set cs"
  by (induction seen cs rule: retain_new.induct) auto

text \<open>
  The chunks whose content stands nowhere before them in the store, and a chunk cut to the cap with the
  truncation mark, its estimate renewed.
\<close>

definition first_of_content :: "context_chunk list \<Rightarrow> context_chunk list" where
  "first_of_content cs = map (\<lambda>i. cs ! i)
     (filter (\<lambda>i. cc_content (cs ! i) \<notin> cc_content ` set (take i cs)) [0..<length cs])"

definition capped :: "context_chunk \<Rightarrow> context_chunk" where
  "capped c = (if length (cc_content c) \<le> 2000 then c
     else let cut = take 2000 (cc_content c) @ truncation_mark
          in c\<lparr>cc_content := cut, token_est := (2014 + 3) div 4\<rparr>)"

lemma retain_new_snoc:
  "retain_new seen (cs @ [c]) =
     retain_new seen cs @ (if cc_content c \<in> seen \<union> cc_content ` set cs then [] else [c])"
  by (induction seen cs rule: retain_new.induct) auto

lemma first_of_content_snoc:
  "first_of_content (cs @ [c]) =
     first_of_content cs @ (if cc_content c \<in> cc_content ` set cs then [] else [c])"
proof -
  have "map (\<lambda>i. (cs @ [c]) ! i) (filter (\<lambda>i. cc_content ((cs @ [c]) ! i) \<notin> cc_content ` set (take i (cs @ [c]))) [0..<length cs]) =
      map (\<lambda>i. cs ! i) (filter (\<lambda>i. cc_content (cs ! i) \<notin> cc_content ` set (take i cs)) [0..<length cs])"
    by (intro map_cong filter_cong refl) (auto simp: nth_append)
  then show ?thesis by (simp add: first_of_content_def)
qed

lemma retain_new_first: "retain_new {} cs = first_of_content cs"
  by (induction cs rule: rev_induct) (simp_all add: retain_new_snoc first_of_content_snoc, simp add: first_of_content_def)

lemma truncate_chunk_capped:
  assumes "truncate_chunk c = Some c'"
  shows "c' = capped c"
proof (cases "2000 < length (cc_content c)")
  case False
  with assms show ?thesis by (simp add: truncate_chunk_def capped_def CAP_def)
next
  case True
  let ?cut = "take 2000 (cc_content c) @ truncation_mark"
  have "length ?cut = 2014" using True by (simp add: length_truncation_mark)
  then have "estimate_tokens ?cut = (2014 + 3) div 4" unfolding estimate_tokens_def by (simp only:)
  moreover have "c' = c\<lparr>cc_content := ?cut, token_est := estimate_tokens ?cut\<rparr>"
    using assms True unfolding truncate_chunk_def slice_to_def CAP_def Let_def by (auto split: if_splits)
  ultimately show ?thesis using True unfolding capped_def Let_def by (simp only: not_le [symmetric] if_False)
qed

lemma truncate_all_capped: "truncate_all cs = Some cs' \<Longrightarrow> cs' = map capped cs"
  by (induction cs arbitrary: cs') (auto dest: truncate_chunk_capped split: option.splits)

text \<open>
  C33: compression panics exactly when a stored chunk is longer than 2000 bytes and byte 2000
  falls inside a multi-byte character.  Otherwise the result holds, in their order, the chunks whose
  content does not stand before them in the store, each longer one cut to its first 2000 bytes and the
  mark, and nothing else changes.  (The duplicates are looked for before the cut, so two chunks that
  differ after byte 2000 only end up with the same content.)
\<close>

theorem compress_panics_or_caps:
  "compress cm =
     (if list_ex (\<lambda>c. 2000 < length (cc_content c) \<and> is_cont (cc_content c ! 2000)) (cm_chunks cm) then None
      else Some (cm\<lparr>cm_chunks := map capped (first_of_content (cm_chunks cm))\<rparr>))"
proof -
  let ?bad = "\<lambda>c. 2000 < length (cc_content c) \<and> is_cont (cc_content c ! 2000)"
  let ?cs = "retain_new {} (cm_chunks cm)"
  note contents = retain_new_contents [of "{}" "cm_chunks cm"]
  have bad: "CAP < length (cc_content c) \<and> \<not> is_char_boundary (cc_content c) CAP \<longleftrightarrow> ?bad c" for c
    by (auto simp: is_char_boundary_def CAP_def)
  have "(\<exists>c\<in>set ?cs. ?bad c) \<longleftrightarrow> (\<exists>c\<in>set (cm_chunks cm). ?bad c)"
  proof -
    let ?B = "\<lambda>x. 2000 < length x \<and> is_cont (x ! 2000)"
    have "set (map cc_content ?cs) = cc_content ` set (cm_chunks cm)" using contents by simp
    then have "(\<exists>x\<in>set (map cc_content ?cs). ?B x) \<longleftrightarrow> (\<exists>x\<in>cc_content ` set (cm_chunks cm). ?B x)" by (simp only:)
    then show ?thesis by simp
  qed
  then have none: "truncate_all ?cs = None \<longleftrightarrow> list_ex ?bad (cm_chunks cm)"
    unfolding truncate_all_None bad by (simp add: list_ex_iff)
  show ?thesis
  proof (cases "truncate_all ?cs")
    case None
    with none show ?thesis by (simp add: compress_def)
  next
    case (Some cs')
    with none truncate_all_capped [OF Some] show ?thesis by (simp add: compress_def retain_new_first)
  qed
qed

end
