(* ===== verification/Planner.thy ===== *)
theory Planner
  imports Self_Heal Context_Manager
begin

text \<open>
  The ReAct loop (crates/core/src/planner.rs): think, plan, authorize at the action boundary, run
  the tool, remember the observation, validate.  \<open>run\<close> and \<open>run_with_context\<close> differ in how a
  step's context is prepared and share the rest.
\<close>

section \<open>The planner\<close>

record step =
  st_thought :: str
  st_action :: str
  st_observation :: str

record run_trace =
  steps :: "step list"
  final_answer :: str

record 'w planner =
  pl_llm :: "'w llm"
  pl_tools :: "'w executor"
  pl_validator :: validator
  pl_host :: "'w host_provider"
  pl_max_steps :: nat
  pl_principal :: principal
  pl_sink :: "audit_event \<Rightarrow> ('w, str, unit) eff"
  pl_clock :: "'w \<Rightarrow> int"

text \<open>
  The default governance is a fully privileged principal and an in-memory sink, which never fails.
\<close>

definition planner_new ::
  "'w llm \<Rightarrow> 'w executor \<Rightarrow> validator \<Rightarrow> 'w host_provider \<Rightarrow> nat \<Rightarrow> ('w \<Rightarrow> int) \<Rightarrow> 'w planner" where
  "planner_new llm tools v h n clk = \<lparr>pl_llm = llm, pl_tools = tools, pl_validator = v, pl_host = h,
     pl_max_steps = n, pl_principal = principal_all ''single'' ''core'', pl_sink = (\<lambda>_. ret ()),
     pl_clock = clk\<rparr>"

definition planner_with_governance ::
  "principal \<Rightarrow> (audit_event \<Rightarrow> ('w, str, unit) eff) \<Rightarrow> 'w planner \<Rightarrow> 'w planner" where
  "planner_with_governance pr sink pl = pl\<lparr>pl_principal := pr, pl_sink := sink\<rparr>"

definition planner_with_defaults :: "'w host_provider \<Rightarrow> nat \<Rightarrow> ('w \<Rightarrow> int) \<Rightarrow> 'w planner" where
  "planner_with_defaults h n clk = planner_new mock_llm basic_run (basic_validate n) h n clk"

text \<open>A failed write to the sink is logged and forgotten.\<close>

definition record_audit ::
  "('w, 'r) planner_scheme \<Rightarrow> audit_action \<Rightarrow> bool \<Rightarrow> json \<Rightarrow> ('w, 'e, unit) run" where
  "record_audit pl action g payload =
     bnd (gets (\<lambda>w. audit_event_new (pl_clock pl (env w)) (pl_principal pl) action g payload)) (\<lambda>ev.
     bnd (count_metric inc_audit_events) (\<lambda>_.
     bnd (mark (C_Audit ev)) (\<lambda>_.
     handle (external (pl_sink pl ev)) (\<lambda>_. ret ()) ret)))"

definition authorize_and_record ::
  "('w, 'r) planner_scheme \<Rightarrow> str \<Rightarrow> ('w, permission_denied, unit) run" where
  "authorize_and_record pl tool =
     (case action_permission tool of
        None \<Rightarrow> ret ()
      | Some required \<Rightarrow>
          (case check_permission (pl_principal pl) required of
             Inr _ \<Rightarrow> record_audit pl (from_permission required) True (JObj [(''tool'', JStr tool)])
           | Inl e \<Rightarrow>
               bnd (count_metric inc_denials) (\<lambda>_.
               bnd (record_audit pl (from_permission required) False
                      (JObj [(''tool'', JStr tool), (''reason'', JStr (display_denied e))])) (\<lambda>_.
               throw e))))"

definition denied_observation :: "str \<Rightarrow> observation" where
  "denied_observation tool = \<lparr>obs_tool = tool,
     obs_output = ''[denied] action `'' @ tool @ ''` not permitted'', obs_terminal = False\<rparr>"

definition act :: "('w, 'r) planner_scheme \<Rightarrow> action_plan \<Rightarrow> ('w, str, observation \<times> bool) run" where
  "act pl plan =
     handle (authorize_and_record pl (plan_tool plan))
       (\<lambda>_. bnd (bridge_emit_event (pl_host pl) (Status (''permission denied: '' @ plan_tool plan)))
              (\<lambda>_. ret (denied_observation (plan_tool plan), False)))
       (\<lambda>_. bnd (count_metric inc_tool_calls) (\<lambda>_.
            bnd (mark (C_Tool (plan_tool plan) (plan_argument plan))) (\<lambda>_.
            bnd (pl_tools pl (plan_tool plan) (plan_argument plan)) (\<lambda>obs. ret (obs, True)))))"

definition plan_edit :: "observation \<Rightarrow> text_edit" where
  "plan_edit obs = \<lparr>document_uri = ''in-memory://plan'', old_text = [], new_text = obs_output obs\<rparr>"

definition edit_if_modify ::
  "('w, 'r) planner_scheme \<Rightarrow> action_plan \<Rightarrow> observation \<Rightarrow> bool \<Rightarrow> ('w, str, unit) run" where
  "edit_if_modify pl plan obs authorized =
     (if authorized \<and> plan_tool plan = ''modify''
      then handle (bridge_apply_edit (pl_host pl) (plan_edit obs)) (\<lambda>_. ret ()) ret
      else ret ())"

definition think_and_plan ::
  "('w, 'r) planner_scheme \<Rightarrow> str \<Rightarrow> ('w, str, str \<times> action_plan) run" where
  "think_and_plan pl context =
     bnd (count_metric inc_llm_calls) (\<lambda>_.
     bnd (mark (C_Think context)) (\<lambda>_.
     bnd (external (llm_think (pl_llm pl) context)) (\<lambda>thought.
     bnd (mark (C_Plan thought)) (\<lambda>_.
     bnd (external (llm_plan_action (pl_llm pl) thought)) (\<lambda>plan. ret (thought, plan))))))"

definition react_step ::
  "('w, 'r) planner_scheme \<Rightarrow> str \<Rightarrow> ('w, str, step \<times> observation) run" where
  "react_step pl context =
     bnd (think_and_plan pl context) (\<lambda>(thought, plan).
     bnd (bridge_emit_event (pl_host pl)
            (Status (''action='' @ plan_tool plan @ '' arg='' @ plan_argument plan))) (\<lambda>_.
     bnd (act pl plan) (\<lambda>(obs, authorized).
     bnd (edit_if_modify pl plan obs authorized) (\<lambda>_.
     ret (\<lparr>st_thought = thought, st_action = plan_tool plan, st_observation = obs_output obs\<rparr>, obs)))))"

text \<open>
  The loop \<open>for step in 0..max_steps\<close>: the first number is what is left of the range.  The loop
  ends without a verdict only when the range does, and then the answer is still empty.
\<close>

fun react_loop ::
  "('w, 'r) planner_scheme \<Rightarrow> (nat \<Rightarrow> context_manager \<Rightarrow> ('w, str, str \<times> context_manager) run) \<Rightarrow>
   nat \<Rightarrow> nat \<Rightarrow> context_manager \<Rightarrow> step list \<Rightarrow> ('w, str, run_trace) run" where
  "react_loop pl prepare 0 i ctx sts = ret \<lparr>steps = sts, final_answer = []\<rparr>"
| "react_loop pl prepare (Suc n) i ctx sts =
     bnd (prepare i ctx) (\<lambda>(context, ctx').
     bnd (react_step pl context) (\<lambda>(st, obs).
       case pl_validator pl obs (i + 1) of
         V_Continue \<Rightarrow> react_loop pl prepare n (i + 1) (cm_push (obs_output obs) ctx') (sts @ [st])
       | V_Done \<Rightarrow> ret \<lparr>steps = sts @ [st], final_answer = obs_output obs\<rparr>
       | V_BudgetExhausted \<Rightarrow> ret \<lparr>steps = sts @ [st], final_answer = ''budget exhausted''\<rparr>))"

definition prepare_window ::
  "('w, 'r) planner_scheme \<Rightarrow> nat \<Rightarrow> context_manager \<Rightarrow> ('w, str, str \<times> context_manager) run" where
  "prepare_window pl i ctx =
     bnd (bridge_emit_event (pl_host pl) (Status (''step '' @ show_nat i @ '': thinking'')))
       (\<lambda>_. ret (snapshot ctx, ctx))"

definition prepare_chunks :: "nat \<Rightarrow> context_manager \<Rightarrow> ('w, str, str \<times> context_manager) run" where
  "prepare_chunks i ctx = (let ctx' = snd (budget_trim ctx) in ret (build_prompt ctx', ctx'))"

definition planner_run :: "('w, 'r) planner_scheme \<Rightarrow> str \<Rightarrow> ('w, str, run_trace) run" where
  "planner_run pl goal =
     react_loop pl (prepare_window pl) (pl_max_steps pl) 0 (cm_push (''goal: '' @ goal) (cm_new 16)) []"

definition run_with_context ::
  "('w, 'r) planner_scheme \<Rightarrow> str \<Rightarrow> context_chunk list \<Rightarrow> ('w, str, run_trace) run" where
  "run_with_context pl goal sources =
     react_loop pl prepare_chunks (pl_max_steps pl) 0
       (cm_push (''goal: '' @ goal) (fold add_chunk sources (cm_with_budget (pl_max_steps pl) 4096))) []"

section \<open>What one action does\<close>

definition audits :: "principal \<Rightarrow> permission \<Rightarrow> bool \<Rightarrow> audit_event \<Rightarrow> bool" where
  "audits pr req g ev \<longleftrightarrow> ev_action ev = from_permission req \<and> ev_granted ev = g \<and>
     ev_tenant ev = tenant_id pr \<and> ev_user ev = user_id pr"

lemma record_audit_run:
  "\<exists>ev e'. record_audit pl (from_permission req) g payload s =
     (Inr (), s\<lparr>w_metrics := inc_audit_events (w_metrics s), trail := trail s @ [C_Audit ev], env := e'\<rparr>) \<and>
     audits (pl_principal pl) req g ev \<and> ev_payload ev = payload"
proof -
  let ?ev = "audit_event_new (pl_clock pl (env s)) (pl_principal pl) (from_permission req) g payload"
  obtain r e' where sink: "pl_sink pl ?ev (env s) = (r, e')" by force
  have "audits (pl_principal pl) req g ?ev \<and> ev_payload ?ev = payload"
    by (simp add: audits_def audit_event_new_def)
  with sink show ?thesis
    by (intro exI [of _ ?ev] exI [of _ e'])
      (cases r; simp add: record_audit_def eff_simps external_def)
qed

lemma authorize_cases:
  obtains (free) "action_permission tool = None" "authorize_and_record pl tool s = (Inr (), s)"
  | (granted) req ev e' where "action_permission tool = Some req" "has (perms (pl_principal pl)) req"
      "audits (pl_principal pl) req True ev"
      "authorize_and_record pl tool s = (Inr (),
         s\<lparr>w_metrics := inc_audit_events (w_metrics s), trail := trail s @ [C_Audit ev], env := e'\<rparr>)"
  | (denied) req ev e' where "action_permission tool = Some req" "\<not> has (perms (pl_principal pl)) req"
      "audits (pl_principal pl) req False ev"
      "authorize_and_record pl tool s = (Inl \<lparr>pd_required = req, pd_mask = perms (pl_principal pl)\<rparr>,
         s\<lparr>w_metrics := inc_audit_events (inc_denials (w_metrics s)),
           trail := trail s @ [C_Audit ev], env := e'\<rparr>)"
proof (cases "action_permission tool")
  case None
  then show thesis by (intro free) (simp_all add: authorize_and_record_def)
next
  case (Some req)
  show thesis
  proof (cases "has (perms (pl_principal pl)) req")
    case True
    with Some have eq: "authorize_and_record pl tool =
        record_audit pl (from_permission req) True (JObj [(''tool'', JStr tool)])"
      by (auto simp: authorize_and_record_def check_permission_def require_def)
    obtain ev e' where "audits (pl_principal pl) req True ev" and
      "authorize_and_record pl tool s = (Inr (),
         s\<lparr>w_metrics := inc_audit_events (w_metrics s), trail := trail s @ [C_Audit ev], env := e'\<rparr>)"
      unfolding eq
      using record_audit_run [of pl req True "JObj [(''tool'', JStr tool)]" s] by blast
    with Some True show thesis by (intro granted)
  next
    case False
    let ?e = "\<lparr>pd_required = req, pd_mask = perms (pl_principal pl)\<rparr>"
    let ?s = "s\<lparr>w_metrics := inc_denials (w_metrics s)\<rparr>"
    let ?p = "JObj [(''tool'', JStr tool), (''reason'', JStr (display_denied ?e))]"
    obtain ev e' where ev: "audits (pl_principal pl) req False ev" and
      "(record_audit pl (from_permission req) False ?p :: (_, permission_denied, unit) run) ?s = (Inr (),
         ?s\<lparr>w_metrics := inc_audit_events (w_metrics ?s), trail := trail ?s @ [C_Audit ev], env := e'\<rparr>)"
      using record_audit_run [of pl req False ?p ?s] by blast
    then have "authorize_and_record pl tool s = (Inl ?e,
         s\<lparr>w_metrics := inc_audit_events (inc_denials (w_metrics s)),
           trail := trail s @ [C_Audit ev], env := e'\<rparr>)"
      using Some False
      by (simp add: authorize_and_record_def check_permission_def require_def eff_simps)
    with Some False ev show thesis by (intro denied)
  qed
qed

text \<open>The audit record, if the tool is privileged, that stands right before a tool's run.\<close>

definition clearance :: "principal \<Rightarrow> str \<Rightarrow> call list \<Rightarrow> bool" where
  "clearance pr tool A \<longleftrightarrow>
     (case action_permission tool of
        None \<Rightarrow> A = []
      | Some req \<Rightarrow> has (perms pr) req \<and> (\<exists>ev. A = [C_Audit ev] \<and> audits pr req True ev))"

lemma act_cases:
  assumes "tool_executor (pl_tools pl)" "act pl plan s = (res, t)"
  obtains (denied) req ev where "action_permission (plan_tool plan) = Some req"
      "\<not> has (perms (pl_principal pl)) req" "audits (pl_principal pl) req False ev"
      "res = Inr (denied_observation (plan_tool plan), False)"
      "trail t = trail s @ [C_Audit ev, C_Event (Status (''permission denied: '' @ plan_tool plan))]"
      "w_metrics t = inc_audit_events (inc_denials (w_metrics s))"
  | (ran) A L u r where "clearance (pl_principal pl) (plan_tool plan) A"
      "trail t = trail s @ A @ C_Tool (plan_tool plan) (plan_argument plan) # L"
      "list_all executor_call L"
      "w_metrics t = inc_tool_calls (if A = [] then w_metrics s else inc_audit_events (w_metrics s))"
      "pl_tools pl (plan_tool plan) (plan_argument plan) u = (r, t)"
      "res = (case r of Inl e \<Rightarrow> Inl e | Inr obs \<Rightarrow> Inr (obs, True))"
proof -
  let ?c = "C_Tool (plan_tool plan) (plan_argument plan)"
  have go: thesis if auth: "authorize_and_record pl (plan_tool plan) s = (Inr (), s')"
    and cl: "clearance (pl_principal pl) (plan_tool plan) A" and tr: "trail s' = trail s @ A"
    and me: "w_metrics s' = (if A = [] then w_metrics s else inc_audit_events (w_metrics s))" for s' A
  proof -
    let ?u = "s'\<lparr>w_metrics := inc_tool_calls (w_metrics s'), trail := trail s' @ [?c]\<rparr>"
    obtain r v where tool: "pl_tools pl (plan_tool plan) (plan_argument plan) ?u = (r, v)" by force
    obtain L where L: "trail v = trail ?u @ L" "list_all executor_call L"
      by (rule tool_executor.run_trail [OF assms(1) tool])
    have m: "w_metrics v = w_metrics ?u" by (rule tool_executor.run_metrics [OF assms(1) tool])
    have "t = v" "res = (case r of Inl e \<Rightarrow> Inl e | Inr obs \<Rightarrow> Inr (obs, True))"
      using assms(2) auth tool by (cases r; simp add: act_def eff_simps)+
    then show thesis using ran [OF cl, of L ?u r] L tr m me tool by simp
  qed
  show thesis
  proof (cases rule: authorize_cases [of "plan_tool plan" pl s])
    case free
    then show thesis by (intro go [of s "[]"]) (simp_all add: clearance_def)
  next
    case (granted req ev e')
    then show thesis by (intro go [of _ "[C_Audit ev]"]) (auto simp: clearance_def)
  next
    case (denied req ev e')
    then have "res = Inr (denied_observation (plan_tool plan), False) \<and>
      trail t = trail s @ [C_Audit ev, C_Event (Status (''permission denied: '' @ plan_tool plan))] \<and>
      w_metrics t = inc_audit_events (inc_denials (w_metrics s))"
      using assms(2) by (auto simp: act_def eff_simps bridge_emit_event_def)
    with denied that(1) show thesis by blast
  qed
qed

section \<open>Ordering: no privileged tool runs without clearance\<close>

text \<open>
  In a list of calls every run of a privileged tool is allowed by the mask and comes directly
  after the granted audit record of that action, and documents are edited only with Modify.
\<close>

definition cleared :: "principal \<Rightarrow> call list \<Rightarrow> bool" where
  "cleared pr L \<longleftrightarrow>
     (\<forall>U tool arg V. L = U @ C_Tool tool arg # V \<longrightarrow>
        (\<exists>U' A. U = U' @ A \<and> clearance pr tool A)) \<and>
     (\<forall>e. C_Edit e \<in> set L \<longrightarrow> has (perms pr) P_Modify)"

definition is_tool :: "call \<Rightarrow> bool" where
  "is_tool c = (case c of C_Tool _ _ \<Rightarrow> True | _ \<Rightarrow> False)"

definition is_edit :: "call \<Rightarrow> bool" where
  "is_edit c = (case c of C_Edit _ \<Rightarrow> True | _ \<Rightarrow> False)"

lemma cleared_plain: "list_all (\<lambda>c. \<not> is_tool c \<and> \<not> is_edit c) L \<Longrightarrow> cleared pr L"
  by (fastforce simp: cleared_def list_all_iff is_tool_def is_edit_def)

interpretation cleared: log_property "cleared pr" for pr
proof
  fix L M assume L: "cleared pr L" and M: "cleared pr M"
  have "\<exists>U' A. U = U' @ A \<and> clearance pr tool A" if split: "L @ M = U @ C_Tool tool arg # V" for U tool arg V
  proof -
    from split consider (left) V' where "L = U @ C_Tool tool arg # V'" "V = V' @ M"
      | (right) U'' where "U = L @ U''" "M = U'' @ C_Tool tool arg # V"
      by (auto simp: append_eq_append_conv2 Cons_eq_append_conv append_eq_Cons_conv)
    then show ?thesis
    proof cases
      case left
      with L show ?thesis unfolding cleared_def by blast
    next
      case right
      with M obtain U' A where "U'' = U' @ A" "clearance pr tool A" unfolding cleared_def by blast
      with right show ?thesis by (intro exI [of _ "L @ U'"] exI [of _ A]) simp
    qed
  qed
  with L M show "cleared pr (L @ M)" by (auto simp: cleared_def)
qed (simp add: cleared_def)

lemma cleared_run: 
  assumes "clearance pr tool A" "list_all executor_call L"
  shows "cleared pr (A @ C_Tool tool arg # L)"
proof -
  have L: "C_Tool x y \<notin> set L" "C_Edit e \<notin> set L" for x y e
    using assms(2) by (auto simp: list_all_iff executor_call_def)
  have A: "C_Tool x y \<notin> set A" "C_Edit e \<notin> set A" for x y e
    using assms(1) by (auto simp: clearance_def split: option.splits)
  have "\<exists>U' B. U = U' @ B \<and> clearance pr t B" if "A @ C_Tool tool arg # L = U @ C_Tool t a # V" for U t a V
  proof -
    from that L(1) [of t a] A(1) [of t a] have "U = A \<and> t = tool"
      by (auto simp: append_eq_append_conv2 Cons_eq_append_conv append_eq_Cons_conv)
    with assms(1) show ?thesis by (intro exI [of _ "[]"] exI [of _ A]) simp
  qed
  with L(2) A(2) show ?thesis by (auto simp: cleared_def)
qed

lemma rel_react_loop:
  assumes "state_rel R" "\<And>i ctx. rel_eff R (prepare i ctx)" "\<And>c. rel_eff R (react_step pl c)"
  shows "rel_eff R (react_loop pl prepare n i ctx sts)"
proof (induction n arbitrary: i ctx sts)
  case 0
  show ?case unfolding react_loop.simps by (rule state_rel.rel_ret [OF assms(1)])
next
  case (Suc n)
  show ?case
    unfolding react_loop.simps
    by (intro state_rel.rel_bnd [OF assms(1)] assms(2,3))
      (auto split: prod.splits verdict.splits
        intro!: state_rel.rel_bnd [OF assms(1)] assms(3) Suc.IH state_rel.rel_ret [OF assms(1)])
qed

lemma modify_permission: "action_permission ''modify'' = Some P_Modify"
  by (simp add: action_permission_def to_ascii_lowercase_def ascii_lower_def)

lemma logs_act:
  assumes "tool_executor (pl_tools pl)"
  shows "rel_eff (logs (cleared (pl_principal pl))) (act pl plan)"
proof (rule rel_effI)
  fix s t :: "'a world" and res assume run: "act pl plan s = (res, t)"
  show "logs (cleared (pl_principal pl)) s t"
  proof (cases rule: act_cases [OF assms run])
    case (1 req ev)
    then show ?thesis
      unfolding logs_def by (intro exI conjI cleared_plain) (auto simp: is_tool_def is_edit_def)
  next
    case (2 A L u r)
    from cleared_run [OF 2(1,3)] 2(2) show ?thesis unfolding logs_def by blast
  qed
qed

lemma act_authorized:
  assumes "tool_executor (pl_tools pl)" "act pl plan s = (Inr (obs, True), t)" "plan_tool plan = ''modify''"
  shows "has (perms (pl_principal pl)) P_Modify"
proof (cases rule: act_cases [OF assms(1,2)])
  case (2 A L u r)
  then show ?thesis using assms(3) modify_permission by (simp add: clearance_def)
qed (use assms in simp_all)

lemma cleared_events:
  "cleared pr [C_Event ev]" "cleared pr [C_Think c]" "cleared pr [C_Plan t]"
  by (rule cleared_plain, simp add: is_tool_def is_edit_def)+

lemma logs_edit_if_modify:
  assumes "authorized \<Longrightarrow> plan_tool plan = ''modify'' \<Longrightarrow> has (perms pr) P_Modify"
  shows "rel_eff (logs (cleared pr)) (edit_if_modify pl plan obs authorized)"
proof (cases "authorized \<and> plan_tool plan = ''modify''")
  case True
  then have "cleared pr [C_Edit (plan_edit obs)]"
    using assms by (auto simp: cleared_def Cons_eq_append_conv)
  then show ?thesis
    unfolding edit_if_modify_def by (intro cleared.logs_intros cleared.logs_edit)
next
  case False
  then show ?thesis by (auto simp: edit_if_modify_def intro: cleared.trail.rel_ret)
qed

lemma logs_act_and_edit:
  assumes "tool_executor (pl_tools pl)"
  shows "rel_eff (logs (cleared (pl_principal pl)))
    (bnd (act pl plan) (\<lambda>(obs, authorized).
       bnd (edit_if_modify pl plan obs authorized) (\<lambda>_. ret (f obs))))"
proof (rule rel_effI)
  fix s t :: "'a world" and res
  assume run: "bnd (act pl plan) (\<lambda>(obs, authorized).
       bnd (edit_if_modify pl plan obs authorized) (\<lambda>_. ret (f obs))) s = (res, t)"
  obtain q u where a: "act pl plan s = (q, u)" by force
  have l: "logs (cleared (pl_principal pl)) s u" by (rule rel_effD [OF logs_act [OF assms] a])
  show "logs (cleared (pl_principal pl)) s t"
  proof (cases q)
    case (Inl e)
    with run a l show ?thesis by simp
  next
    case (Inr oa)
    obtain obs auth where oa: "oa = (obs, auth)" by (cases oa)
    have "rel_eff (logs (cleared (pl_principal pl)))
        (bnd (edit_if_modify pl plan obs auth) (\<lambda>_. ret (f obs)))"
      using act_authorized [OF assms, of plan s obs u] a oa Inr
      by (intro cleared.trail.rel_bnd logs_edit_if_modify cleared.trail.rel_ret) auto
    then have "logs (cleared (pl_principal pl)) u t"
      by (rule rel_effD) (use run a Inr oa in simp)
    with l show ?thesis by (rule cleared.logs_trans)
  qed
qed

lemma logs_react_step:
  assumes "tool_executor (pl_tools pl)"
  shows "rel_eff (logs (cleared (pl_principal pl))) (react_step pl context)"
  unfolding react_step_def think_and_plan_def
  by (intro cleared.logs_intros cleared_events) 
    (auto split: prod.splits intro!: cleared.logs_intros cleared.logs_event cleared_events
      logs_act_and_edit [OF assms])

lemma logs_prepare_window: "rel_eff (logs (cleared pr)) (prepare_window pl i ctx)"
  unfolding prepare_window_def by (intro cleared.logs_intros cleared.logs_event cleared_events)

lemma logs_prepare_chunks: "rel_eff (logs (cleared pr)) (prepare_chunks i ctx)"
  unfolding prepare_chunks_def Let_def by (intro cleared.logs_intros)

lemma cleared_privileged:
  "cleared pr L \<Longrightarrow> L = U @ C_Tool tool arg # V \<Longrightarrow> action_permission tool = Some req \<Longrightarrow>
   has (perms pr) req \<and> (\<exists>U' ev. U = U' @ [C_Audit ev] \<and> audits pr req True ev)"
  unfolding cleared_def clearance_def by fastforce

lemma cleared_state_rel: "state_rel (logs (cleared pr))"
  by (rule cleared.trail.state_rel_axioms)

lemma logs_planner:
  assumes "tool_executor (pl_tools pl)"
  shows "rel_eff (logs (cleared (pl_principal pl))) (planner_run pl goal)"
    and "rel_eff (logs (cleared (pl_principal pl))) (run_with_context pl goal sources)"
  unfolding planner_run_def run_with_context_def
  by (intro rel_react_loop cleared_state_rel logs_react_step logs_prepare_window logs_prepare_chunks assms)+

text \<open>
  C1: the action boundary: in every run of the planner, with or without sources and whether it
  returns or fails, each run of a privileged tool is permitted by the principal's mask and comes
  directly after a granted audit record of that action in the principal's name; and no document
  is edited unless the mask has Modify.  That is the order of the code (\<open>authorize_and_record\<close> is
  called before \<open>run_tool\<close>); the documentation of audit.rs and the README have the record written
  after the action executed, so under the code a granted record does not say that the tool ran or
  succeeded.
\<close>

theorem planner_tools_cleared:
  assumes "tool_executor (pl_tools pl)"
    and "planner_run pl goal s = (res, t) \<or> run_with_context pl goal sources s = (res, t)"
  shows "\<exists>L. trail t = trail s @ L \<and>
    (\<forall>U tool arg V req. L = U @ C_Tool tool arg # V \<and> action_permission tool = Some req \<longrightarrow>
       has (perms (pl_principal pl)) req \<and>
       (\<exists>U' ev. U = U' @ [C_Audit ev] \<and> audits (pl_principal pl) req True ev)) \<and>
    (\<forall>e. C_Edit e \<in> set L \<longrightarrow> has (perms (pl_principal pl)) P_Modify)"
proof -
  have "logs (cleared (pl_principal pl)) s t"
    using assms(2) logs_planner [OF assms(1)] by (blast dest: rel_effD)
  then obtain L where "trail t = trail s @ L" and L: "cleared (pl_principal pl) L"
    by (auto simp: logs_def)
  moreover note cleared_privileged [OF L]
  moreover have "\<forall>e. C_Edit e \<in> set L \<longrightarrow> has (perms (pl_principal pl)) P_Modify"
    using L by (simp add: cleared_def)
  ultimately show ?thesis by blast
qed

text \<open>A concrete planner: a scripted model, the built-in tools, the CLI host.\<close>

definition scripted_llm :: "str \<Rightarrow> str \<Rightarrow> 'w llm" where
  "scripted_llm tool arg = \<lparr>llm_think = (\<lambda>_. ret ''t''),
     llm_plan_action = (\<lambda>_. ret \<lparr>plan_tool = tool, plan_argument = arg\<rparr>)\<rparr>"

definition demo_planner :: "str \<Rightarrow> str \<Rightarrow> 32 word \<Rightarrow> nat \<Rightarrow> docs planner" where
  "demo_planner tool arg m n = \<lparr>pl_llm = scripted_llm tool arg, pl_tools = basic_run,
     pl_validator = basic_validate n, pl_host = cli_host, pl_max_steps = n,
     pl_principal = principal_from_mask ''t'' ''u'' m, pl_sink = (\<lambda>_. ret ()), pl_clock = (\<lambda>_. 0)\<rparr>"

lemmas demo_defs = demo_planner_def scripted_llm_def planner_run_def prepare_window_def react_step_def
  think_and_plan_def act_def authorize_and_record_def record_audit_def edit_if_modify_def
  bridge_emit_event_def bridge_apply_edit_def external_def basic_run_def world0_def cli_host_def

lemma demo_executor: "tool_executor (pl_tools (demo_planner tool arg m n))"
  by (simp add: demo_planner_def basic.tool_executor_axioms)

lemma action_permission_commit: "action_permission ''commit'' = Some P_Commit"
  by (simp add: action_permission_def to_ascii_lowercase_def ascii_lower_def)

theorem planner_tools_cleared_witness:
  "let (res, t) = planner_run (demo_planner ''commit'' ''m'' 16 1) ''g'' (world0 Map.empty)
   in (\<exists>U V. trail t = U @ C_Tool ''commit'' ''m'' # V \<and>
        (\<exists>U' ev. U = U' @ [C_Audit ev] \<and> ev_action ev = A_Commit \<and> ev_granted ev))"
proof -
  let ?pl = "demo_planner ''commit'' ''m'' 16 1"
  obtain res t where run: "planner_run ?pl ''g'' (world0 Map.empty) = (res, t)" by force
  have granted: "has (ps_from_mask 16) P_Commit" by (simp add: has_def ps_from_mask_def)
  have "\<exists>U V. trail t = U @ C_Tool ''commit'' ''m'' # V"
    using run granted
    by (auto simp: demo_defs eff_simps action_permission_commit check_permission_def require_def
        basic_validate_def basic_observation_def intro: exI [of _ "[_, _, _, _, _]"]
        split: verdict.splits) 
  then obtain U V where split: "trail t = U @ C_Tool ''commit'' ''m'' # V" by blast
  from planner_tools_cleared [OF demo_executor disjI1 [OF run]] obtain L
    where "trail t = trail (world0 (Map.empty :: docs)) @ L" and cl: "\<forall>U tool arg V req.
      L = U @ C_Tool tool arg # V \<and> action_permission tool = Some req \<longrightarrow>
       has (perms (pl_principal ?pl)) req \<and>
       (\<exists>U' ev. U = U' @ [C_Audit ev] \<and> audits (pl_principal ?pl) req True ev)"
    by (elim exE conjE) (rule that)
  with split have "L = U @ C_Tool ''commit'' ''m'' # V" by (simp add: world0_def)
  with cl action_permission_commit
  obtain U' ev where "U = U' @ [C_Audit ev]" "audits (pl_principal ?pl) P_Commit True ev" by blast
  then have "\<exists>U' ev. U = U' @ [C_Audit ev] \<and> ev_action ev = A_Commit \<and> ev_granted ev"
    by (auto simp: audits_def)
  with split have "\<exists>U V. trail t = U @ C_Tool ''commit'' ''m'' # V \<and>
      (\<exists>U' ev. U = U' @ [C_Audit ev] \<and> ev_action ev = A_Commit \<and> ev_granted ev)" by blast
  with run show ?thesis by simp
qed

section \<open>The counters agree with what happened\<close>

definition is_audit :: "call \<Rightarrow> bool" where
  "is_audit c = (case c of C_Audit _ \<Rightarrow> True | _ \<Rightarrow> False)"

definition is_denial :: "call \<Rightarrow> bool" where
  "is_denial c = (case c of C_Audit ev \<Rightarrow> \<not> ev_granted ev | _ \<Rightarrow> False)"

definition is_think :: "call \<Rightarrow> bool" where
  "is_think c = (case c of C_Think _ \<Rightarrow> True | _ \<Rightarrow> False)"

definition tally :: "('a \<Rightarrow> bool) \<Rightarrow> 'a list \<Rightarrow> u64" where
  "tally P L = of_nat (length (filter P L))"

lemma tally_simps [simp]:
  "tally P [] = 0" "tally P (L @ M) = tally P L + tally P M"
  "tally P (c # L) = (if P c then 1 else 0) + tally P L"
  by (simp_all add: tally_def)

definition booked :: "'w world \<Rightarrow> 'w world \<Rightarrow> bool" where
  "booked s t \<longleftrightarrow> (\<exists>L. trail t = trail s @ L \<and>
     audit_events_total (w_metrics t) = audit_events_total (w_metrics s) + tally is_audit L \<and>
     denials_total (w_metrics t) = denials_total (w_metrics s) + tally is_denial L \<and>
     tool_calls_total (w_metrics t) = tool_calls_total (w_metrics s) + tally is_tool L \<and>
     llm_calls_total (w_metrics t) = llm_calls_total (w_metrics s) + tally is_think L) \<and>
   requests_total (w_metrics t) = requests_total (w_metrics s) \<and>
   completions_total (w_metrics t) = completions_total (w_metrics s) \<and>
   request_latency (w_metrics t) = request_latency (w_metrics s)"

lemma bookedI:
  assumes "trail t = trail s @ L"
    "audit_events_total (w_metrics t) = audit_events_total (w_metrics s) + tally is_audit L"
    "denials_total (w_metrics t) = denials_total (w_metrics s) + tally is_denial L"
    "tool_calls_total (w_metrics t) = tool_calls_total (w_metrics s) + tally is_tool L"
    "llm_calls_total (w_metrics t) = llm_calls_total (w_metrics s) + tally is_think L"
    "requests_total (w_metrics t) = requests_total (w_metrics s)"
    "completions_total (w_metrics t) = completions_total (w_metrics s)"
    "request_latency (w_metrics t) = request_latency (w_metrics s)"
  shows "booked s t"
  using assms unfolding booked_def by blast

interpretation booked: state_rel booked
proof
  fix s t u :: "'a world"
  show "booked s s" by (rule bookedI [of _ _ "[]"]) simp_all
  assume "booked s t" "booked t u"
  then obtain L M where
    "trail t = trail s @ L" "trail u = trail t @ M"
    "audit_events_total (w_metrics t) = audit_events_total (w_metrics s) + tally is_audit L"
    "denials_total (w_metrics t) = denials_total (w_metrics s) + tally is_denial L"
    "tool_calls_total (w_metrics t) = tool_calls_total (w_metrics s) + tally is_tool L"
    "llm_calls_total (w_metrics t) = llm_calls_total (w_metrics s) + tally is_think L"
    "audit_events_total (w_metrics u) = audit_events_total (w_metrics t) + tally is_audit M"
    "denials_total (w_metrics u) = denials_total (w_metrics t) + tally is_denial M"
    "tool_calls_total (w_metrics u) = tool_calls_total (w_metrics t) + tally is_tool M"
    "llm_calls_total (w_metrics u) = llm_calls_total (w_metrics t) + tally is_think M"
    "requests_total (w_metrics t) = requests_total (w_metrics s)"
    "requests_total (w_metrics u) = requests_total (w_metrics t)"
    "completions_total (w_metrics t) = completions_total (w_metrics s)"
    "completions_total (w_metrics u) = completions_total (w_metrics t)"
    "request_latency (w_metrics t) = request_latency (w_metrics s)"
    "request_latency (w_metrics u) = request_latency (w_metrics t)"
    unfolding booked_def by blast
  then show "booked s u" by (intro bookedI [of _ _ "L @ M"]) simp_all
qed

text \<open>Calls that no counter is about.\<close>

definition uncounted :: "call \<Rightarrow> bool" where
  "uncounted c \<longleftrightarrow> \<not> is_audit c \<and> \<not> is_tool c \<and> \<not> is_think c"

lemma uncounted_calls [simp]:
  "uncounted (C_Event ev)" "uncounted (C_Plan x)" "uncounted (C_Edit e)"
  by (simp_all add: uncounted_def is_audit_def is_tool_def is_think_def)

lemma tally_uncounted:
  assumes "list_all uncounted L"
  shows "tally is_audit L = 0 \<and> tally is_denial L = 0 \<and> tally is_tool L = 0 \<and> tally is_think L = 0"
  using assms
  by (induction L) (auto simp: uncounted_def is_audit_def is_denial_def split: call.splits)

lemma booked_uncounted:
  assumes "trail t = trail s @ L" "w_metrics t = w_metrics s" "list_all uncounted L"
  shows "booked s t"
  using assms tally_uncounted [OF assms(3)] by (intro bookedI [of _ _ L]) simp_all

lemma booked_mark: "uncounted c \<Longrightarrow> rel_eff booked (mark c)"
  by (rule rel_effI) (auto simp: mark_app intro: booked_uncounted [of _ _ "[c]"])

lemma booked_external: "rel_eff booked (external f)"
  by (rule rel_effI) (auto simp: external_def split: prod.splits intro: booked_uncounted [of _ _ "[]"])

lemma booked_event: "rel_eff booked (bridge_emit_event h ev)"
  unfolding bridge_emit_event_def
  by (intro booked.rel_bnd booked_mark booked.rel_modify) (auto intro: booked_uncounted [of _ _ "[]"])

lemma booked_edit: "rel_eff booked (edit_if_modify pl plan obs a)"
  unfolding edit_if_modify_def bridge_apply_edit_def
  by (intro booked.rel_intros booked_mark booked_external) simp_all

lemma booked_think: "rel_eff booked (think_and_plan pl context)"
proof (rule rel_effI)
  fix s t :: "'a world" and r assume run: "think_and_plan pl context s = (r, t)"
  let ?s = "s\<lparr>w_metrics := inc_llm_calls (w_metrics s), trail := trail s @ [C_Think context]\<rparr>"
  let ?rest = "bnd (external (llm_think (pl_llm pl) context)) (\<lambda>thought.
     bnd (mark (C_Plan thought)) (\<lambda>_.
     bnd (external (llm_plan_action (pl_llm pl) thought)) (\<lambda>plan. ret (thought, plan))))"
  have "?rest ?s = (r, t)" using run by (simp add: think_and_plan_def eff_simps)
  moreover have "rel_eff booked ?rest"
    by (intro booked.rel_intros booked_external booked_mark) simp
  ultimately have "booked ?s t" by (auto dest: rel_effD)
  moreover have "booked s ?s"
    by (rule bookedI [of _ _ "[C_Think context]"])
      (simp_all add: metric_defs is_audit_def is_denial_def is_tool_def is_think_def)
  ultimately show "booked s t" by (rule booked.rel_trans [rotated])
qed

lemma tally_clearance:
  "clearance pr tool A \<Longrightarrow> tally is_audit A = (if A = [] then 0 else 1) \<and> tally is_denial A = 0 \<and>
     tally is_tool A = 0 \<and> tally is_think A = 0"
  by (auto simp: clearance_def audits_def is_audit_def is_denial_def is_tool_def is_think_def
      split: option.splits)

lemma executor_uncounted: "list_all executor_call L \<Longrightarrow> list_all uncounted L"
  by (auto simp: list_all_iff executor_call_def uncounted_def is_audit_def is_tool_def is_think_def
      split: call.splits)

lemma booked_act:
  assumes "tool_executor (pl_tools pl)"
  shows "rel_eff booked (act pl plan)"
proof (rule rel_effI)
  fix s t :: "'a world" and res assume run: "act pl plan s = (res, t)"
  show "booked s t"
  proof (cases rule: act_cases [OF assms run])
    case (1 req ev)
    then show ?thesis
      by (intro bookedI [of _ _ "[C_Audit ev, C_Event (Status (''permission denied: '' @ plan_tool plan))]"])
        (simp_all add: metric_defs audits_def is_audit_def is_denial_def is_tool_def is_think_def)
  next
    case (2 A L u r)
    with tally_clearance [OF 2(1)] tally_uncounted [OF executor_uncounted [OF 2(3)]]
    show ?thesis
      by (intro bookedI [of _ _ "A @ C_Tool (plan_tool plan) (plan_argument plan) # L"])
        (simp_all add: metric_defs is_audit_def is_denial_def is_tool_def is_think_def)
  qed
qed

lemma booked_react_step: "tool_executor (pl_tools pl) \<Longrightarrow> rel_eff booked (react_step pl c)"
  unfolding react_step_def
  by (intro booked.rel_bnd booked_think)
    (auto split: prod.splits intro!: booked.rel_bnd booked_event booked_act booked_edit booked.rel_ret)

lemma booked_planner:
  assumes "tool_executor (pl_tools pl)"
  shows "rel_eff booked (planner_run pl goal)" and "rel_eff booked (run_with_context pl goal sources)"
proof -
  have prep: "rel_eff booked (prepare_window pl i ctx)" "rel_eff booked (prepare_chunks i ctx)" for i ctx
    unfolding prepare_window_def prepare_chunks_def Let_def
    by (intro booked.rel_intros booked_event)+
  note loop = rel_react_loop [OF booked.state_rel_axioms _ booked_react_step [OF assms]]
  show "rel_eff booked (planner_run pl goal)" "rel_eff booked (run_with_context pl goal sources)"
    unfolding planner_run_def run_with_context_def by (intro loop prep)+
qed

text \<open>
  C7: what the observability counters count: whatever a run returns, the increases are the numbers of
  audit records written, of denied ones among them, of tools the planner runs, and of think questions,
  modulo the 64-bit wrap.  The plan question that follows a think, the repair questions of the
  self-healer and its repeated runs of a tool are in no counter, although the exported help texts call
  the last two counters tool executions and think or plan invocations (metrics.rs).
\<close>

theorem planner_metrics_agree:
  assumes "tool_executor (pl_tools pl)"
    and "planner_run pl goal s = (res, t) \<or> run_with_context pl goal sources s = (res, t)"
  shows "\<exists>L. trail t = trail s @ L \<and>
     audit_events_total (w_metrics t) = audit_events_total (w_metrics s) + of_nat (length (filter is_audit L)) \<and>
     denials_total (w_metrics t) = denials_total (w_metrics s) + of_nat (length (filter is_denial L)) \<and>
     tool_calls_total (w_metrics t) = tool_calls_total (w_metrics s) + of_nat (length (filter is_tool L)) \<and>
     llm_calls_total (w_metrics t) = llm_calls_total (w_metrics s) + of_nat (length (filter is_think L))"
proof -
  have "booked s t"
    using assms(2) booked_planner [OF assms(1)] by (blast dest: rel_effD)
  then show ?thesis by (simp add: booked_def tally_def)
qed

theorem planner_metrics_agree_witness:
  "let t = snd (planner_run (demo_planner ''commit'' ''m'' 16 1) ''g'' (world0 Map.empty))
   in audit_events_total (w_metrics t) = of_nat (length (filter is_audit (trail t))) \<and>
      tool_calls_total (w_metrics t) = of_nat (length (filter is_tool (trail t)))"
proof -
  obtain res and t :: "docs world"
    where run: "planner_run (demo_planner ''commit'' ''m'' 16 1) ''g'' (world0 Map.empty) = (res, t)"
    by force
  from planner_metrics_agree [OF demo_executor disjI1 [OF run]] show ?thesis
    using run by (auto simp: world0_def metrics_new_def)
qed

section \<open>Bounds and the final answer\<close>

text \<open>
  The tools the planner runs; what the executor under it does with one (the self-healer runs it again)
  is bounded in the theory Quest.
\<close>

definition tool_runs :: "'w world \<Rightarrow> nat" where
  "tool_runs w = length (filter is_tool (trail w))"

lemma no_tool_property: "log_property (list_all (\<lambda>c. \<not> is_tool c))"
  by unfold_locales auto

interpretation no_tool: log_property "list_all (\<lambda>c. \<not> is_tool c)"
  by (rule no_tool_property)

lemma no_tool_runs: "logs (list_all (\<lambda>c. \<not> is_tool c)) s t \<Longrightarrow> tool_runs t = tool_runs s"
  by (auto simp: logs_def tool_runs_def filter_empty_conv list_all_iff)

lemma not_tool_calls [simp]:
  "\<not> is_tool (C_Event ev)" "\<not> is_tool (C_Plan x)" "\<not> is_tool (C_Edit e)" "\<not> is_tool (C_Think c)"
  "\<not> is_tool (C_Audit a)" "is_tool (C_Tool x y)"
  by (simp_all add: is_tool_def)

text \<open>At most \<open>k\<close> tools run.\<close>

definition tools_le :: "nat \<Rightarrow> ('w, 'e, 'a) run \<Rightarrow> bool" where
  "tools_le k m \<longleftrightarrow> (\<forall>s. tool_runs (snd (m s)) \<le> tool_runs s + k)"

lemma tools_le_bnd:
  assumes "tools_le j m" "\<And>x. tools_le k (f x)"
  shows "tools_le (j + k) (bnd m f)"
  unfolding tools_le_def
proof
  fix s
  obtain r t where m: "m s = (r, t)" by force
  have t: "tool_runs t \<le> tool_runs s + j" using assms(1) m unfolding tools_le_def by (metis snd_conv)
  show "tool_runs (snd (bnd m f s)) \<le> tool_runs s + (j + k)"
  proof (cases r)
    case (Inl e)
    with m t show ?thesis by simp
  next
    case (Inr x)
    have "tool_runs (snd (f x t)) \<le> tool_runs t + k" using assms(2) by (simp add: tools_le_def)
    with m t Inr show ?thesis by simp
  qed
qed

lemma tools_le_ret: "tools_le k (ret x)"
  by (simp add: tools_le_def)

lemma tools_le_free: "tools_le 0 m \<Longrightarrow> (\<And>x. tools_le k (f x)) \<Longrightarrow> tools_le k (bnd m f)"
  using tools_le_bnd [of 0 m k f] by simp

lemma tools_le_one: "tools_le 1 m \<Longrightarrow> (\<And>x. tools_le k (f x)) \<Longrightarrow> tools_le (Suc k) (bnd m f)"
  using tools_le_bnd [of 1 m k f] by simp

lemma tools_le_pair: "(\<And>a b. tools_le k (f a b)) \<Longrightarrow> tools_le k (case x of (a, b) \<Rightarrow> f a b)"
  by (cases x) simp

lemma no_tools: "rel_eff (logs (list_all (\<lambda>c. \<not> is_tool c))) m \<Longrightarrow> tools_le k m"
  unfolding tools_le_def rel_eff_def by (metis le_add1 no_tool_runs)

lemma tools_le_act:
  assumes "tool_executor (pl_tools pl)"
  shows "tools_le 1 (act pl plan)"
  unfolding tools_le_def
proof
  fix s
  obtain res t where run: "act pl plan s = (res, t)" by force
  show "tool_runs (snd (act pl plan s)) \<le> tool_runs s + 1"
  proof (cases rule: act_cases [OF assms run])
    case (2 A L u r)
    have "filter is_tool A = []" using 2(1) by (auto simp: clearance_def split: option.splits)
    moreover have "filter is_tool L = []"
      using 2(3) by (auto simp: filter_empty_conv list_all_iff executor_call_def is_tool_def split: call.splits)
    ultimately show ?thesis by (simp add: run tool_runs_def 2(2))
  qed (simp add: run tool_runs_def)
qed

lemma no_tool_rest:
  "rel_eff (logs (list_all (\<lambda>c. \<not> is_tool c))) (think_and_plan pl context)"
  "rel_eff (logs (list_all (\<lambda>c. \<not> is_tool c))) (bridge_emit_event h ev)"
  "rel_eff (logs (list_all (\<lambda>c. \<not> is_tool c))) (edit_if_modify pl plan obs a)"
  "rel_eff (logs (list_all (\<lambda>c. \<not> is_tool c))) (prepare_window pl i ctx)"
  "rel_eff (logs (list_all (\<lambda>c. \<not> is_tool c))) (prepare_chunks i ctx)"
  unfolding think_and_plan_def edit_if_modify_def prepare_window_def prepare_chunks_def Let_def
  by (intro no_tool.logs_intros no_tool.logs_event no_tool.logs_edit; simp)+

lemma tools_le_react_step:
  assumes "tool_executor (pl_tools pl)"
  shows "tools_le 1 (react_step pl c)"
  unfolding react_step_def One_nat_def
  by (intro tools_le_free [OF no_tools [OF no_tool_rest(1)]] tools_le_pair
      tools_le_free [OF no_tools [OF no_tool_rest(2)]] tools_le_one [OF tools_le_act [OF assms]]
      tools_le_free [OF no_tools [OF no_tool_rest(3)]] tools_le_ret)

lemma tools_le_react_loop:
  assumes "tool_executor (pl_tools pl)" "\<And>i ctx. tools_le 0 (prepare i ctx)"
  shows "tools_le n (react_loop pl prepare n i ctx sts)"
proof (induction n arbitrary: i ctx sts)
  case 0
  show ?case unfolding react_loop.simps by (rule tools_le_ret)
next
  case (Suc n)
  have verdict: "tools_le n (case v of V_Continue \<Rightarrow> react_loop pl prepare n j c ss
      | V_Done \<Rightarrow> ret x | V_BudgetExhausted \<Rightarrow> ret y)" for v j c ss x y
    by (cases v) (simp_all add: Suc.IH tools_le_ret del: ret_def)
  show ?case
    unfolding react_loop.simps
    by (intro tools_le_free [OF assms(2)] tools_le_pair tools_le_one [OF tools_le_react_step [OF assms(1)]] verdict)
qed

lemma react_step_observation:
  "react_step pl c s = (Inr (st, obs), t) \<Longrightarrow> st_observation st = obs_output obs"
  by (auto simp: react_step_def bnd_eq_Inr split: prod.splits)

text \<open>How a finished loop's answer relates to its steps, for the validator with budget \<open>k\<close>.\<close>

lemma react_loop_answer:
  assumes val: "pl_validator pl = basic_validate k"
  shows "react_loop pl prepare n i ctx sts s = (Inr tr, t) \<Longrightarrow>
    \<exists>new. steps tr = sts @ new \<and> length new \<le> n \<and>
      ((final_answer tr = [] \<and> length new = n \<and> (n = 0 \<or> i + n < k)) \<or>
       (new \<noteq> [] \<and> final_answer tr = st_observation (last new)) \<or>
       (final_answer tr = ''budget exhausted'' \<and> i + length new = max k (i + 1)))"
proof (induction n arbitrary: i ctx sts s)
  case 0
  then show ?case by (intro exI [of _ "[]"]) auto
next
  case (Suc n)
  from Suc.prems obtain c ctx' s1 st obs s2 where
    step: "react_step pl c s1 = (Inr (st, obs), s2)" and
    rest: "(case pl_validator pl obs (i + 1) of
       V_Continue \<Rightarrow> react_loop pl prepare n (i + 1) (cm_push (obs_output obs) ctx') (sts @ [st])
     | V_Done \<Rightarrow> ret \<lparr>steps = sts @ [st], final_answer = obs_output obs\<rparr>
     | V_BudgetExhausted \<Rightarrow> ret \<lparr>steps = sts @ [st], final_answer = ''budget exhausted''\<rparr>) s2 = (Inr tr, t)"
    by (auto simp: bnd_eq_Inr split: prod.splits)
  note obs = react_step_observation [OF step]
  show ?case
  proof (cases "pl_validator pl obs (i + 1)")
    case V_Done
    with rest obs show ?thesis by (intro exI [of _ "[st]"]) auto
  next
    case V_BudgetExhausted
    then have "k \<le> i + 1" using val by (auto simp: basic_validate_def split: if_splits)
    with rest V_BudgetExhausted show ?thesis by (intro exI [of _ "[st]"]) (auto simp: max_def)
  next
    case V_Continue
    then have lt: "i + 1 < k" using val by (auto simp: basic_validate_def split: if_splits)
    from rest V_Continue
    have "react_loop pl prepare n (i + 1) (cm_push (obs_output obs) ctx') (sts @ [st]) s2 = (Inr tr, t)"
      by simp
    from Suc.IH [OF this] obtain new where new: "steps tr = (sts @ [st]) @ new" "length new \<le> n"
      "(final_answer tr = [] \<and> length new = n \<and> (n = 0 \<or> i + 1 + n < k)) \<or>
       (new \<noteq> [] \<and> final_answer tr = st_observation (last new)) \<or>
       (final_answer tr = ''budget exhausted'' \<and> i + 1 + length new = max k (i + 1 + 1))" by blast
    with lt show ?thesis
      by (intro exI [of _ "st # new"]) auto
  qed
qed

text \<open>
  A planner run is bounded: it calls its executor at most \<open>max_steps\<close> times, whatever the model, the tools,
  the validator and the host do and whether it returns or fails; and a returned trace has at most
  \<open>max_steps\<close> steps.  With the budget validator the answer is the last observation, or
  "budget exhausted" after exactly \<open>max k 1\<close> steps; it is left empty exactly when the loop's own
  range ends first, which needs no steps at all or a validator budget above \<open>max_steps\<close>.
\<close>

theorem planner_bounded:
  assumes "tool_executor (pl_tools pl)" and "planner_run pl goal s = (res, t)"
    and "pl_validator pl = basic_validate k"
  shows "tool_runs t \<le> tool_runs s + pl_max_steps pl \<and>
    (case res of Inl _ \<Rightarrow> True
     | Inr tr \<Rightarrow> length (steps tr) \<le> pl_max_steps pl \<and>
         ((steps tr \<noteq> [] \<and> final_answer tr = st_observation (last (steps tr))) \<or>
          (final_answer tr = ''budget exhausted'' \<and> length (steps tr) = max k 1) \<or>
          (final_answer tr = [] \<and> length (steps tr) = pl_max_steps pl \<and>
             (pl_max_steps pl = 0 \<or> pl_max_steps pl < k))))"
proof -
  have "tools_le (pl_max_steps pl) (planner_run pl goal)"
    unfolding planner_run_def
    by (intro tools_le_react_loop assms(1) no_tools no_tool_rest(4))
  then have "tool_runs t \<le> tool_runs s + pl_max_steps pl"
    using assms(2) by (metis snd_conv tools_le_def)
  moreover have "length (steps tr) \<le> pl_max_steps pl \<and>
         ((steps tr \<noteq> [] \<and> final_answer tr = st_observation (last (steps tr))) \<or>
          (final_answer tr = ''budget exhausted'' \<and> length (steps tr) = max k 1) \<or>
          (final_answer tr = [] \<and> length (steps tr) = pl_max_steps pl \<and>
             (pl_max_steps pl = 0 \<or> pl_max_steps pl < k)))" if "res = Inr tr" for tr
    using react_loop_answer [OF assms(3), of "prepare_window pl" "pl_max_steps pl" 0 _ "[]" s tr t]
      assms(2) that
    by (auto simp: planner_run_def)
  ultimately show ?thesis by (cases res) auto
qed

theorem planner_bounded_witness:
  "let (res, t) = planner_run (demo_planner ''inspect'' ''m'' 0 3) ''g'' (world0 Map.empty)
   in tool_runs t \<le> 3"
proof -
  obtain res and t :: "docs world"
    where run: "planner_run (demo_planner ''inspect'' ''m'' 0 3) ''g'' (world0 Map.empty) = (res, t)"
    by force
  have "pl_validator (demo_planner ''inspect'' ''m'' 0 3) = basic_validate 3"
    by (simp add: demo_planner_def)
  from planner_bounded [OF demo_executor run this] run show ?thesis
    by (simp add: tool_runs_def world0_def demo_planner_def)
qed

section \<open>Errors\<close>

text \<open>A computation that always succeeds.\<close>

definition succeeds :: "('s, 'e, 'a) eff \<Rightarrow> bool" where
  "succeeds m \<longleftrightarrow> (\<forall>s. \<exists>x t. m s = (Inr x, t))"

lemma succeeds_ret: "succeeds (ret x)"
  by (simp add: succeeds_def)

lemma succeeds_bnd: "succeeds m \<Longrightarrow> (\<And>x. succeeds (f x)) \<Longrightarrow> succeeds (bnd m f)"
  unfolding succeeds_def by (metis bnd_Inr)

lemma succeeds_handle: "(\<And>e. succeeds (g e)) \<Longrightarrow> (\<And>x. succeeds (f x)) \<Longrightarrow> succeeds (handle m g f)"
  unfolding succeeds_def
  by (metis handle_Inl handle_Inr old.sum.exhaust prod.collapse)

lemma succeeds_external: "succeeds f \<Longrightarrow> succeeds (external f)"
  unfolding succeeds_def external_def by (metis case_prod_conv)

lemma succeeds_prim: "succeeds (mark c)" "succeeds (count_metric h)" "succeeds (bridge_emit_event hp ev)"
  by (simp_all add: succeeds_def mark_def count_metric_def bridge_emit_event_def bnd_app)

lemma succeeds_pair: "(\<And>a b. succeeds (f a b)) \<Longrightarrow> succeeds (case x of (a, b) \<Rightarrow> f a b)"
  by (cases x) simp

lemmas succeeds_intros = succeeds_ret succeeds_bnd succeeds_handle succeeds_external succeeds_prim
  succeeds_pair

lemma succeeds_react_loop:
  assumes "\<And>i ctx. succeeds (prepare i ctx)" "\<And>c. succeeds (react_step pl c)"
  shows "succeeds (react_loop pl prepare n i ctx sts)"
proof (induction n arbitrary: i ctx sts)
  case 0
  show ?case unfolding react_loop.simps by (rule succeeds_ret)
next
  case (Suc n)
  have "succeeds (case v of V_Continue \<Rightarrow> react_loop pl prepare n j c ss
      | V_Done \<Rightarrow> ret x | V_BudgetExhausted \<Rightarrow> ret y)" for v j c ss x y
    by (cases v) (simp_all add: Suc.IH succeeds_ret del: ret_def)
  then show ?case
    unfolding react_loop.simps by (intro succeeds_bnd succeeds_pair assms)
qed

text \<open>
  Errors are contained: only the model and the tools can make a run fail.  If they do not, a
  run returns a trace whatever the mask denies, the audit sink loses or the host refuses.
\<close>

theorem planner_errors_contained:
  assumes "\<forall>c. succeeds (llm_think (pl_llm pl) c)" and "\<forall>t. succeeds (llm_plan_action (pl_llm pl) t)"
    and "\<forall>tool arg. succeeds (pl_tools pl tool arg)"
  shows "\<exists>tr t. planner_run pl goal s = (Inr tr, t)"
proof -
  have "succeeds (act pl plan)" for plan
    unfolding act_def using assms(3) by (intro succeeds_intros) simp
  moreover have "succeeds (edit_if_modify pl plan obs a)" for plan obs a
    by (auto simp: edit_if_modify_def intro: succeeds_intros)
  moreover have "succeeds (think_and_plan pl c)" for c
    unfolding think_and_plan_def using assms(1,2) by (intro succeeds_intros) simp_all
  ultimately have "succeeds (react_step pl c)" for c
    unfolding react_step_def by (intro succeeds_intros)
  moreover have "succeeds (prepare_window pl i ctx)" for i ctx
    unfolding prepare_window_def by (intro succeeds_intros)
  ultimately have "succeeds (planner_run pl goal)"
    unfolding planner_run_def by (intro succeeds_react_loop)
  then show ?thesis by (simp add: succeeds_def)
qed

theorem planner_errors_contained_witness:
  "\<exists>tr t. planner_run (demo_planner ''commit'' ''m'' 0 2\<lparr>pl_sink := \<lambda>_. throw ''down''\<rparr>) ''g''
     (world0 Map.empty) = (Inr tr, t)"
  by (rule planner_errors_contained)
    (simp_all add: demo_planner_def scripted_llm_def basic_run_def succeeds_ret)

text \<open>
  A denied action: when the mask lacks the right a tool needs, the action runs no tool and
  edits nothing; it bumps the denial counter, writes one audit record with \<open>granted = false\<close>, tells the
  host, and goes on with a non-terminal observation that says so.
\<close>

theorem denied_action_effect:
  assumes "action_permission (plan_tool plan) = Some req" and "req \<notin> granted (perms (pl_principal pl))"
  shows "\<exists>ev e'. act pl plan s = (Inr (denied_observation (plan_tool plan), False),
      s\<lparr>w_metrics := inc_audit_events (inc_denials (w_metrics s)),
        trail := trail s @ [C_Audit ev, C_Event (Status (''permission denied: '' @ plan_tool plan))],
        env := e'\<rparr>) \<and>
    audits (pl_principal pl) req False ev \<and>
    edit_if_modify pl plan (denied_observation (plan_tool plan)) False = ret () \<and>
    \<not> obs_terminal (denied_observation (plan_tool plan))"
proof -
  have no: "\<not> has (perms (pl_principal pl)) req" using assms(2) by (simp add: granted_def)
  show ?thesis
  proof (cases rule: authorize_cases [of "plan_tool plan" pl s])
    case (denied req' ev e')
    with assms(1) show ?thesis
      by (intro exI [of _ ev]) (auto simp: act_def eff_simps bridge_emit_event_def edit_if_modify_def
          denied_observation_def)
  qed (use assms no in auto)
qed

theorem denied_action_effect_witness:
  "\<exists>t. act (demo_planner ''commit'' ''m'' 0 1) \<lparr>plan_tool = ''commit'', plan_argument = ''m''\<rparr>
     (world0 Map.empty) = (Inr (denied_observation ''commit'', False), t) \<and>
     denials_total (w_metrics t) = 1"
proof -
  let ?plan = "\<lparr>plan_tool = ''commit'', plan_argument = ''m''\<rparr>"
  have "P_Commit \<notin> granted (perms (pl_principal (demo_planner ''commit'' ''m'' 0 1)))"
    by (simp add: demo_planner_def granted_def has_def ps_from_mask_def)
  from denied_action_effect [of ?plan P_Commit, OF _ this, of "world0 Map.empty"]
  show ?thesis by (auto simp: action_permission_commit world0_def metrics_new_def metric_defs)
qed

section \<open>Any relation, any executor\<close>

definition permitted :: "principal \<Rightarrow> str \<Rightarrow> bool" where
  "permitted pr tool \<longleftrightarrow> (\<forall>req. action_permission tool = Some req \<longrightarrow> has (perms pr) req)"

lemma authorize_permitted:
  "authorize_and_record pl tool s = (Inr u, t) \<Longrightarrow> permitted (pl_principal pl) tool"
  by (cases rule: authorize_cases [of tool pl s]) (auto simp: permitted_def)

text \<open>
  A relation between worlds that the planner's own calls, the counters and the environment keep
  one by one, and that every permitted run of a tool keeps, is kept by a whole run.
\<close>

lemma planner_rel:
  fixes R :: "'w world \<Rightarrow> 'w world \<Rightarrow> bool"
  assumes R: "state_rel R"
    and own: "\<And>c s. \<not> executor_call c \<Longrightarrow> R s (s\<lparr>trail := trail s @ [c]\<rparr>)"
    and counters: "\<And>m s. R s (s\<lparr>w_metrics := m\<rparr>)"
    and world: "\<And>e s. R s (s\<lparr>env := e\<rparr>)"
    and tools: "\<And>tool arg. permitted (pl_principal pl) tool \<Longrightarrow> rel_eff R (pl_tools pl tool arg)"
  shows "rel_eff R (planner_run pl goal)" "rel_eff R (run_with_context pl goal sources)"
proof -
  note rules = state_rel.rel_ret [OF R] state_rel.rel_throw [OF R] state_rel.rel_gets [OF R]
    state_rel.rel_bnd [OF R] state_rel.rel_handle [OF R] state_rel.rel_if [OF R]
  have mark: "rel_eff R (mark c :: ('w, 'x, unit) run)" if "\<not> executor_call c" for c
    using own that by (intro rel_effI) (auto simp: mark_app)
  have count: "rel_eff R (count_metric f :: ('w, 'x, unit) run)" for f
    using counters by (intro rel_effI) (auto simp: count_metric_app)
  have ext: "rel_eff R (external g :: ('w, 'x, 'y) run)" for g
    using world by (intro rel_effI) (auto simp: external_def split: prod.splits)
  have event: "rel_eff R (bridge_emit_event h ev :: ('w, 'x, unit) run)" for h ev
    unfolding bridge_emit_event_def
    by (intro rules mark state_rel.rel_modify [OF R] world) (simp add: executor_call_def)
  have auth: "rel_eff R (authorize_and_record pl tool)" for tool
    unfolding authorize_and_record_def record_audit_def
    by (auto split: option.splits sum.splits intro!: rules mark count ext simp: executor_call_def)
  have act: "rel_eff R (act pl plan)" for plan
    unfolding act_def
  proof (rule state_rel.rel_handle_ok [OF R auth])
    fix s u t assume "authorize_and_record pl (plan_tool plan) s = (Inr u, t)"
    then show "rel_eff R (bnd (count_metric inc_tool_calls) (\<lambda>_.
            bnd (mark (C_Tool (plan_tool plan) (plan_argument plan))) (\<lambda>_.
            bnd (pl_tools pl (plan_tool plan) (plan_argument plan)) (\<lambda>obs. ret (obs, True)))))"
      by (intro rules count mark tools authorize_permitted) (auto simp: executor_call_def)
  qed (intro rules event)
  have edit: "rel_eff R (edit_if_modify pl plan obs a)" for plan obs a
    unfolding edit_if_modify_def bridge_apply_edit_def
    by (intro rules mark ext) (simp add: executor_call_def)
  have think: "rel_eff R (think_and_plan pl c)" for c
    unfolding think_and_plan_def by (intro rules mark count ext) (simp_all add: executor_call_def)
  have step: "rel_eff R (react_step pl c)" for c
    unfolding react_step_def
    by (intro rules think) (auto split: prod.splits intro!: rules event act edit)
  have prep: "rel_eff R (prepare_window pl i ctx)" "rel_eff R (prepare_chunks i ctx)" for i ctx
    unfolding prepare_window_def prepare_chunks_def Let_def by (intro rules event)+
  note loop = rel_react_loop [OF R _ step]
  show "rel_eff R (planner_run pl goal)" "rel_eff R (run_with_context pl goal sources)"
    unfolding planner_run_def run_with_context_def by (intro loop prep)+
qed

context log_property
begin

lemma planner_logs:
  assumes own: "\<And>c. \<not> executor_call c \<Longrightarrow> Q [c]"
    and tools: "\<And>tool arg. rel_eff (logs Q) (pl_tools pl tool arg)"
  shows "rel_eff (logs Q) (planner_run pl goal)" "rel_eff (logs Q) (run_with_context pl goal sources)"
  by (rule planner_rel [OF trail.state_rel_axioms]; use own tools Q_Nil in \<open>auto simp: logs_def\<close>)+

end

end
