(* ===== verification/Quest.thy ===== *)
theory Quest
  imports Planner
begin

text \<open>
  The autonomous agent (crates/core/src/quest.rs): goal decomposition, one planner run per subtask
  over a self-healing executor behind the approval gate, retries, and the report.
\<close>

section \<open>Subtasks and their decomposition\<close>

datatype subtask_status = ST_Pending | ST_Running | ST_Success | ST_Failed | ST_Skipped

primrec status_str :: "subtask_status \<Rightarrow> str" where
  "status_str ST_Pending = ''pending''"
| "status_str ST_Running = ''running''"
| "status_str ST_Success = ''success''"
| "status_str ST_Failed = ''failed''"
| "status_str ST_Skipped = ''skipped''"

record subtask =
  st_id :: str
  st_description :: str
  st_status :: subtask_status

definition subtask_new :: "str \<Rightarrow> str \<Rightarrow> subtask" where
  "subtask_new i d = \<lparr>st_id = i, st_description = d, st_status = ST_Pending\<rparr>"

definition decomposition_prompt :: "str \<Rightarrow> str" where
  "decomposition_prompt goal =
     ''Decompose the following high-level goal into an ordered list of small, '' @
     ''independently-executable subtasks.'' @ [CHR 0x0A] @ ''Goal: '' @ goal @ [CHR 0x0A] @
     ''Reply with one subtask per line, prefixed with its index, e.g.'' @ [CHR 0x0A] @
     ''1. first step'' @ [CHR 0x0A] @ ''2. second step'' @ [CHR 0x0A] @ ''3. third step''"

definition is_separator :: "char \<Rightarrow> bool" where
  "is_separator c \<longleftrightarrow> c = CHR ''.'' \<or> c = CHR '')'' \<or> c = CHR ''-''"

text \<open>The description of a numbered line, if the line is one.\<close>

definition numbered_desc :: "str \<Rightarrow> str option" where
  "numbered_desc line0 =
     (let line = trim line0 in
      if line = [] then None
      else case split_once is_separator line of
             None \<Rightarrow> None
           | Some (head0, rest) \<Rightarrow>
               let head = trim head0; desc = trim rest in
               if head \<noteq> [] \<and> list_all is_digit head \<and> desc \<noteq> [] then Some desc else None)"

fun parse_lines :: "str list \<Rightarrow> subtask list \<Rightarrow> subtask list" where
  "parse_lines [] out = out"
| "parse_lines (l # ls) out =
     (case numbered_desc l of
        None \<Rightarrow> parse_lines ls out
      | Some d \<Rightarrow> parse_lines ls (out @ [subtask_new (''st-'' @ show_nat (length out + 1)) d]))"

definition parse_subtasks :: "str \<Rightarrow> str \<Rightarrow> subtask list" where
  "parse_subtasks text goal =
     (let out = parse_lines (str_lines text) [] in
      if out = [] then [subtask_new ''st-1'' goal] else out)"

text \<open>A decomposer cannot fail; on a model failure the goal is its only subtask.\<close>

type_synonym 'w decomposer = "str \<Rightarrow> 'w world \<Rightarrow> subtask list \<times> 'w world"

definition llm_decompose :: "'w llm \<Rightarrow> 'w decomposer" where
  "llm_decompose llm goal w =
     (case bnd (mark (C_Repair (decomposition_prompt goal)))
            (\<lambda>_. external (llm_think llm (decomposition_prompt goal))) w of
        (Inr t, w') \<Rightarrow> (parse_subtasks t goal, w')
      | (Inl e, w') \<Rightarrow> ([subtask_new ''st-1'' goal], w'))"

section \<open>The approval gate\<close>

text \<open>\<open>fetch_add\<close> on the static counter: the old value is the id.\<close>

definition fast_id :: "u64 \<Rightarrow> str" where
  "fast_id counter = show_nat (unat counter)"

definition gated :: "str \<Rightarrow> bool" where
  "gated tool \<longleftrightarrow> action_permission tool = Some P_Execute \<or> action_permission tool = Some P_Commit"

definition hold_action :: "str \<Rightarrow> str \<Rightarrow> str \<Rightarrow> ('w, str, unit) run" where
  "hold_action subtask_id tool argument =
     modify (\<lambda>w. w\<lparr>w_counter := w_counter w + 1,
       w_pending := w_pending w @ [\<lparr>pa_id = fast_id (w_counter w), pa_tool = tool,
         pa_argument = argument, pa_subtask = subtask_id\<rparr>]\<rparr>)"

definition quest_tool_run :: "'w executor \<Rightarrow> bool \<Rightarrow> str \<Rightarrow> 'w executor" where
  "quest_tool_run inner auto_commit subtask_id tool argument =
     (if gated tool \<and> \<not> auto_commit
      then bnd (hold_action subtask_id tool argument) (\<lambda>_.
             ret \<lparr>obs_tool = tool, obs_output = ''[pending approval] '' @ tool @ '' '' @ argument,
                  obs_terminal = False\<rparr>)
      else inner tool argument)"

section \<open>The quest\<close>

record quest_config =
  qc_max_steps :: nat
  qc_max_subtasks :: nat
  qc_auto_commit :: bool
  qc_max_repair_attempts :: nat
  qc_subtask_max_retries :: nat

definition quest_config_default :: quest_config where
  "quest_config_default = \<lparr>qc_max_steps = 8, qc_max_subtasks = 8, qc_auto_commit = False,
     qc_max_repair_attempts = 3, qc_subtask_max_retries = 1\<rparr>"

record 'w quest =
  q_decomposer :: "'w decomposer"
  q_llm :: "'w llm"
  q_tools :: "'w executor"
  q_validator :: validator
  q_host :: "'w host_provider"
  q_config :: quest_config
  q_principal :: principal
  q_sink :: "audit_event \<Rightarrow> ('w, str, unit) eff"
  q_clock :: "'w \<Rightarrow> int"

definition quest_new ::
  "'w decomposer \<Rightarrow> 'w llm \<Rightarrow> 'w executor \<Rightarrow> validator \<Rightarrow> 'w host_provider \<Rightarrow> quest_config \<Rightarrow>
   ('w \<Rightarrow> int) \<Rightarrow> 'w quest" where
  "quest_new dec llm tools v h cfg clk = \<lparr>q_decomposer = dec, q_llm = llm, q_tools = tools,
     q_validator = v, q_host = h, q_config = cfg, q_principal = principal_all ''single'' ''quest'',
     q_sink = (\<lambda>_. ret ()), q_clock = clk\<rparr>"

definition quest_with_governance ::
  "principal \<Rightarrow> (audit_event \<Rightarrow> ('w, str, unit) eff) \<Rightarrow> 'w quest \<Rightarrow> 'w quest" where
  "quest_with_governance pr sink q = q\<lparr>q_principal := pr, q_sink := sink\<rparr>"

record quest_report =
  rp_goal :: str
  rp_subtasks :: "subtask list"
  rp_successes :: nat
  rp_failures :: nat
  rp_pending :: "pending_approval list"

definition subtask_executor :: "'w quest \<Rightarrow> subtask \<Rightarrow> 'w executor" where
  "subtask_executor q st =
     quest_tool_run (healing_run (q_tools q) (qc_max_repair_attempts (q_config q)) (q_llm q))
       (qc_auto_commit (q_config q)) (st_id st)"

definition subtask_planner :: "'w quest \<Rightarrow> subtask \<Rightarrow> 'w planner" where
  "subtask_planner q st =
     planner_with_governance (q_principal q) (q_sink q)
       (planner_new (q_llm q) (subtask_executor q st) (q_validator q) (q_host q)
          (qc_max_steps (q_config q)) (q_clock q))"

lemma subtask_planner_fields [simp]:
  "pl_llm (subtask_planner q st) = q_llm q" "pl_tools (subtask_planner q st) = subtask_executor q st"
  "pl_validator (subtask_planner q st) = q_validator q" "pl_host (subtask_planner q st) = q_host q"
  "pl_max_steps (subtask_planner q st) = qc_max_steps (q_config q)"
  "pl_principal (subtask_planner q st) = q_principal q"
  by (simp_all add: subtask_planner_def planner_with_governance_def planner_new_def)

definition execute_subtask :: "'w quest \<Rightarrow> subtask \<Rightarrow> ('w, str, bool) run" where
  "execute_subtask q st =
     bnd (planner_run (subtask_planner q st) (st_description st)) (\<lambda>trace.
     ret (final_answer trace = ''task finished''))"

text \<open>The retry loop of one subtask: the number is how many tries are left.\<close>

fun try_subtask :: "nat \<Rightarrow> 'w quest \<Rightarrow> subtask \<Rightarrow> 'w world \<Rightarrow> bool \<times> 'w world" where
  "try_subtask 0 q st w = (False, w)"
| "try_subtask (Suc n) q st w =
     (case execute_subtask q st w of
        (Inr True, w') \<Rightarrow> (True, w')
      | (_, w') \<Rightarrow> try_subtask n q st w')"

fun run_subtasks ::
  "'w quest \<Rightarrow> subtask list \<Rightarrow> nat \<Rightarrow> nat \<Rightarrow> 'w world \<Rightarrow> (subtask list \<times> nat \<times> nat) \<times> 'w world" where
  "run_subtasks q [] ok bad w = (([], ok, bad), w)"
| "run_subtasks q (st # sts) ok bad w =
     (if st_status st = ST_Skipped
      then (case run_subtasks q sts ok bad w of ((sts', ok', bad'), w') \<Rightarrow> ((st # sts', ok', bad'), w'))
      else (case try_subtask (qc_subtask_max_retries (q_config q) + 1) q (st\<lparr>st_status := ST_Running\<rparr>) w of
              (done_ok, w1) \<Rightarrow>
                (case run_subtasks q sts (if done_ok then ok + 1 else ok)
                        (if done_ok then bad else bad + 1) w1 of
                   ((sts', ok', bad'), w') \<Rightarrow>
                     ((st\<lparr>st_status := (if done_ok then ST_Success else ST_Failed)\<rparr> # sts', ok', bad'), w'))))"

text \<open>Subtasks past the budget are skipped.\<close>

definition cap_subtasks :: "nat \<Rightarrow> subtask list \<Rightarrow> subtask list" where
  "cap_subtasks n sts = (if n < length sts
     then take n sts @ map (\<lambda>st. st\<lparr>st_status := ST_Skipped\<rparr>) (drop n sts) else sts)"

definition quest_run :: "'w quest \<Rightarrow> str \<Rightarrow> ('w, str, quest_report) run" where
  "quest_run q goal w =
     (case q_decomposer q goal w of
        (sts, w1) \<Rightarrow>
          (case run_subtasks q (cap_subtasks (qc_max_subtasks (q_config q)) sts) 0 0 w1 of
             ((sts', ok, bad), w2) \<Rightarrow>
               (Inr \<lparr>rp_goal = goal, rp_subtasks = sts', rp_successes = ok, rp_failures = bad,
                     rp_pending = w_pending w2\<rparr>, w2)))"

section \<open>Decomposition\<close>

lemma numbered_desc_Some: "numbered_desc l = Some d \<Longrightarrow> d \<noteq> [] \<and> trim d = d"
  by (auto simp: numbered_desc_def Let_def split: if_splits option.splits prod.splits)

lemma show_one: "show_nat (Suc 0) = ''1''"
  by code_simp

definition numbered_from :: "nat \<Rightarrow> subtask list \<Rightarrow> bool" where
  "numbered_from k sts \<longleftrightarrow> (\<forall>i<length sts. st_id (sts ! i) = ''st-'' @ show_nat (k + i + 1) \<and>
     st_status (sts ! i) = ST_Pending)"

lemma parse_lines_spec:
  "\<exists>new. parse_lines ls out = out @ new \<and> numbered_from (length out) new \<and>
     map st_description new = List.map_filter numbered_desc ls"
proof (induction ls arbitrary: out)
  case Nil
  then show ?case by (simp add: numbered_from_def map_filter_simps)
next
  case (Cons l ls)
  show ?case
  proof (cases "numbered_desc l")
    case None
    with Cons.IH [of out] show ?thesis by (simp add: map_filter_simps)
  next
    case (Some d)
    let ?st = "subtask_new (''st-'' @ show_nat (length out + 1)) d"
    from Cons.IH [of "out @ [?st]"] obtain new where
      new: "parse_lines ls (out @ [?st]) = (out @ [?st]) @ new" "numbered_from (length out + 1) new"
        "map st_description new = List.map_filter numbered_desc ls" by auto
    have "numbered_from (length out) (?st # new)"
      using new(2) by (auto simp: numbered_from_def nth_Cons' subtask_new_def less_Suc_eq_0_disj)
    with new Some show ?thesis
      by (intro exI [of _ "?st # new"]) (simp add: map_filter_simps subtask_new_def)
  qed
qed

text \<open>
  Decomposition: whatever the model answers, there is at least one subtask, all of them start
  Pending with the ids \<open>st-1\<close>, \<open>st-2\<close>, ... in order; their descriptions are those of the numbered
  lines in order, non-empty and trimmed, or the goal itself when no line is numbered.
\<close>

theorem parse_subtasks_spec:
  "parse_subtasks text goal \<noteq> [] \<and>
   map st_id (parse_subtasks text goal) =
     map (\<lambda>i. ''st-'' @ show_nat (i + 1)) [0..<length (parse_subtasks text goal)] \<and>
   list_all (\<lambda>st. st_status st = ST_Pending) (parse_subtasks text goal) \<and>
   map st_description (parse_subtasks text goal) =
     (if List.map_filter numbered_desc (str_lines text) = [] then [goal]
      else List.map_filter numbered_desc (str_lines text)) \<and>
   list_all (\<lambda>d. d \<noteq> [] \<and> trim d = d) (List.map_filter numbered_desc (str_lines text))"
proof -
  obtain new where new: "parse_lines (str_lines text) [] = new" "numbered_from 0 new"
    "map st_description new = List.map_filter numbered_desc (str_lines text)"
    using parse_lines_spec [of "str_lines text" "[]"] by auto
  have descs: "list_all (\<lambda>d. d \<noteq> [] \<and> trim d = d) (List.map_filter numbered_desc (str_lines text))"
    by (auto simp: list_all_iff map_filter_def dest: numbered_desc_Some)
  show ?thesis
  proof (cases "new = []")
    case True
    with new descs show ?thesis
      by (simp add: parse_subtasks_def Let_def subtask_new_def show_one)
  next
    case False
    have "map st_id new = map (\<lambda>i. ''st-'' @ show_nat (i + 1)) [0..<length new]"
      using new(2) by (intro nth_equalityI) (auto simp: numbered_from_def)
    moreover have "list_all (\<lambda>st. st_status st = ST_Pending) new"
      using new(2) by (auto simp: numbered_from_def list_all_length)
    moreover have "List.map_filter numbered_desc (str_lines text) \<noteq> []"
      using False new(3) by (metis map_is_Nil_conv)
    ultimately show ?thesis
      using False new descs by (simp add: parse_subtasks_def Let_def)
  qed
qed

section \<open>The report\<close>

definition with_status :: "subtask_status \<Rightarrow> subtask list \<Rightarrow> nat" where
  "with_status x sts = length (filter (\<lambda>st. st_status st = x) sts)"

lemma with_status_Cons [simp]:
  "with_status x [] = 0"
  "with_status x (st # sts) = (if st_status st = x then 1 else 0) + with_status x sts"
  by (simp_all add: with_status_def)

text \<open>
  What a report is measured against: the planner runs of one subtask in a row, each in the world the
  one before left, and their outcomes.
\<close>

definition subtask_run :: "'w quest \<Rightarrow> subtask \<Rightarrow> ('w, str, run_trace) run" where
  "subtask_run q st = planner_run (subtask_planner q st) (st_description st)"

inductive runs_in_a_row ::
  "'w quest \<Rightarrow> subtask \<Rightarrow> (str + run_trace) list \<Rightarrow> 'w world \<Rightarrow> 'w world \<Rightarrow> bool" for q st where
  none: "runs_in_a_row q st [] w w"
| one_more: "subtask_run q st w = (r, w1) \<Longrightarrow> runs_in_a_row q st rs w1 w' \<Longrightarrow>
    runs_in_a_row q st (r # rs) w w'"

definition finished :: "str + run_trace \<Rightarrow> bool" where
  "finished r = (case r of Inl _ \<Rightarrow> False | Inr trace \<Rightarrow> final_answer trace = ''task finished'')"

text \<open>
  Statuses that tell what happened: a subtask is a Success when one of its runs, at most the retries
  and one more, finished and that was the last one made; it is Failed when it was run that often and no
  run finished.
\<close>

inductive accounted ::
  "'w quest \<Rightarrow> subtask list \<Rightarrow> subtask list \<Rightarrow> 'w world \<Rightarrow> 'w world \<Rightarrow> bool" for q where
  nothing: "accounted q [] [] w w"
| success: "runs_in_a_row q (st\<lparr>st_status := ST_Running\<rparr>) (fs @ [r]) w w1 \<Longrightarrow> finished r \<Longrightarrow>
    list_all (\<lambda>f. \<not> finished f) fs \<Longrightarrow> length fs \<le> qc_subtask_max_retries (q_config q) \<Longrightarrow>
    accounted q sts sts' w1 w' \<Longrightarrow> accounted q (st # sts) (st\<lparr>st_status := ST_Success\<rparr> # sts') w w'"
| failure: "runs_in_a_row q (st\<lparr>st_status := ST_Running\<rparr>) fs w w1 \<Longrightarrow>
    list_all (\<lambda>f. \<not> finished f) fs \<Longrightarrow> length fs = qc_subtask_max_retries (q_config q) + 1 \<Longrightarrow>
    accounted q sts sts' w1 w' \<Longrightarrow> accounted q (st # sts) (st\<lparr>st_status := ST_Failed\<rparr> # sts') w w'"

lemma execute_subtask_run:
  "execute_subtask q st w = (case subtask_run q st w of (r, w') \<Rightarrow>
     (case r of Inl e \<Rightarrow> Inl e | Inr _ \<Rightarrow> Inr (finished r), w'))"
  by (simp add: execute_subtask_def subtask_run_def finished_def eff_simps split: prod.splits sum.splits)

lemma try_subtask_runs:
  "try_subtask n q st w = (d, w') \<Longrightarrow> if d
   then \<exists>fs r. runs_in_a_row q st (fs @ [r]) w w' \<and> finished r \<and> list_all (\<lambda>f. \<not> finished f) fs \<and> length fs < n
   else \<exists>fs. runs_in_a_row q st fs w w' \<and> list_all (\<lambda>f. \<not> finished f) fs \<and> length fs = n"
proof (induction n arbitrary: w)
  case 0
  then show ?case by (auto intro: runs_in_a_row.none)
next
  case (Suc n)
  obtain r w1 where run: "subtask_run q st w = (r, w1)" by force
  show ?case
  proof (cases "finished r")
    case True
    then obtain tr where "r = Inr tr" by (auto simp: finished_def split: sum.splits)
    with True Suc.prems run have "d" "w' = w1" by (simp_all add: execute_subtask_run)
    moreover have "runs_in_a_row q st ([] @ [r]) w w1"
      using run by (auto intro: runs_in_a_row.intros)
    ultimately show ?thesis using True by (auto intro!: exI [of _ "[]"])
  next
    case False
    with Suc.prems run have "try_subtask n q st w1 = (d, w')"
      by (cases r) (simp_all add: execute_subtask_run)
    note ih = Suc.IH [OF this]
    have more: "runs_in_a_row q st fs w1 w' \<Longrightarrow> runs_in_a_row q st (r # fs) w w'" for fs
      using run by (rule runs_in_a_row.one_more)
    show ?thesis
    proof (cases d)
      case True
      with ih obtain fs r' where "runs_in_a_row q st (fs @ [r']) w1 w'" "finished r'"
        "list_all (\<lambda>f. \<not> finished f) fs" "length fs < n" by auto
      with more [of "fs @ [r']"] True False show ?thesis by (auto intro!: exI [of _ "r # fs"])
    next
      case nd: False
      with ih obtain fs where "runs_in_a_row q st fs w1 w'" "list_all (\<lambda>f. \<not> finished f) fs" "length fs = n"
        by auto
      with more [of fs] nd False show ?thesis by (auto intro!: exI [of _ "r # fs"])
    qed
  qed
qed

lemma accounted_statuses:
  "accounted q sts sts' w w' \<Longrightarrow> map st_id sts' = map st_id sts \<and>
   map st_description sts' = map st_description sts \<and>
   list_all (\<lambda>st. st_status st = ST_Success \<or> st_status st = ST_Failed) sts'"
  by (induction rule: accounted.induct) auto

lemma run_subtasks_skipped:
  "list_all (\<lambda>st. st_status st = ST_Skipped) sts \<Longrightarrow> run_subtasks q sts ok bad w = ((sts, ok, bad), w)"
  by (induction sts) auto

lemma run_subtasks_accounted:
  assumes "list_all (\<lambda>st. st_status st = ST_Skipped) skip"
  shows "run_subtasks q (sts @ skip) ok bad w = ((out, ok', bad'), w') \<Longrightarrow>
    list_all (\<lambda>st. st_status st = ST_Pending) sts \<Longrightarrow>
    \<exists>sts'. out = sts' @ skip \<and> accounted q sts sts' w w' \<and>
      ok' = ok + with_status ST_Success sts' \<and> bad' = bad + with_status ST_Failed sts'"
proof (induction sts arbitrary: ok bad w out)
  case Nil
  then have "out = skip" "ok' = ok" "bad' = bad" "w' = w" using run_subtasks_skipped [OF assms, of q ok bad w] by simp_all
  then show ?case by (intro exI [of _ "[]"]) (simp add: accounted.nothing)
next
  case (Cons st sts)
  let ?n = "qc_subtask_max_retries (q_config q) + 1" and ?st = "st\<lparr>st_status := ST_Running\<rparr>"
  obtain d w1 where run: "try_subtask ?n q ?st w = (d, w1)" by force
  with Cons.prems obtain ss where
    rest: "run_subtasks q (sts @ skip) (if d then ok + 1 else ok) (if d then bad else bad + 1) w1 =
      ((ss, ok', bad'), w')" and
    out: "out = st\<lparr>st_status := (if d then ST_Success else ST_Failed)\<rparr> # ss"
    by (auto split: prod.splits)
  from Cons.IH [OF rest] Cons.prems(2) obtain sts' where
    sts': "ss = sts' @ skip" "accounted q sts sts' w1 w'"
      "ok' = (if d then ok + 1 else ok) + with_status ST_Success sts'"
      "bad' = (if d then bad else bad + 1) + with_status ST_Failed sts'" by auto
  have "accounted q (st # sts) (st\<lparr>st_status := (if d then ST_Success else ST_Failed)\<rparr> # sts') w w'"
  proof (cases d)
    case True
    with try_subtask_runs [OF run] sts'(2) show ?thesis
      by (auto simp: less_Suc_eq_le intro: accounted.success)
  next
    case False
    with try_subtask_runs [OF run] sts'(2) show ?thesis by (auto intro: accounted.failure)
  qed
  with sts' out show ?case
    by (intro exI [of _ "st\<lparr>st_status := (if d then ST_Success else ST_Failed)\<rparr> # sts'"]) auto
qed

lemma with_status_split:
  "list_all (\<lambda>st. st_status st = ST_Success \<or> st_status st = ST_Failed) sts \<Longrightarrow>
   with_status ST_Success sts + with_status ST_Failed sts = length sts"
  by (induction sts) auto

lemma with_status_append [simp]: "with_status x (sts @ sts') = with_status x sts + with_status x sts'"
  by (simp add: with_status_def)

lemma with_status_skipped:
  "with_status ST_Success (map (\<lambda>st. st\<lparr>st_status := ST_Skipped\<rparr>) sts) = 0"
  "with_status ST_Failed (map (\<lambda>st. st\<lparr>st_status := ST_Skipped\<rparr>) sts) = 0"
  by (induction sts) auto

lemma cap_subtasks_split:
  "cap_subtasks n sts = take n sts @ map (\<lambda>st. st\<lparr>st_status := ST_Skipped\<rparr>) (drop n sts)"
  by (simp add: cap_subtasks_def)

lemma quest_report_comes:
  assumes "q_decomposer q goal s = (sts, s1)" and "list_all (\<lambda>st. st_status st = ST_Pending) sts"
  shows "\<exists>rp t run. quest_run q goal s = (Inr rp, t) \<and> rp_goal rp = goal \<and>
    rp_subtasks rp = run @ map (\<lambda>st. st\<lparr>st_status := ST_Skipped\<rparr>) (drop (qc_max_subtasks (q_config q)) sts) \<and>
    accounted q (take (qc_max_subtasks (q_config q)) sts) run s1 t \<and>
    rp_successes rp = with_status ST_Success run \<and> rp_failures rp = with_status ST_Failed run \<and>
    rp_pending rp = w_pending t"
proof -
  let ?n = "qc_max_subtasks (q_config q)"
  let ?skip = "map (\<lambda>st. st\<lparr>st_status := ST_Skipped\<rparr>) (drop ?n sts)"
  obtain out ok bad t where run: "run_subtasks q (take ?n sts @ ?skip) 0 0 s1 = ((out, ok, bad), t)"
    by (metis prod.collapse)
  have "list_all (\<lambda>st. st_status st = ST_Pending) (take ?n sts)"
    using assms(2) by (auto simp: list_all_iff dest: in_set_takeD)
  from run_subtasks_accounted [OF _ run this] obtain sts' where
    "out = sts' @ ?skip" "accounted q (take ?n sts) sts' s1 t"
    "ok = with_status ST_Success sts'" "bad = with_status ST_Failed sts'" by (auto simp: list_all_iff)
  with run assms(1) show ?thesis
    by (simp add: quest_run_def cap_subtasks_split)
qed

text \<open>
  C8: the report of a quest: it always comes, and tells what happened.  The first
  \<open>quest_max_subtasks\<close> subtasks were run in order, each from the world the one before left: a Success
  is one whose last run finished, no earlier one did, and there were at most the retries and one more;
  a Failed one was run exactly that often and never finished.  The others are Skipped and were not run.
  Ids and descriptions are those of the decomposition, the two counters are the numbers of those
  statuses, and what is held for approval is in the report.
\<close>

theorem quest_report_accounts:
  assumes "q_decomposer q goal s = (sts, s1)" and "list_all (\<lambda>st. st_status st = ST_Pending) sts"
  shows "\<exists>rp t run. quest_run q goal s = (Inr rp, t) \<and> rp_goal rp = goal \<and>
    rp_subtasks rp = run @ map (\<lambda>st. st\<lparr>st_status := ST_Skipped\<rparr>) (drop (qc_max_subtasks (q_config q)) sts) \<and>
    accounted q (take (qc_max_subtasks (q_config q)) sts) run s1 t \<and>
    map st_id (rp_subtasks rp) = map st_id sts \<and>
    map st_description (rp_subtasks rp) = map st_description sts \<and>
    rp_successes rp = with_status ST_Success (rp_subtasks rp) \<and>
    rp_failures rp = with_status ST_Failed (rp_subtasks rp) \<and>
    rp_successes rp + rp_failures rp = min (qc_max_subtasks (q_config q)) (length sts) \<and>
    rp_pending rp = w_pending t"
proof -
  obtain rp t run where report: "quest_run q goal s = (Inr rp, t)" "rp_goal rp = goal"
      "rp_subtasks rp = run @ map (\<lambda>st. st\<lparr>st_status := ST_Skipped\<rparr>) (drop (qc_max_subtasks (q_config q)) sts)"
      "rp_successes rp = with_status ST_Success run" "rp_failures rp = with_status ST_Failed run"
      "rp_pending rp = w_pending t"
    and acc: "accounted q (take (qc_max_subtasks (q_config q)) sts) run s1 t"
    using quest_report_comes [OF assms] by blast
  note statuses = accounted_statuses [OF acc]
  have "length run = min (qc_max_subtasks (q_config q)) (length sts)"
    using statuses by (metis length_map length_take min.commute)
  moreover have "map f (take n sts) @ map f (drop n sts) = map f sts" for n and f :: "subtask \<Rightarrow> str"
    by (simp flip: map_append)
  ultimately show ?thesis
    using report acc statuses with_status_split [of run]
    by (intro exI [of _ rp] exI [of _ t] exI [of _ run]) (simp add: with_status_skipped comp_def)
qed

text \<open>A concrete quest: a scripted model over the shell tool, on the CLI host.\<close>

definition demo_quest :: "docs spawner \<Rightarrow> str \<Rightarrow> str \<Rightarrow> 32 word \<Rightarrow> docs quest" where
  "demo_quest sp tool arg m = \<lparr>q_decomposer = llm_decompose (scripted_llm tool arg),
     q_llm = scripted_llm tool arg, q_tools = shell_tool_run sp ''.'', q_validator = basic_validate 1,
     q_host = cli_host, q_config = quest_config_default\<lparr>qc_max_steps := 1, qc_subtask_max_retries := 0\<rparr>,
     q_principal = principal_from_mask ''t'' ''u'' m, q_sink = (\<lambda>_. ret ()), q_clock = (\<lambda>_. 0)\<rparr>"

definition no_spawn :: "'w spawner" where
  "no_spawn = (\<lambda>_ _ _. throw ''no process'')"

lemma demo_decompose:
  "q_decomposer (demo_quest sp tool arg m) goal w =
     ([subtask_new ''st-1'' goal], w\<lparr>trail := trail w @ [C_Repair (decomposition_prompt goal)]\<rparr>)"
proof -
  have "numbered_desc ''t'' = None" by code_simp
  moreover have "str_lines ''t'' = [''t'']" by code_simp
  ultimately show ?thesis
    by (simp add: demo_quest_def llm_decompose_def scripted_llm_def eff_simps external_def
        parse_subtasks_def)
qed

theorem quest_report_accounts_witness:
  "\<exists>rp t. quest_run (demo_quest no_spawn ''shell'' ''ls'' 63) ''g'' (world0 Map.empty) = (Inr rp, t) \<and>
     rp_successes rp + rp_failures rp = 1 \<and> map st_id (rp_subtasks rp) = [''st-1'']"
  using quest_report_accounts [OF demo_decompose [of no_spawn "''shell''" "''ls''" 63 "''g''" "world0 Map.empty"]]
  by (auto simp: subtask_new_def demo_quest_def quest_config_default_def)

section \<open>The approval gate holds\<close>

lemma action_permission_shell: "action_permission ''shell'' = Some P_Execute"
  by (simp add: action_permission_def to_ascii_lowercase_def ascii_lower_def)

lemma rel_quest:
  assumes R: "state_rel R"
    and dec: "\<And>s. R s (snd (q_decomposer q goal s))"
    and pl: "\<And>st g. rel_eff R (planner_run (subtask_planner q st) g)"
  shows "rel_eff R (quest_run q goal)"
proof -
  note refl = state_rel.rel_refl [OF R] and trans = state_rel.rel_trans [OF R]
  have ex: "R s (snd (execute_subtask q st s))" for st s
  proof -
    have "rel_eff R (execute_subtask q st)"
      unfolding execute_subtask_def by (intro state_rel.rel_bnd [OF R] pl state_rel.rel_ret [OF R])
    then show ?thesis by (simp add: rel_eff_def)
  qed
  have tries: "R s (snd (try_subtask n q st s))" for n st s
  proof (induction n arbitrary: s)
    case (Suc n)
    have "R s (snd (execute_subtask q st s))" by (rule ex)
    with Suc.IH trans show ?case by (auto split: prod.splits sum.splits bool.splits)
  qed (simp add: refl)
  have runs: "R s (snd (run_subtasks q sts ok bad s))" for sts ok bad s
  proof (induction sts arbitrary: ok bad s)
    case (Cons st sts)
    obtain d w1 where t: "try_subtask (qc_subtask_max_retries (q_config q) + 1) q
        (st\<lparr>st_status := ST_Running\<rparr>) s = (d, w1)" by force
    have "R s w1" using tries [of s "qc_subtask_max_retries (q_config q) + 1"] t by (metis snd_conv)
    moreover have "R w1 (snd (run_subtasks q sts ok' bad' w1))" for ok' bad' by (rule Cons.IH)
    moreover have "R s (snd (run_subtasks q sts ok bad s))" by (rule Cons.IH)
    ultimately show ?case using trans t by (simp add: split_beta)
  qed (simp add: refl)
  show ?thesis
    unfolding rel_eff_def
  proof
    fix s
    obtain sts s1 where d: "q_decomposer q goal s = (sts, s1)" by force
    let ?cap = "cap_subtasks (qc_max_subtasks (q_config q)) sts"
    obtain sts' ok bad s2 where r: "run_subtasks q ?cap 0 0 s1 = ((sts', ok, bad), s2)"
      by (metis prod.collapse)
    have "R s s1" using dec [of s] d by simp
    moreover have "R s1 s2" using runs [of s1 ?cap 0 0] r by simp
    ultimately show "R s (snd (quest_run q goal s))"
      using trans by (simp add: quest_run_def d r)
  qed
qed

lemma tool_executor_gate: "tool_executor inner \<Longrightarrow> tool_executor (quest_tool_run inner auto sid)"
proof
  fix tool arg assume "tool_executor inner"
  then have "rel_eff quiet (inner tool arg)" by (rule tool_executor.run_quiet)
  then show "rel_eff quiet (quest_tool_run inner auto sid tool arg)"
    unfolding quest_tool_run_def hold_action_def
    by (intro quiet.rel_intros quiet.rel_modify) (auto simp: quiet_def logs_def)
qed

lemma subtask_tool_executor:
  assumes "tool_executor (q_tools q)"
  shows "tool_executor (pl_tools (subtask_planner q st))"
  unfolding subtask_planner_fields subtask_executor_def
  using assms by (simp add: tool_executor_gate tool_executor_healing)

interpretation quest_shell: tool_executor
  "quest_tool_run (healing_run (shell_tool_run sp dir) m llm) auto sid" for sp dir m llm auto sid
  by (rule tool_executor_gate) (rule healing_shell.tool_executor_axioms)

definition gate_closed :: "call list \<Rightarrow> bool" where
  "gate_closed L \<longleftrightarrow> list_all (\<lambda>c. case c of C_Attempt tool _ \<Rightarrow> \<not> gated tool | _ \<Rightarrow> True) L"

interpretation gate: log_property gate_closed
  by unfold_locales (auto simp: gate_closed_def)

lemma gate_executor:
  assumes "base_executor (q_tools q)" "\<not> qc_auto_commit (q_config q)"
  shows "rel_eff (logs gate_closed) (subtask_executor q st tool arg)"
proof (cases "gated tool")
  case True
  then show ?thesis
    using assms(2) unfolding subtask_executor_def quest_tool_run_def hold_action_def
    by (auto intro!: gate.trail.rel_intros gate.trail.rel_modify simp: logs_def gate_closed_def)
next
  case False
  have "gate_closed L" if "list_all process_call L" for L
    using that by (induction L) (auto simp: gate_closed_def process_call_def split: call.splits)
  with False have "rel_eff (logs gate_closed)
      (healing_run (q_tools q) (qc_max_repair_attempts (q_config q)) (q_llm q) tool arg)"
    by (intro gate.healing_logs assms(1)) (simp_all add: gate_closed_def)
  with False show ?thesis by (simp add: subtask_executor_def quest_tool_run_def)
qed

text \<open>
  C2: the approval gate: in a quest without auto-commit over a base executor, no Execute or Commit
  class action is ever attempted, in no subtask and in no retry.
\<close>

theorem quest_gate_holds:
  assumes "base_executor (q_tools q)" and "\<not> qc_auto_commit (q_config q)"
    and "\<And>s. logs gate_closed s (snd (q_decomposer q goal s))"
    and "quest_run q goal s = (res, t)"
  shows "\<exists>L. trail t = trail s @ L \<and>
    (\<forall>tool arg. C_Attempt tool arg \<in> set L \<longrightarrow>
       action_permission tool \<noteq> Some P_Execute \<and> action_permission tool \<noteq> Some P_Commit)"
proof -
  have own: "gate_closed [c]" if "\<not> executor_call c" for c
    using that by (auto simp: gate_closed_def executor_call_def split: call.splits)
  have "rel_eff (logs gate_closed) (planner_run (subtask_planner q st) g)" for st g
    using gate_executor [OF assms(1,2)]
    by (intro gate.planner_logs own) simp_all
  then have "rel_eff (logs gate_closed) (quest_run q goal)"
    by (intro rel_quest gate.trail.state_rel_axioms assms(3))
  from rel_effD [OF this assms(4)] show ?thesis
    by (auto simp: logs_def gate_closed_def list_all_iff gated_def split: call.splits)
qed

lemma demo_decompose_logs:
  assumes "log_property Q" "Q [C_Repair (decomposition_prompt goal)]"
  shows "logs Q s (snd (q_decomposer (demo_quest sp tool arg m) goal s))"
  using assms(2) by (simp add: demo_decompose logs_def)

lemma demo_base: "base_executor (q_tools (demo_quest sp tool arg m))"
  by (simp add: demo_quest_def shell.base_executor_axioms)

theorem quest_gate_holds_witness:
  "filter (\<lambda>c. case c of C_Attempt tool _ \<Rightarrow> gated tool | _ \<Rightarrow> False)
     (trail (snd (quest_run (demo_quest no_spawn ''shell'' ''ls'' 63) ''g'' (world0 Map.empty)))) = []"
proof -
  obtain res t where run: "quest_run (demo_quest no_spawn ''shell'' ''ls'' 63) ''g'' (world0 Map.empty) = (res, t)"
    by force
  have "logs gate_closed s (snd (q_decomposer (demo_quest no_spawn ''shell'' ''ls'' 63) ''g'' s))" for s
    by (intro demo_decompose_logs gate.log_property_axioms) (simp add: gate_closed_def)
  moreover have "\<not> qc_auto_commit (q_config (demo_quest no_spawn ''shell'' ''ls'' 63))"
    by (simp add: demo_quest_def quest_config_default_def)
  ultimately have "\<exists>L. trail t = trail (world0 (Map.empty :: docs)) @ L \<and>
    (\<forall>tool arg. C_Attempt tool arg \<in> set L \<longrightarrow>
       action_permission tool \<noteq> Some P_Execute \<and> action_permission tool \<noteq> Some P_Commit)"
    using quest_gate_holds [OF demo_base _ _ run] by blast
  then show ?thesis using run
    by (auto simp: world0_def filter_empty_conv gated_def split: call.splits)
qed



section \<open>What the gate and the mask do not cover\<close>

text \<open>
  C5: the engineering tools escape both rails: a tool that \<open>ShellTool\<close> turns into a command but
  \<open>action_permission\<close> does not know (\<open>sh\<close>, \<open>git\<close>, \<open>cargo\<close> and the build verbs) starts its shell process
  under any mask, the empty one included, without an audit record, and the gate does not hold it
  although auto-commit is off.
\<close>

theorem shell_tools_bypass_rails:
  assumes "action_permission (plan_tool plan) = None"
    and "command_for (plan_tool plan) (plan_argument plan) = Some cmd"
    and "pl_tools pl = quest_tool_run (healing_run (shell_tool_run sp dir) m llm) False sid"
  shows "\<exists>L. trail (snd (act pl plan s)) = trail s @
      C_Tool (plan_tool plan) (plan_argument plan) # C_Attempt (plan_tool plan) (plan_argument plan) #
      C_Process ''sh'' [''-c'', cmd] dir # L \<and> filter is_audit L = []"
proof -
  let ?t = "plan_tool plan" and ?a = "plan_argument plan"
  have ng: "\<not> gated ?t" using assms(1) by (simp add: gated_def)
  let ?u = "s\<lparr>w_metrics := inc_tool_calls (w_metrics s), trail := trail s @ [C_Tool ?t ?a]\<rparr>"
  let ?v = "?u\<lparr>trail := trail ?u @ [C_Attempt ?t ?a, C_Process ''sh'' [''-c'', cmd] dir]\<rparr>"
  let ?heal = "healing_run (shell_tool_run sp dir) m llm"
  obtain r e where sp: "sp ''sh'' [''-c'', cmd] dir (env s) = (r, e)" by force
  let ?w = "?v\<lparr>env := e\<rparr>"
  have act: "snd (act pl plan s) = snd (?heal ?t ?a ?u)"
    using assms(1,3) ng
    by (auto simp: act_def authorize_and_record_def eff_simps quest_tool_run_def split: prod.splits sum.splits)
  obtain r' w' where att: "attempt (shell_tool_run sp dir) ?t ?a ?u = (r', w')" by force
  have w': "trail w' = trail s @ [C_Tool ?t ?a, C_Attempt ?t ?a, C_Process ''sh'' [''-c'', cmd] dir]"
    using att sp assms(2)
    by (cases r) (auto simp: attempt_def shell_tool_run_def run_shell_def spawn_def external_def eff_simps
        split: if_splits)
  have loop: "rel_eff quiet (heal_loop n (shell_tool_run sp dir) llm ?t k c er)" for n k c er
    by (intro quiet_heal_loop shell.run_quiet)
  have "quiet w' (snd (?heal ?t ?a ?u))"
  proof (cases r')
    case (Inl er)
    have "rel_eff quiet (bnd (heal_loop m (shell_tool_run sp dir) llm ?t 0 ?a er) (\<lambda>out. ret (ro_observation out)))"
      by (intro quiet.rel_bnd loop quiet.rel_ret)
    then have "quiet w' (snd (bnd (heal_loop m (shell_tool_run sp dir) llm ?t 0 ?a er) (\<lambda>out. ret (ro_observation out)) w'))"
      by (simp add: rel_eff_def)
    with att Inl show ?thesis
      by (simp add: healing_run_def self_heal_run_def eff_simps split: prod.splits sum.splits)
  next
    case (Inr obs)
    with att show ?thesis
      by (simp add: healing_run_def self_heal_run_def eff_simps quiet.rel_refl)
  qed
  then obtain L where L: "trail (snd (act pl plan s)) = trail w' @ L" "list_all executor_call L"
    by (auto simp: quiet_def logs_def act)
  have "filter is_audit L = []"
    using L(2) by (auto simp: filter_empty_conv list_all_iff executor_call_def is_audit_def split: call.splits)
  with L(1) w' show ?thesis by auto
qed

theorem shell_tools_bypass_rails_witness:
  "\<exists>L. trail (snd (act (subtask_planner (demo_quest no_spawn ''git'' ''commit -m x'' 0) (subtask_new ''st-1'' ''g''))
       \<lparr>plan_tool = ''git'', plan_argument = ''commit -m x''\<rparr> (world0 Map.empty))) =
     C_Tool ''git'' ''commit -m x'' # C_Attempt ''git'' ''commit -m x'' #
     C_Process ''sh'' [''-c'', ''git commit -m x''] ''.'' # L"
proof -
  let ?q = "demo_quest no_spawn ''git'' ''commit -m x'' 0"
  have tools: "pl_tools (subtask_planner ?q (subtask_new ''st-1'' ''g'')) = quest_tool_run
     (healing_run (shell_tool_run no_spawn ''.'') 3 (scripted_llm ''git'' ''commit -m x'')) False ''st-1''"
    by (simp add: subtask_executor_def demo_quest_def quest_config_default_def subtask_new_def)
  have free: "action_permission ''git'' = None"
    by (simp add: action_permission_def to_ascii_lowercase_def ascii_lower_def)
  show ?thesis
    using shell_tools_bypass_rails [of "\<lparr>plan_tool = ''git'', plan_argument = ''commit -m x''\<rparr>",
        OF _ _ tools, of "''git commit -m x''" "world0 Map.empty"] free
    by (auto simp: command_for_def world0_def)
qed

section \<open>What is held for approval\<close>

definition held :: "principal \<Rightarrow> 'w world \<Rightarrow> 'w world \<Rightarrow> bool" where
  "held pr s t \<longleftrightarrow> (\<exists>P. w_pending t = w_pending s @ P \<and>
     list_all (\<lambda>pa. gated (pa_tool pa) \<and> permitted pr (pa_tool pa)) P \<and>
     map pa_id P = map (\<lambda>i. fast_id (w_counter s + of_nat i)) [0..<length P] \<and>
     w_counter t = w_counter s + of_nat (length P))"

lemma ids_append:
  "map (\<lambda>i. fast_id (c + of_nat i)) [0..<m + n] =
   map (\<lambda>i. fast_id (c + of_nat i)) [0..<m] @ map (\<lambda>i. fast_id (c + of_nat m + of_nat i)) [0..<n]"
  by (induction n) (auto simp: algebra_simps)

lemma held_state_rel: "state_rel (held pr)"
proof
  fix s t u :: "'a world"
  show "held pr s s" by (simp add: held_def)
  assume "held pr s t" "held pr t u"
  then obtain P P' where P: "w_pending t = w_pending s @ P" "w_pending u = w_pending t @ P'"
    "list_all (\<lambda>pa. gated (pa_tool pa) \<and> permitted pr (pa_tool pa)) (P @ P')"
    and ids: "map pa_id P = map (\<lambda>i. fast_id (w_counter s + of_nat i)) [0..<length P]"
      "map pa_id P' = map (\<lambda>i. fast_id (w_counter t + of_nat i)) [0..<length P']"
    and c: "w_counter t = w_counter s + of_nat (length P)" "w_counter u = w_counter t + of_nat (length P')"
    by (auto simp: held_def)
  have "map pa_id (P @ P') = map (\<lambda>i. fast_id (w_counter s + of_nat i)) [0..<length (P @ P')]"
    by (simp add: ids c ids_append)
  with P c show "held pr s u" unfolding held_def by (intro exI [of _ "P @ P'"]) simp
qed

interpretation held: state_rel "held pr" for pr
  by (rule held_state_rel)

lemma held_same: "w_pending t = w_pending s \<Longrightarrow> w_counter t = w_counter s \<Longrightarrow> held pr s t"
  by (simp add: held_def)

text \<open>A base executor leaves Quest's list and its counter alone.\<close>

definition pending_same :: "'w world \<Rightarrow> 'w world \<Rightarrow> bool" where
  "pending_same s t \<longleftrightarrow> w_pending t = w_pending s \<and> w_counter t = w_counter s"

interpretation pending_same: state_rel pending_same
  by unfold_locales (auto simp: pending_same_def)

lemma pending_same_healing:
  assumes "\<And>tool arg. rel_eff pending_same (run_tool tool arg)"
  shows "rel_eff pending_same (healing_run run_tool m llm tool arg)"
proof -
  have mark: "rel_eff pending_same (mark c :: ('a, str, unit) run)" for c
    by (rule rel_effI) (auto simp: mark_app pending_same_def)
  have ext: "rel_eff pending_same (external g :: ('a, str, str) run)" for g
    by (rule rel_effI) (auto simp: external_def pending_same_def split: prod.splits)
  have att: "rel_eff pending_same (attempt run_tool tool a)" for a
    unfolding attempt_def by (intro pending_same.rel_intros mark assms)
  have sug: "rel_eff pending_same (suggest_patch llm tool i e)" for i e
    unfolding suggest_patch_def by (intro pending_same.rel_intros mark ext)
  have "rel_eff pending_same (heal_loop n run_tool llm tool k c e)" for n k c e
    by (induction n arbitrary: k c e) (auto intro!: pending_same.rel_intros att sug)
  then show ?thesis
    unfolding healing_run_def self_heal_run_def by (intro pending_same.rel_intros att)
qed

lemma pending_same_shell: "rel_eff pending_same (shell_tool_run sp dir tool arg)"
proof (rule rel_effI)
  fix s t :: "'a world" and r assume "shell_tool_run sp dir tool arg s = (r, t)"
  then show "pending_same s t"
    by (auto simp: shell_tool_run_def run_shell_def spawn_def external_def eff_simps basic_run_def
        pending_same_def split: option.splits prod.splits sum.splits if_splits)
qed

lemma held_executor:
  assumes "\<And>tool arg. rel_eff pending_same (q_tools q tool arg)" "permitted pr tool"
  shows "rel_eff (held pr) (subtask_executor q st tool arg)"
proof (cases "gated tool \<and> \<not> qc_auto_commit (q_config q)")
  case True
  have "held pr s (s\<lparr>w_counter := w_counter s + 1, w_pending := w_pending s @ [\<lparr>pa_id = fast_id (w_counter s),
      pa_tool = tool, pa_argument = arg, pa_subtask = st_id st\<rparr>]\<rparr>)" for s :: "'a world"
    using True assms(2) by (simp add: held_def)
  with True show ?thesis
    unfolding subtask_executor_def quest_tool_run_def hold_action_def
    by (simp only: if_True simp_thms) (intro held.rel_bnd held.rel_modify held.rel_ret)
next
  case False
  then have "subtask_executor q st tool arg =
      healing_run (q_tools q) (qc_max_repair_attempts (q_config q)) (q_llm q) tool arg"
    by (auto simp: subtask_executor_def quest_tool_run_def)
  then have "rel_eff pending_same (subtask_executor q st tool arg)"
    by (simp only: pending_same_healing [OF assms(1)])
  then show ?thesis by (auto simp: rel_eff_def pending_same_def intro: held_same)
qed

lemma quest_held:
  assumes "\<And>tool arg. rel_eff pending_same (q_tools q tool arg)"
    and "\<And>s. pending_same s (snd (q_decomposer q goal s))"
  shows "rel_eff (held (q_principal q)) (quest_run q goal)"
proof -
  have "rel_eff (held (q_principal q)) (planner_run (subtask_planner q st) g)" for st g
    by (rule planner_rel [OF held_state_rel])
      (auto intro: held_same held_executor assms(1))
  moreover have "held (q_principal q) s (snd (q_decomposer q goal s))" for s
    using assms(2) by (auto simp: pending_same_def intro: held_same)
  ultimately show ?thesis
    by (intro rel_quest held_state_rel)
qed

text \<open>
  The actions a list of calls has the gate hold: every gated tool the planner ran, in order, and none
  under auto-commit.
\<close>

definition held_of :: "call \<Rightarrow> (str \<times> str) list" where
  "held_of c = (case c of C_Tool tool arg \<Rightarrow> if gated tool then [(tool, arg)] else [] | _ \<Rightarrow> [])"

definition held_calls :: "bool \<Rightarrow> call list \<Rightarrow> (str \<times> str) list" where
  "held_calls auto_commit L = (if auto_commit then [] else concat (map held_of L))"

definition holds_exactly :: "bool \<Rightarrow> 'w world \<Rightarrow> 'w world \<Rightarrow> bool" where
  "holds_exactly auto_commit s t \<longleftrightarrow> (\<exists>L P. trail t = trail s @ L \<and> w_pending t = w_pending s @ P \<and>
     map (\<lambda>pa. (pa_tool pa, pa_argument pa)) P = held_calls auto_commit L)"

interpretation exact: state_rel "holds_exactly auto_commit" for auto_commit
proof
  fix s t u :: "'a world"
  show "holds_exactly auto_commit s s" by (simp add: holds_exactly_def held_calls_def)
  assume "holds_exactly auto_commit s t" "holds_exactly auto_commit t u"
  then obtain L P M Q where
    "trail t = trail s @ L" "w_pending t = w_pending s @ P" "trail u = trail t @ M" "w_pending u = w_pending t @ Q"
    "map (\<lambda>pa. (pa_tool pa, pa_argument pa)) P = held_calls auto_commit L"
    "map (\<lambda>pa. (pa_tool pa, pa_argument pa)) Q = held_calls auto_commit M"
    unfolding holds_exactly_def by blast
  then show "holds_exactly auto_commit s u"
    unfolding holds_exactly_def by (intro exI [of _ "L @ M"] exI [of _ "P @ Q"]) (simp add: held_calls_def)
qed

lemma held_of_simps [simp]:
  "held_of (C_Event ev) = []" "held_of (C_Plan x) = []" "held_of (C_Edit e) = []" "held_of (C_Think c) = []"
  "held_of (C_Audit a) = []" "held_of (C_Repair p) = []"
  "held_of (C_Tool tool arg) = (if gated tool then [(tool, arg)] else [])"
  by (simp_all add: held_of_def)

lemma exact_plain:
  "trail t = trail s @ L \<Longrightarrow> w_pending t = w_pending s \<Longrightarrow> concat (map held_of L) = [] \<Longrightarrow>
   holds_exactly auto_commit s t"
  unfolding holds_exactly_def by (intro exI [of _ L] exI [of _ "[]"]) (simp add: held_calls_def)

lemma exact_mark: "held_of c = [] \<Longrightarrow> rel_eff (holds_exactly auto_commit) (mark c)"
  by (rule rel_effI) (auto simp: mark_app intro: exact_plain [of _ _ "[c]"])

lemma exact_metric: "rel_eff (holds_exactly auto_commit) (count_metric f)"
  by (rule rel_effI) (auto simp: count_metric_app intro: exact_plain [of _ _ "[]"])

lemma exact_external: "rel_eff (holds_exactly auto_commit) (external f)"
  by (rule rel_effI) (auto simp: external_def split: prod.splits intro: exact_plain [of _ _ "[]"])

lemma exact_event: "rel_eff (holds_exactly auto_commit) (bridge_emit_event h ev)"
  by (rule rel_effI) (auto simp: bridge_emit_event_def eff_simps intro: exact_plain [of _ _ "[C_Event ev]"])

lemma exact_edit: "rel_eff (holds_exactly auto_commit) (bridge_apply_edit h e)"
  unfolding bridge_apply_edit_def by (intro exact.rel_bnd exact_mark exact_external) simp

lemmas exact_intros = exact.rel_intros exact_mark exact_metric exact_external exact_event exact_edit

lemma exact_run:
  fixes q :: "'w quest"
  assumes "tool_executor (q_tools q)" and "\<And>tool arg. rel_eff pending_same (q_tools q tool arg)"
  shows "rel_eff (holds_exactly (qc_auto_commit (q_config q)))
    (bnd (mark (C_Tool tool arg)) (\<lambda>_. bnd (subtask_executor q st tool arg) (\<lambda>obs. ret (obs, True))))"
proof (rule rel_effI)
  let ?auto = "qc_auto_commit (q_config q)"
  fix s t :: "'w world" and res
  assume *: "bnd (mark (C_Tool tool arg)) (\<lambda>_. bnd (subtask_executor q st tool arg) (\<lambda>obs. ret (obs, True))) s = (res, t)"
  let ?s = "s\<lparr>trail := trail s @ [C_Tool tool arg]\<rparr>"
  obtain r where ex: "subtask_executor q st tool arg ?s = (r, t)"
    using * by (auto simp: eff_simps split: prod.splits sum.splits)
  show "holds_exactly ?auto s t"
  proof (cases "gated tool \<and> \<not> ?auto")
    case True
    let ?p = "\<lparr>pa_id = fast_id (w_counter s), pa_tool = tool, pa_argument = arg, pa_subtask = st_id st\<rparr>"
    from True ex have "trail t = trail s @ [C_Tool tool arg]" "w_pending t = w_pending s @ [?p]"
      by (auto simp: subtask_executor_def quest_tool_run_def hold_action_def eff_simps)
    with True show ?thesis unfolding holds_exactly_def
      by (intro exI [of _ "[C_Tool tool arg]"] exI [of _ "[?p]"]) (simp add: held_calls_def)
  next
    case False
    then have heal: "subtask_executor q st tool arg =
        healing_run (q_tools q) (qc_max_repair_attempts (q_config q)) (q_llm q) tool arg"
      by (auto simp: subtask_executor_def quest_tool_run_def)
    have pend: "w_pending t = w_pending s"
      using rel_effD [OF pending_same_healing [OF assms(2)] ex [unfolded heal]] by (simp add: pending_same_def)
    obtain L where L: "trail t = trail ?s @ L" "list_all executor_call L"
      by (rule tool_executor.run_trail [OF tool_executor_healing [OF assms(1)] ex [unfolded heal]])
    have "concat (map held_of L) = []"
      using L(2) by (auto simp: list_all_iff executor_call_def held_of_def split: call.splits)
    with L(1) pend False show ?thesis unfolding holds_exactly_def
      by (intro exI [of _ "C_Tool tool arg # L"] exI [of _ "[]"]) (auto simp: held_calls_def)
  qed
qed

lemma exact_quest:
  fixes q :: "'w quest"
  assumes "tool_executor (q_tools q)" and "\<And>tool arg. rel_eff pending_same (q_tools q tool arg)"
    and "\<And>s. holds_exactly (qc_auto_commit (q_config q)) s (snd (q_decomposer q goal s))"
  shows "rel_eff (holds_exactly (qc_auto_commit (q_config q))) (quest_run q goal)" (is "rel_eff ?R _")
proof -
  have "rel_eff ?R (authorize_and_record (subtask_planner q st) tool)" for st tool
    unfolding authorize_and_record_def record_audit_def
    by (auto split: option.splits sum.splits intro!: exact_intros)
  then have "rel_eff ?R (act (subtask_planner q st) plan)" for st plan
    unfolding act_def subtask_planner_fields
    by (intro exact.rel_handle exact.rel_bnd exact_metric exact_run [OF assms(1,2)] exact_event exact.rel_ret)
  then have step: "rel_eff ?R (react_step (subtask_planner q st) c)" for st c
    unfolding react_step_def think_and_plan_def edit_if_modify_def
    by (auto split: prod.splits intro!: exact_intros)
  have "rel_eff ?R (prepare_window pl i ctx)" for pl :: "'w planner" and i ctx
    unfolding prepare_window_def by (intro exact.rel_bnd exact_event exact.rel_ret)
  with step have "rel_eff ?R (planner_run (subtask_planner q st) g)" for st g
    unfolding planner_run_def by (intro rel_react_loop exact.state_rel_axioms)
  then show ?thesis by (intro rel_quest exact.state_rel_axioms assms(3))
qed

text \<open>
  What a quest holds for approval: the pending list only grows, each entry is an Execute or
  Commit class action that the principal's mask permits, and the ids are the successive values of
  the shared counter.
\<close>

theorem quest_pending_held:
  assumes "\<And>tool arg. rel_eff pending_same (q_tools q tool arg)"
    and "\<And>s. pending_same s (snd (q_decomposer q goal s))"
    and "quest_run q goal s = (Inr rp, t)"
  shows "\<exists>P. rp_pending rp = w_pending s @ P \<and>
    list_all (\<lambda>pa. gated (pa_tool pa) \<and> permitted (q_principal q) (pa_tool pa)) P \<and>
    map pa_id P = map (\<lambda>i. fast_id (w_counter s + of_nat i)) [0..<length P]"
proof -
  from rel_effD [OF quest_held [OF assms(1,2)] assms(3)] have "held (q_principal q) s t" .
  moreover have "rp_pending rp = w_pending t"
    using assms(3) by (auto simp: quest_run_def split: prod.splits)
  ultimately show ?thesis by (auto simp: held_def)
qed

theorem quest_pending_held_witness:
  "\<exists>rp t. quest_run (demo_quest no_spawn ''shell'' ''ls'' 63) ''g'' (world0 Map.empty) = (Inr rp, t) \<and>
     list_all (\<lambda>pa. gated (pa_tool pa)) (rp_pending rp)"
proof -
  let ?q = "demo_quest no_spawn ''shell'' ''ls'' 63"
  obtain rp t where run: "quest_run ?q ''g'' (world0 Map.empty) = (Inr rp, t)"
    by (force simp: quest_run_def split: prod.splits)
  have "rel_eff pending_same (q_tools ?q tool arg)" for tool arg
    by (simp add: demo_quest_def pending_same_shell)
  moreover have "pending_same s (snd (q_decomposer ?q ''g'' s))" for s
    by (simp add: demo_decompose pending_same_def)
  ultimately have "\<exists>P. rp_pending rp = w_pending (world0 (Map.empty :: docs)) @ P \<and>
    list_all (\<lambda>pa. gated (pa_tool pa) \<and> permitted (q_principal ?q) (pa_tool pa)) P \<and>
    map pa_id P = map (\<lambda>i. fast_id (w_counter (world0 (Map.empty :: docs)) + of_nat i)) [0..<length P]"
    using quest_pending_held [OF _ _ run] by blast
  then show ?thesis using run by (auto simp: world0_def list_all_iff)
qed

section \<open>Bounds\<close>

definition active :: "subtask list \<Rightarrow> nat" where
  "active sts = length (filter (\<lambda>st. st_status st \<noteq> ST_Skipped) sts)"

lemma active_cap: "active (cap_subtasks n sts) \<le> n"
proof (cases "n < length sts")
  case True
  then have "active (cap_subtasks n sts) = length (filter (\<lambda>st. st_status st \<noteq> ST_Skipped) (take n sts))"
    by (simp add: active_def cap_subtasks_def filter_map comp_def)
  also have "\<dots> \<le> n" by (rule order_trans [OF length_filter_le]) simp
  finally show ?thesis .
next
  case False
  then show ?thesis unfolding active_def cap_subtasks_def
    by (simp add: order_trans [OF length_filter_le])
qed

lemma tools_le_subtask:
  assumes tools: "tool_executor (q_tools q)"
  shows "tools_le (qc_max_steps (q_config q)) (execute_subtask q st)"
proof -
  have "tools_le (pl_max_steps (subtask_planner q st)) (planner_run (subtask_planner q st) g)" for g
    unfolding planner_run_def
    by (intro tools_le_react_loop subtask_tool_executor tools no_tools no_tool_rest(4))
  then have "tools_le (qc_max_steps (q_config q) + 0) (execute_subtask q st)"
    unfolding execute_subtask_def by (intro tools_le_bnd tools_le_ret) simp
  then show ?thesis by simp
qed

lemma tool_runs_try:
  assumes tools: "tool_executor (q_tools q)"
  shows "tool_runs (snd (try_subtask n q st w)) \<le> tool_runs w + n * qc_max_steps (q_config q)"
proof (induction n arbitrary: w)
  case (Suc n)
  obtain r w1 where ex: "execute_subtask q st w = (r, w1)" by force
  have "tool_runs w1 \<le> tool_runs w + qc_max_steps (q_config q)"
    using tools_le_subtask [OF tools, of st] ex unfolding tools_le_def by (metis snd_conv)
  with Suc.IH [of w1] ex show ?case by (auto split: sum.splits bool.splits)
qed simp

lemma tool_runs_subtasks:
  assumes tools: "tool_executor (q_tools q)"
  shows "tool_runs (snd (run_subtasks q sts ok bad w)) \<le>
     tool_runs w + active sts * ((qc_subtask_max_retries (q_config q) + 1) * qc_max_steps (q_config q))"
proof (induction sts arbitrary: ok bad w)
  case (Cons st sts)
  show ?case
  proof (cases "st_status st = ST_Skipped")
    case True
    with Cons.IH [of ok bad w] show ?thesis by (simp add: split_beta active_def)
  next
    case False
    obtain d w1 where run: "try_subtask (qc_subtask_max_retries (q_config q) + 1) q
        (st\<lparr>st_status := ST_Running\<rparr>) w = (d, w1)" by force
    have "tool_runs w1 \<le> tool_runs w + (qc_subtask_max_retries (q_config q) + 1) * qc_max_steps (q_config q)"
      using tool_runs_try [OF tools, of "qc_subtask_max_retries (q_config q) + 1" "st\<lparr>st_status := ST_Running\<rparr>" w] run
      by simp
    with Cons.IH [of "if d then ok + 1 else ok" "if d then bad else bad + 1" w1] run False
    show ?thesis by (simp add: split_beta active_def)
  qed
qed simp

text \<open>
  Executions: what the self-healer starts of the wrapped executor.  Per tool the planner runs, there is
  the first attempt and one more per repair.
\<close>

definition is_attempt :: "call \<Rightarrow> bool" where
  "is_attempt c = (case c of C_Attempt _ _ \<Rightarrow> True | _ \<Rightarrow> False)"

definition attempts :: "'w world \<Rightarrow> nat" where
  "attempts w = length (filter is_attempt (trail w))"

lemma attempts_heal_calls: "attempts w = length (filter is_attempt (heal_calls w))"
proof -
  have "(\<lambda>c. is_attempt c \<and> heal_call c) = is_attempt"
    by (auto simp: is_attempt_def heal_call_def fun_eq_iff split: call.splits)
  then show ?thesis by (simp add: attempts_def heal_calls_def conj_commute)
qed

lemma attempts_repairs: "length (filter is_attempt (repair_calls tool rs)) = length rs"
  by (induction rs) (auto simp: is_attempt_def)

lemma healing_attempts:
  assumes "base_executor run_tool"
  shows "attempts (snd (healing_run run_tool m llm tool arg s)) \<le> attempts s + (m + 1)"
proof -
  obtain r s1 where att: "attempt run_tool tool arg s = (r, s1)" by force
  have one: "attempts s1 = attempts s + 1"
    using base_executor.attempt_calls [OF assms att] by (simp add: attempts_heal_calls is_attempt_def)
  show ?thesis
  proof (cases r)
    case (Inr obs)
    with att one show ?thesis by (simp add: healing_run_def self_heal_run_def)
  next
    case (Inl e)
    obtain res t where loop: "heal_loop m run_tool llm tool 0 arg e s1 = (res, t)" by force
    from base_executor.heal_loop_calls [OF assms loop] have "attempts t \<le> attempts s1 + m"
      by (cases res) (auto simp: attempts_heal_calls attempts_repairs is_attempt_def)
    with Inl att loop one show ?thesis
      by (cases res) (simp_all add: healing_run_def self_heal_run_def)
  qed
qed

definition attempts_per_tool :: "nat \<Rightarrow> call list \<Rightarrow> bool" where
  "attempts_per_tool k L \<longleftrightarrow> length (filter is_attempt L) \<le> k * length (filter is_tool L)"

interpretation per_tool: log_property "attempts_per_tool k" for k
  by unfold_locales (auto simp: attempts_per_tool_def algebra_simps)

lemma per_tool_plain [simp]: "\<not> is_attempt c \<Longrightarrow> attempts_per_tool k [c]"
  by (simp add: attempts_per_tool_def)

lemma not_attempt_calls [simp]:
  "\<not> is_attempt (C_Event ev)" "\<not> is_attempt (C_Plan x)" "\<not> is_attempt (C_Edit e)" "\<not> is_attempt (C_Think c)"
  "\<not> is_attempt (C_Audit a)" "\<not> is_attempt (C_Tool x y)"
  by (simp_all add: is_attempt_def)

lemma per_tool_executor:
  assumes "base_executor (q_tools q)" and "subtask_executor q st tool arg u = (r, t)"
  shows "attempts t \<le> attempts u + (qc_max_repair_attempts (q_config q) + 1)"
proof (cases "gated tool \<and> \<not> qc_auto_commit (q_config q)")
  case True
  then show ?thesis using assms(2)
    by (auto simp: subtask_executor_def quest_tool_run_def hold_action_def eff_simps attempts_def)
next
  case False
  then have "subtask_executor q st tool arg =
      healing_run (q_tools q) (qc_max_repair_attempts (q_config q)) (q_llm q) tool arg"
    by (auto simp: subtask_executor_def quest_tool_run_def)
  with healing_attempts [OF assms(1), of "qc_max_repair_attempts (q_config q)" "q_llm q" tool arg u] assms(2)
  show ?thesis by simp
qed

lemma per_tool_act:
  assumes "base_executor (q_tools q)"
  shows "rel_eff (logs (attempts_per_tool (qc_max_repair_attempts (q_config q) + 1))) (act (subtask_planner q st) plan)"
    (is "rel_eff ?R _")
proof -
  let ?tool = "plan_tool plan" and ?arg = "plan_argument plan"
  have run: "rel_eff ?R (bnd (mark (C_Tool ?tool ?arg)) (\<lambda>_. bnd (subtask_executor q st ?tool ?arg) (\<lambda>obs. ret (obs, True))))"
  proof (rule rel_effI)
    fix s t :: "'a world" and res
    assume *: "bnd (mark (C_Tool ?tool ?arg)) (\<lambda>_. bnd (subtask_executor q st ?tool ?arg) (\<lambda>obs. ret (obs, True))) s = (res, t)"
    let ?s = "s\<lparr>trail := trail s @ [C_Tool ?tool ?arg]\<rparr>"
    obtain r t' where ex: "subtask_executor q st ?tool ?arg ?s = (r, t')" by force
    with * have t: "t = t'" by (cases r) (simp_all add: eff_simps)
    have "tool_executor (subtask_executor q st)"
      using subtask_tool_executor [OF base_executor.axioms(1) [OF assms], of st] by simp
    from tool_executor.run_trail [OF this ex] obtain L where
      L: "trail t' = trail ?s @ L" "list_all executor_call L" .
    have "length (filter is_attempt L) \<le> qc_max_repair_attempts (q_config q) + 1"
      using per_tool_executor [OF assms ex] L(1) by (simp add: attempts_def)
    then have "attempts_per_tool (qc_max_repair_attempts (q_config q) + 1) (C_Tool ?tool ?arg # L)"
      by (simp add: attempts_per_tool_def)
    with L(1) t show "?R s t" by (auto simp: logs_def)
  qed
  have "rel_eff ?R (authorize_and_record (subtask_planner q st) ?tool)"
    unfolding authorize_and_record_def record_audit_def
    by (auto split: option.splits sum.splits intro!: per_tool.logs_intros)
  then show ?thesis
    unfolding act_def subtask_planner_fields
    by (intro per_tool.trail.rel_handle per_tool.trail.rel_bnd per_tool.logs_metric run per_tool.logs_event
        per_tool.trail.rel_ret) simp_all
qed

lemma per_tool_quest:
  assumes "base_executor (q_tools q)"
    and "\<And>s. logs (attempts_per_tool (qc_max_repair_attempts (q_config q) + 1)) s (snd (q_decomposer q goal s))"
  shows "rel_eff (logs (attempts_per_tool (qc_max_repair_attempts (q_config q) + 1))) (quest_run q goal)"
    (is "rel_eff ?R _")
proof -
  have step: "rel_eff ?R (react_step (subtask_planner q st) c)" for st c
    unfolding react_step_def think_and_plan_def edit_if_modify_def
    by (auto split: prod.splits intro!: per_tool.logs_intros per_tool.logs_event per_tool.logs_edit per_tool_act [OF assms(1), simplified])
  have "rel_eff ?R (prepare_window pl i ctx)" for pl :: "'a planner" and i ctx
    unfolding prepare_window_def by (intro per_tool.logs_intros per_tool.logs_event) simp
  with step have "rel_eff ?R (planner_run (subtask_planner q st) g)" for st g
    unfolding planner_run_def by (intro rel_react_loop per_tool.trail.state_rel_axioms)
  then show ?thesis by (intro rel_quest per_tool.trail.state_rel_axioms assms(2))
qed

text \<open>
  C18: a quest is bounded, however many subtasks the model asks for: over a base executor the planners
  run at most \<open>quest_max_subtasks * (subtask_max_retries + 1) * quest_max_steps\<close> tools, and the
  self-healers under them start at most \<open>max_repair_attempts + 1\<close> executions for each.
\<close>

theorem quest_bounded:
  assumes "base_executor (q_tools q)"
    and "\<And>s. logs (list_all (\<lambda>c. \<not> is_tool c \<and> \<not> is_attempt c)) s (snd (q_decomposer q goal s))"
  shows "tool_runs (snd (quest_run q goal s)) \<le> tool_runs s +
      qc_max_subtasks (q_config q) * ((qc_subtask_max_retries (q_config q) + 1) * qc_max_steps (q_config q)) \<and>
    attempts (snd (quest_run q goal s)) \<le> attempts s +
      (qc_max_repair_attempts (q_config q) + 1) * (tool_runs (snd (quest_run q goal s)) - tool_runs s)"
proof -
  let ?k = "(qc_subtask_max_retries (q_config q) + 1) * qc_max_steps (q_config q)"
  let ?R = "logs (attempts_per_tool (qc_max_repair_attempts (q_config q) + 1))"
  obtain sts s1 where d: "q_decomposer q goal s = (sts, s1)" by force
  have plain: "tool_runs s1 = tool_runs s"
    using assms(2) [of s] d by (auto simp: logs_def tool_runs_def list_all_iff filter_empty_conv)
  let ?cap = "cap_subtasks (qc_max_subtasks (q_config q)) sts"
  have "tool_runs (snd (run_subtasks q ?cap 0 0 s1)) \<le> tool_runs s1 + active ?cap * ?k"
    by (rule tool_runs_subtasks [OF base_executor.axioms(1) [OF assms(1)]])
  also have "\<dots> \<le> tool_runs s1 + qc_max_subtasks (q_config q) * ?k"
    by (intro add_left_mono mult_right_mono active_cap) simp
  finally have tools: "tool_runs (snd (quest_run q goal s)) \<le> tool_runs s + qc_max_subtasks (q_config q) * ?k"
    using plain d by (simp add: quest_run_def split_beta)
  have "?R s (snd (q_decomposer q goal s))" for s
    using assms(2) [of s] unfolding logs_def attempts_per_tool_def list_all_iff
    by (metis (mono_tags, lifting) bot_nat_0.extremum filter_False list.size(3))
  from per_tool_quest [OF assms(1) this] have "?R s (snd (quest_run q goal s))"
    by (simp add: rel_eff_def)
  then have "attempts (snd (quest_run q goal s)) \<le> attempts s +
      (qc_max_repair_attempts (q_config q) + 1) * (tool_runs (snd (quest_run q goal s)) - tool_runs s)"
    by (auto simp: logs_def attempts_per_tool_def attempts_def tool_runs_def)
  with tools show ?thesis by blast
qed

theorem quest_bounded_witness:
  "let t = snd (quest_run (demo_quest no_spawn ''shell'' ''ls'' 63) ''g'' (world0 Map.empty))
   in tool_runs t \<le> 8 \<and> attempts t \<le> 32"
proof -
  let ?q = "demo_quest no_spawn ''shell'' ''ls'' 63"
  have "logs (list_all (\<lambda>c. \<not> is_tool c \<and> \<not> is_attempt c)) s (snd (q_decomposer ?q ''g'' s))" for s
    by (simp add: demo_decompose logs_def is_tool_def is_attempt_def)
  from quest_bounded [OF demo_base this, of "world0 Map.empty"] show ?thesis
    by (simp add: Let_def tool_runs_def attempts_def world0_def)
      (simp add: demo_quest_def quest_config_default_def)
qed

section \<open>When a subtask counts as a success\<close>

lemma shell_run_ok:
  assumes "command_for tool arg = Some cmd"
    and "sp ''sh'' [''-c'', cmd] dir (env w) = (Inr \<lparr>ro_ok = True, ro_stdout = out, ro_stderr = err\<rparr>, e)"
  shows "\<exists>w'. healing_run (shell_tool_run sp dir) m llm tool arg w =
    (Inr \<lparr>obs_tool = tool, obs_output = out, obs_terminal = True\<rparr>, w')"
  using assms
  by (simp add: healing_run_def self_heal_run_def attempt_def shell_tool_run_def run_shell_def spawn_def
      external_def eff_simps)

lemma emit_runs: "\<exists>w'. (bridge_emit_event h ev :: ('w, 'e, unit) run) w = (Inr (), w')"
  by (simp add: bridge_emit_event_def eff_simps)

text \<open>A scripted step: a free tool that always answers the same.\<close>

lemma react_step_scripted:
  assumes "pl_llm pl = scripted_llm tool arg" and free: "action_permission tool = None"
    and tools: "\<And>w. \<exists>w'. pl_tools pl tool arg w = (Inr obs, w')"
  shows "\<exists>sx w'. react_step pl c w = (Inr (sx, obs), w')"
proof -
  let ?plan = "\<lparr>plan_tool = tool, plan_argument = arg\<rparr>"
  obtain w1 where 1: "think_and_plan pl c w = (Inr (''t'', ?plan), w1)"
    using assms(1) by (simp add: think_and_plan_def scripted_llm_def external_def eff_simps)
  obtain w2 where 2: "(bridge_emit_event (pl_host pl) (Status (''action='' @ tool @ '' arg='' @ arg))
      :: ('a, str, unit) run) w1 = (Inr (), w2)"
    using emit_runs by blast
  let ?w = "w2\<lparr>w_metrics := inc_tool_calls (w_metrics w2), trail := trail w2 @ [C_Tool tool arg]\<rparr>"
  obtain w3 where "pl_tools pl tool arg ?w = (Inr obs, w3)" using tools by blast
  then have "act pl ?plan w2 = (Inr (obs, True), w3)"
    using free by (simp add: act_def eff_simps authorize_and_record_def)
  moreover have "tool \<noteq> ''modify''" using free modify_permission by auto
  ultimately show ?thesis using 1 2 by (simp add: react_step_def edit_if_modify_def)
qed

lemma planner_run_terminal:
  assumes step: "\<And>c w. \<exists>sx w'. react_step pl c w = (Inr (sx, obs), w')"
    and "pl_validator pl obs 1 = V_Done" and m: "pl_max_steps pl = Suc m"
  shows "\<exists>sx w'. planner_run pl goal w = (Inr \<lparr>steps = [sx], final_answer = obs_output obs\<rparr>, w')"
proof -
  let ?ctx = "cm_push (''goal: '' @ goal) (cm_new 16)"
  obtain w1 where "(bridge_emit_event (pl_host pl) (Status (''step '' @ show_nat 0 @ '': thinking''))
      :: ('a, str, unit) run) w = (Inr (), w1)"
    using emit_runs by blast
  then have "prepare_window pl 0 ?ctx w = (Inr (snapshot ?ctx, ?ctx), w1)"
    by (simp add: prepare_window_def)
  moreover obtain sx w2 where "react_step pl (snapshot ?ctx) w1 = (Inr (sx, obs), w2)" using step by blast
  ultimately show ?thesis using assms(2) by (simp add: planner_run_def m)
qed

text \<open>
  A successful command is not a success: when the model answers a subtask with an engineering
  command, and the command succeeds on every try, the loop ends with the command's output as its
  answer, and unless that output is literally "task finished" the subtask is tried again as often as
  retries allow and then counted as failed.
\<close>

theorem successful_command_counts_as_failure:
  assumes "q_llm q = scripted_llm tool arg" and "q_tools q = shell_tool_run sp dir"
    and "action_permission tool = None" and "command_for tool arg = Some cmd"
    and "\<And>e. \<exists>e'. sp ''sh'' [''-c'', cmd] dir e = (Inr \<lparr>ro_ok = True, ro_stdout = out, ro_stderr = err\<rparr>, e')"
    and "q_validator q = basic_validate k" and "0 < qc_max_steps (q_config q)"
    and "out \<noteq> ''task finished''"
  shows "\<not> fst (try_subtask n q st w)"
proof -
  let ?obs = "\<lparr>obs_tool = tool, obs_output = out, obs_terminal = True\<rparr>"
  have "\<exists>w'. subtask_executor q st tool arg w = (Inr ?obs, w')" for w
    using assms(2,3,5) shell_run_ok [OF assms(4), of sp dir w out err _ "qc_max_repair_attempts (q_config q)" "q_llm q"]
    by (force simp: subtask_executor_def quest_tool_run_def gated_def)
  then have step: "\<exists>sx w'. react_step (subtask_planner q st) c w = (Inr (sx, ?obs), w')" for c w
    using assms(1,3) by (intro react_step_scripted) simp_all
  obtain m where "qc_max_steps (q_config q) = Suc m" using assms(7) gr0_implies_Suc by blast
  with assms(6) have ends: "\<exists>sx w'. planner_run (subtask_planner q st) g w =
      (Inr \<lparr>steps = [sx], final_answer = obs_output ?obs\<rparr>, w')" for g w
    by (intro planner_run_terminal [OF step]) (simp_all add: basic_validate_def)
  have fails: "\<exists>w'. execute_subtask q st w = (Inr False, w')" for w
    using ends [of "st_description st" w] assms(8) by (auto simp: execute_subtask_def)
  show ?thesis
  proof (induction n arbitrary: w)
    case (Suc n)
    obtain w' where "execute_subtask q st w = (Inr False, w')" using fails by blast
    with Suc.IH [of w'] show ?case by simp
  qed simp
qed

definition ok_spawn :: "'w spawner" where
  "ok_spawn = (\<lambda>_ _ _. ret \<lparr>ro_ok = True, ro_stdout = ''test result: ok'', ro_stderr = []\<rparr>)"

lemma ok_spawn_runs:
  "ok_spawn p a d e = (Inr \<lparr>ro_ok = True, ro_stdout = ''test result: ok'', ro_stderr = []\<rparr>, e)"
  by (simp add: ok_spawn_def)

lemma action_permission_cargo_test: "action_permission ''cargo_test'' = None"
  by (simp add: action_permission_def to_ascii_lowercase_def ascii_lower_def)

theorem successful_command_counts_as_failure_witness:
  "\<not> fst (try_subtask 2 (demo_quest ok_spawn ''cargo_test'' [] 63) (subtask_new ''st-1'' ''run the tests'')
     (world0 Map.empty))"
proof (rule successful_command_counts_as_failure [where err = "[]"])
  show "action_permission ''cargo_test'' = None" by (rule action_permission_cargo_test)
  show "command_for ''cargo_test'' [] = Some ''cargo test''" by (simp add: command_for_def)
  show "''test result: ok'' \<noteq> ''task finished''" by simp
  show "q_tools (demo_quest ok_spawn ''cargo_test'' [] 63) = shell_tool_run ok_spawn ''.''"
    by (simp add: demo_quest_def)
  show "\<exists>e'. ok_spawn ''sh'' [''-c'', ''cargo test''] ''.'' e =
      (Inr \<lparr>ro_ok = True, ro_stdout = ''test result: ok'', ro_stderr = []\<rparr>, e')" for e :: docs
    by (rule exI) (rule ok_spawn_runs)
qed (simp_all add: demo_quest_def quest_config_default_def)

end
