(* ===== verification/Craft.thy ===== *)
theory Craft
  imports Tools
begin

text \<open>
  Human-led editing (crates/core/src/craft.rs): proposals, their confirmation behind the six-bit
  mask, and sessions of several proposals.
\<close>

section \<open>Proposals\<close>

datatype craft_state = CS_Suggestion | CS_PendingConfirm | CS_Applied | CS_Rejected

datatype edit_kind = K_FileEdit | K_RunCommand | K_Commit

primrec kind_permission :: "edit_kind \<Rightarrow> permission" where
  "kind_permission K_FileEdit = P_Modify"
| "kind_permission K_RunCommand = P_Execute"
| "kind_permission K_Commit = P_Commit"

primrec kind_str :: "edit_kind \<Rightarrow> str" where
  "kind_str K_FileEdit = ''FileEdit''"
| "kind_str K_RunCommand = ''RunCommand''"
| "kind_str K_Commit = ''Commit''"

record craft_proposal =
  cp_id :: str
  cp_uri :: str
  cp_old :: str
  cp_new :: str
  cp_rationale :: str
  cp_kind :: edit_kind
  cp_state :: craft_state

definition proposal_new :: "str \<Rightarrow> str \<Rightarrow> str \<Rightarrow> str \<Rightarrow> str \<Rightarrow> edit_kind \<Rightarrow> craft_proposal" where
  "proposal_new i uri old new rationale k =
     \<lparr>cp_id = i, cp_uri = uri, cp_old = old, cp_new = new, cp_rationale = rationale, cp_kind = k,
      cp_state = CS_Suggestion\<rparr>"

definition mark_pending :: "craft_proposal \<Rightarrow> craft_proposal" where
  "mark_pending p = (if cp_state p = CS_Suggestion then p\<lparr>cp_state := CS_PendingConfirm\<rparr> else p)"

definition reject :: "craft_proposal \<Rightarrow> craft_proposal" where
  "reject p = (if cp_state p \<noteq> CS_Applied then p\<lparr>cp_state := CS_Rejected\<rparr> else p)"

section \<open>The engine\<close>

record 'w craft_engine =
  ce_host :: "'w host_provider"
  ce_perms :: permission_set
  ce_principal :: principal
  ce_sink :: "audit_event \<Rightarrow> ('w, str, unit) eff"
  ce_clock :: "'w \<Rightarrow> int"

text \<open>The default governance of \<open>new\<close>: an in-memory sink, which never fails.\<close>

definition craft_engine_new :: "'w host_provider \<Rightarrow> permission_set \<Rightarrow> ('w \<Rightarrow> int) \<Rightarrow> 'w craft_engine" where
  "craft_engine_new h ps clk = \<lparr>ce_host = h, ce_perms = ps,
     ce_principal = principal_from_mask ''single'' ''craft'' ps, ce_sink = (\<lambda>_. ret ()), ce_clock = clk\<rparr>"

definition craft_with_governance ::
  "principal \<Rightarrow> (audit_event \<Rightarrow> ('w, str, unit) eff) \<Rightarrow> 'w craft_engine \<Rightarrow> 'w craft_engine" where
  "craft_with_governance pr sink e = e\<lparr>ce_perms := perms pr, ce_principal := pr, ce_sink := sink\<rparr>"

text \<open>The counter of ids is the function's own static.\<close>

definition propose :: "str \<Rightarrow> str \<Rightarrow> str \<Rightarrow> str \<Rightarrow> edit_kind \<Rightarrow> u64 \<Rightarrow> craft_proposal \<times> u64" where
  "propose uri old new rationale k counter =
     (proposal_new (''p-'' @ show_nat (unat counter)) uri old new rationale k, counter + 1)"

definition check_permissions :: "'w craft_engine \<Rightarrow> craft_proposal \<Rightarrow> permission_denied + unit" where
  "check_permissions e p = check_permission (ce_principal e) (kind_permission (cp_kind p))"

definition craft_audit :: "'w craft_engine \<Rightarrow> audit_action \<Rightarrow> bool \<Rightarrow> json \<Rightarrow> ('w, str, unit) run" where
  "craft_audit e action g payload =
     bnd (gets (\<lambda>w. audit_event_new (ce_clock e (env w)) (ce_principal e) action g payload)) (\<lambda>ev.
     bnd (mark (C_Audit ev)) (\<lambda>_.
     handle (external (ce_sink e ev)) (\<lambda>_. ret ()) ret))"

definition proposal_edit :: "craft_proposal \<Rightarrow> text_edit" where
  "proposal_edit p = \<lparr>document_uri = cp_uri p, old_text = cp_old p, new_text = cp_new p\<rparr>"

definition apply_proposal :: "'w craft_engine \<Rightarrow> craft_proposal \<Rightarrow> ('w, str, unit) run" where
  "apply_proposal e p =
     bnd (count_metric inc_tool_calls) (\<lambda>_.
       case cp_kind p of
         K_FileEdit \<Rightarrow> handle (bridge_apply_edit (ce_host e) (proposal_edit p))
                          (\<lambda>err. throw (display_host_error err)) ret
       | _ \<Rightarrow> bridge_emit_event (ce_host e)
                (Status (''craft '' @ kind_str (cp_kind p) @ '' approved: '' @ cp_uri p)))"

definition confirm_effects :: "'w craft_engine \<Rightarrow> craft_proposal \<Rightarrow> ('w, str, unit) run" where
  "confirm_effects e p =
     (let action = kind_permission (cp_kind p);
          fields = [(''kind'', JStr (kind_str (cp_kind p))), (''uri'', JStr (cp_uri p))] in
      case check_permission (ce_principal e) action of
        Inr _ \<Rightarrow> bnd (craft_audit e (from_permission action) True (JObj fields)) (\<lambda>_. apply_proposal e p)
      | Inl d \<Rightarrow>
          bnd (count_metric inc_denials) (\<lambda>_.
          bnd (craft_audit e (from_permission action) False
                 (JObj (fields @ [(''reason'', JStr (display_denied d))]))) (\<lambda>_.
          throw (display_denied d))))"

text \<open>\<open>confirm\<close> returns its result together with the proposal it was given by \<open>&mut\<close>.\<close>

definition confirm ::
  "'w craft_engine \<Rightarrow> craft_proposal \<Rightarrow> 'w world \<Rightarrow> ((str + craft_state) \<times> craft_proposal) \<times> 'w world" where
  "confirm e p w =
     (case confirm_effects e p w of
        (Inl err, w') \<Rightarrow> ((Inl err, p), w')
      | (Inr _, w') \<Rightarrow> ((Inr CS_Applied, p\<lparr>cp_state := CS_Applied\<rparr>), w'))"

text \<open>The engine of \<open>new\<close> with all permissions allows everything, and its sink never fails.\<close>

lemma craft_allowed:
  "check_permission (ce_principal (craft_engine_new h ps_all clk)) p = Inr ()"
proof -
  have "ps_from_mask ps_all = ps_all" by (simp add: ps_from_mask_def ps_all_63)
  then show ?thesis by (simp add: craft_engine_new_def has_all)
qed

lemma craft_audit_quiet:
  "craft_audit (craft_engine_new h ps clk) aa g payload w =
     (Inr (), w\<lparr>trail := trail w @ [C_Audit (audit_event_new (clk (env w))
        (ce_principal (craft_engine_new h ps clk)) aa g payload)]\<rparr>)"
  by (simp add: craft_audit_def craft_engine_new_def mark_def external_def eff_simps)

section \<open>Sessions\<close>

type_synonym craft_session = "craft_proposal list"

definition session_add :: "craft_proposal \<Rightarrow> craft_session \<Rightarrow> craft_session" where
  "session_add p ps = ps @ [p]"

definition pending :: "craft_session \<Rightarrow> craft_proposal list" where
  "pending ps = filter (\<lambda>p. cp_state p = CS_Suggestion \<or> cp_state p = CS_PendingConfirm) ps"

fun confirm_all ::
  "'w craft_engine \<Rightarrow> craft_session \<Rightarrow> 'w world \<Rightarrow> ((str + craft_state) list \<times> craft_session) \<times> 'w world" where
  "confirm_all e [] w = (([], []), w)"
| "confirm_all e (p # ps) w =
     (case confirm e p w of ((r, p'), w1) \<Rightarrow>
        (case confirm_all e ps w1 of ((rs, ps'), w2) \<Rightarrow> ((r # rs, p' # ps'), w2)))"

definition reject_all :: "craft_session \<Rightarrow> craft_session" where
  "reject_all ps = map reject ps"

section \<open>What a confirmation does\<close>

lemma craft_audit_run:
  "\<exists>ev e'. craft_audit e action g payload w = (Inr (), w\<lparr>trail := trail w @ [C_Audit ev], env := e'\<rparr>) \<and>
     ev_action ev = action \<and> ev_granted ev = g \<and> ev_tenant ev = tenant_id (ce_principal e) \<and>
     ev_user ev = user_id (ce_principal e) \<and> ev_payload ev = payload"
proof -
  let ?ev = "audit_event_new (ce_clock e (env w)) (ce_principal e) action g payload"
  obtain r e' where sink: "ce_sink e ?ev (env w) = (r, e')" by force
  then have "craft_audit e action g payload w = (Inr (), w\<lparr>trail := trail w @ [C_Audit ?ev], env := e'\<rparr>)"
    by (cases r; simp add: craft_audit_def eff_simps external_def)
  then show ?thesis by (intro exI conjI) (assumption, simp_all add: audit_event_new_def)
qed

definition confirm_call :: "craft_proposal \<Rightarrow> call" where
  "confirm_call p = (case cp_kind p of
       K_FileEdit \<Rightarrow> C_Edit (proposal_edit p)
     | _ \<Rightarrow> C_Event (Status (''craft '' @ kind_str (cp_kind p) @ '' approved: '' @ cp_uri p)))"

lemma apply_proposal_run:
  assumes "apply_proposal e p w = (r, w')"
  shows "trail w' = trail w @ [confirm_call p] \<and> w_metrics w' = inc_tool_calls (w_metrics w) \<and>
    (case r of Inr _ \<Rightarrow> True
     | Inl err \<Rightarrow> cp_kind p = K_FileEdit \<and>
         (\<exists>h env'. hp_apply_edit (ce_host e) (proposal_edit p) (env w) = (Inl h, env') \<and>
            err = display_host_error h)) \<and>
    (cp_kind p = K_FileEdit \<longrightarrow> (\<exists>h. hp_apply_edit (ce_host e) (proposal_edit p) (env w) = (h, env w')))"
  using assms
  by (cases "cp_kind p")
    (auto simp: apply_proposal_def confirm_call_def bridge_apply_edit_def bridge_emit_event_def external_def
      eff_simps split: prod.splits sum.splits)

lemma confirm_cases:
  obtains (denied) ev where "\<not> has (perms (ce_principal e)) (kind_permission (cp_kind p))"
      "fst (confirm e p w) = (Inl (display_denied \<lparr>pd_required = kind_permission (cp_kind p),
          pd_mask = perms (ce_principal e)\<rparr>), p)"
      "trail (snd (confirm e p w)) = trail w @ [C_Audit ev]" "\<not> ev_granted ev"
      "ev_action ev = from_permission (kind_permission (cp_kind p))"
      "ev_user ev = user_id (ce_principal e)"
      "w_metrics (snd (confirm e p w)) = inc_denials (w_metrics w)"
  | (allowed) ev where "has (perms (ce_principal e)) (kind_permission (cp_kind p))"
      "trail (snd (confirm e p w)) = trail w @ [C_Audit ev, confirm_call p]" "ev_granted ev"
      "ev_action ev = from_permission (kind_permission (cp_kind p))"
      "ev_user ev = user_id (ce_principal e)"
      "w_metrics (snd (confirm e p w)) = inc_tool_calls (w_metrics w)"
      "fst (confirm e p w) = (Inr CS_Applied, p\<lparr>cp_state := CS_Applied\<rparr>) \<or>
       (\<exists>h. cp_kind p = K_FileEdit \<and> fst (confirm e p w) = (Inl (display_host_error h), p))"
proof (cases "has (perms (ce_principal e)) (kind_permission (cp_kind p))")
  case False
  let ?d = "\<lparr>pd_required = kind_permission (cp_kind p), pd_mask = perms (ce_principal e)\<rparr>"
  let ?w = "w\<lparr>w_metrics := inc_denials (w_metrics w)\<rparr>"
  let ?pl = "JObj ([(''kind'', JStr (kind_str (cp_kind p))), (''uri'', JStr (cp_uri p))] @
      [(''reason'', JStr (display_denied ?d))])"
  let ?a = "from_permission (kind_permission (cp_kind p))"
  obtain ev e' where ev: "craft_audit e ?a False ?pl ?w = (Inr (), ?w\<lparr>trail := trail ?w @ [C_Audit ev], env := e'\<rparr>)"
    "ev_action ev = ?a" "\<not> ev_granted ev" "ev_user ev = user_id (ce_principal e)"
    using craft_audit_run [of e ?a False ?pl ?w] by auto
  have "confirm e p w = ((Inl (display_denied ?d), p), ?w\<lparr>trail := trail ?w @ [C_Audit ev], env := e'\<rparr>)"
    using False ev(1) by (simp add: confirm_def confirm_effects_def Let_def check_permission_def require_def eff_simps)
  then show thesis using denied [of ev] False ev by simp
next
  case True
  let ?pl = "JObj [(''kind'', JStr (kind_str (cp_kind p))), (''uri'', JStr (cp_uri p))]"
  let ?a = "from_permission (kind_permission (cp_kind p))"
  obtain ev e' where ev: "craft_audit e ?a True ?pl w = (Inr (), w\<lparr>trail := trail w @ [C_Audit ev], env := e'\<rparr>)"
    "ev_action ev = ?a" "ev_granted ev" "ev_user ev = user_id (ce_principal e)"
    using craft_audit_run [of e ?a True ?pl w] by auto
  obtain r w' where ap: "apply_proposal e p (w\<lparr>trail := trail w @ [C_Audit ev], env := e'\<rparr>) = (r, w')" by force
  have eff: "confirm_effects e p w = (r, w')"
    using True ev(1) ap by (simp add: confirm_effects_def Let_def check_permission_def require_def)
  show thesis
    using True ev apply_proposal_run [OF ap] eff
    by (intro allowed [of ev]) (cases r; auto simp: confirm_def)+
qed

text \<open>
  The record of a decision, as the engine's clock and principal stand when it is taken.
\<close>

definition decision_record :: "'w craft_engine \<Rightarrow> craft_proposal \<Rightarrow> 'w \<Rightarrow> audit_event" where
  "decision_record e p w =
     (let action = kind_permission (cp_kind p); g = has (perms (ce_principal e)) action;
          denial = \<lparr>pd_required = action, pd_mask = perms (ce_principal e)\<rparr>
      in audit_event_new (ce_clock e w) (ce_principal e) (from_permission action) g
           (JObj ([(''kind'', JStr (kind_str (cp_kind p))), (''uri'', JStr (cp_uri p))] @
              (if g then [] else [(''reason'', JStr (display_denied denial))]))))"

lemma craft_audit_exact:
  "craft_audit e action g payload w =
     (let ev = audit_event_new (ce_clock e (env w)) (ce_principal e) action g payload
      in (Inr (), w\<lparr>trail := trail w @ [C_Audit ev], env := snd (ce_sink e ev (env w))\<rparr>))"
  by (simp add: craft_audit_def eff_simps external_def Let_def split: prod.splits sum.splits)

text \<open>
  C3: a confirmation, on every path, as the exact result, proposal and world it leaves.  Without the
  right of the proposal's kind: the denial, the proposal unchanged, one denied record, one more denial
  counted.  With it: the granted record, whatever the sink answers, and then for a file edit exactly
  the proposal's edit with the host's answer deciding the outcome (its error, the proposal unchanged;
  or Applied), for the other kinds the approval event and Applied.  The record is written before the
  edit and stays granted when the host refuses, where the module documentation of audit.rs has it
  written once the action executed.
\<close>

theorem confirm_effect:
  "let action = kind_permission (cp_kind p); ev = decision_record e p (env w);
       e1 = snd (ce_sink e ev (env w));
       done = (Inr CS_Applied, p\<lparr>cp_state := CS_Applied\<rparr>)
   in confirm e p w =
     (if action \<in> granted (perms (ce_principal e)) then
        (case cp_kind p of
           K_FileEdit \<Rightarrow> (case hp_apply_edit (ce_host e) (proposal_edit p) e1 of (answer, e2) \<Rightarrow>
             ((case answer of Inr _ \<Rightarrow> done | Inl h \<Rightarrow> (Inl (display_host_error h), p)),
              w\<lparr>trail := trail w @ [C_Audit ev, C_Edit (proposal_edit p)], env := e2,
                w_metrics := inc_tool_calls (w_metrics w)\<rparr>))
         | k \<Rightarrow> (let status = Status (''craft '' @ kind_str k @ '' approved: '' @ cp_uri p) in
             (done, w\<lparr>trail := trail w @ [C_Audit ev, C_Event status],
                env := hp_emit_event (ce_host e) status e1, w_metrics := inc_tool_calls (w_metrics w)\<rparr>)))
      else ((Inl (display_denied \<lparr>pd_required = action, pd_mask = perms (ce_principal e)\<rparr>), p),
            w\<lparr>trail := trail w @ [C_Audit ev], env := e1, w_metrics := inc_denials (w_metrics w)\<rparr>))"
proof (cases "has (perms (ce_principal e)) (kind_permission (cp_kind p))")
  case False
  then show ?thesis
    by (simp add: confirm_def confirm_effects_def granted_def check_permission_def require_def craft_audit_exact
        decision_record_def eff_simps Let_def)
next
  case True
  then show ?thesis
    by (cases "cp_kind p")
      (simp_all add: confirm_def confirm_effects_def apply_proposal_def granted_def check_permission_def require_def
        craft_audit_exact decision_record_def bridge_apply_edit_def bridge_emit_event_def external_def
        eff_simps Let_def split: prod.splits sum.splits)
qed

text \<open>
  A rejected proposal is not final: \<open>confirm\<close> never looks at the proposal's state, so for a command
  or commit proposal the user has rejected, confirming it (alone or through \<open>confirm_all\<close>) applies it
  if the principal has the right, although a rejected proposal is documented as never applied.
\<close>

theorem rejected_proposal_can_be_applied:
  assumes "cp_state p = CS_Rejected" and "cp_kind p \<noteq> K_FileEdit"
    and "kind_permission (cp_kind p) \<in> granted (perms (ce_principal e))"
  shows "fst (confirm e p w) = (Inr CS_Applied, p\<lparr>cp_state := CS_Applied\<rparr>) \<and>
    cp_state (hd (snd (fst (confirm_all e (reject_all [p]) w)))) = CS_Applied"
proof -
  have step: "fst (confirm e p w) = (Inr CS_Applied, p\<lparr>cp_state := CS_Applied\<rparr>)"
    using assms by (cases rule: confirm_cases [of e p w]) (auto simp: granted_def)
  have "reject p = p" using assms(1) by (simp add: reject_def)
  with step show ?thesis by (cases "confirm e p w") (auto simp: reject_all_def)
qed

definition demo_engine :: "32 word \<Rightarrow> docs craft_engine" where
  "demo_engine m = craft_engine_new cli_host (ps_from_mask m) (\<lambda>_. 0)"

theorem rejected_proposal_can_be_applied_witness:
  "let p = reject (proposal_new ''p-0'' ''HEAD'' [] [] ''r'' K_Commit)
   in cp_state p = CS_Rejected \<and>
      fst (fst (confirm (demo_engine 63) p (world0 Map.empty))) = Inr CS_Applied"
proof -
  let ?p = "reject (proposal_new ''p-0'' ''HEAD'' [] [] ''r'' K_Commit)"
  have st: "cp_state ?p = CS_Rejected" "cp_kind ?p = K_Commit"
    by (simp_all add: reject_def proposal_new_def)
  have "P_Commit \<in> granted (perms (ce_principal (demo_engine 63)))"
    by (simp add: demo_engine_def craft_engine_new_def granted_def perm_simps) (simp add: has_def)
  with rejected_proposal_can_be_applied [OF st(1), of "demo_engine 63" "world0 Map.empty"] st show ?thesis
    by simp
qed

section \<open>Sessions as a state machine\<close>

text \<open>What a client of the module can do with a session.\<close>

inductive session_step ::
  "'w craft_engine \<Rightarrow> craft_session \<times> 'w world \<Rightarrow> craft_session \<times> 'w world \<Rightarrow> bool" for e where
  add: "cp_state p = CS_Suggestion \<Longrightarrow> session_step e (ps, w) (session_add p ps, w)"
| review: "i < length ps \<Longrightarrow> session_step e (ps, w) (ps[i := mark_pending (ps ! i)], w)"
| confirm: "i < length ps \<Longrightarrow> confirm e (ps ! i) w = ((r, p'), w') \<Longrightarrow>
    session_step e (ps, w) (ps[i := p'], w')"
| confirm_all: "confirm_all e ps w = ((rs, ps'), w') \<Longrightarrow> session_step e (ps, w) (ps', w')"
| reject: "i < length ps \<Longrightarrow> session_step e (ps, w) (ps[i := reject (ps ! i)], w)"
| reject_all: "session_step e (ps, w) (reject_all ps, w)"

text \<open>What stays of a proposal: its content always, and Applied once it is reached.\<close>

definition keeps :: "craft_proposal \<Rightarrow> craft_proposal \<Rightarrow> bool" where
  "keeps p q \<longleftrightarrow> q\<lparr>cp_state := cp_state p\<rparr> = p \<and> (cp_state p = CS_Applied \<longrightarrow> cp_state q = CS_Applied)"

lemma keeps_refl [simp]: "keeps p p"
  by (simp add: keeps_def)

lemma keeps_trans: "keeps p q \<Longrightarrow> keeps q r \<Longrightarrow> keeps p r"
  by (cases p; cases q; cases r) (simp add: keeps_def)

lemma keeps_content: "keeps p q \<Longrightarrow> cp_kind q = cp_kind p \<and> proposal_edit q = proposal_edit p"
  by (cases p; cases q) (simp add: keeps_def proposal_edit_def)

lemma keeps_ops [simp]: "keeps p (mark_pending p)" "keeps p (reject p)" "keeps p (p\<lparr>cp_state := CS_Applied\<rparr>)"
  by (cases p; simp add: keeps_def mark_pending_def reject_def)+

lemma confirm_keeps: "confirm e p w = ((r, p'), w') \<Longrightarrow> keeps p p'"
  by (auto simp: confirm_def split: prod.splits sum.splits)

text \<open>Every call the engine makes is backed by a proposal of the list and by the mask.\<close>

definition backed :: "'w craft_engine \<Rightarrow> craft_proposal list \<Rightarrow> call list \<Rightarrow> bool" where
  "backed e ps L \<longleftrightarrow> (\<forall>ed. C_Edit ed \<in> set L \<longrightarrow>
     has (perms (ce_principal e)) P_Modify \<and> (\<exists>p\<in>set ps. cp_kind p = K_FileEdit \<and> ed = proposal_edit p))"

lemma backed_append: "backed e ps (L @ M) \<longleftrightarrow> backed e ps L \<and> backed e ps M"
  by (auto simp: backed_def)

lemma confirm_backed:
  assumes "confirm e p w = ((r, p'), w')"
  shows "\<exists>L. trail w' = trail w @ L \<and> backed e [p] L"
proof (cases rule: confirm_cases [of e p w])
  case (denied ev)
  with assms show ?thesis by (auto simp: backed_def)
next
  case (allowed ev)
  with assms show ?thesis
    by (intro exI [of _ "[C_Audit ev, confirm_call p]"])
      (cases "cp_kind p"; auto simp: backed_def confirm_call_def)
qed

lemma confirm_all_run:
  "confirm_all e ps w = ((rs, ps'), w') \<Longrightarrow>
   length rs = length ps \<and> list_all2 keeps ps ps' \<and>
   list_all2 (\<lambda>r p'. r = Inr CS_Applied \<longrightarrow> cp_state p' = CS_Applied) rs ps' \<and>
   (\<exists>L. trail w' = trail w @ L \<and> backed e ps L)"
proof (induction ps arbitrary: w rs ps')
  case (Cons p ps)
  obtain r p' w1 where c: "confirm e p w = ((r, p'), w1)" by (metis prod.collapse)
  with Cons.prems obtain rs0 ps0 where rest: "confirm_all e ps w1 = ((rs0, ps0), w')"
    "rs = r # rs0" "ps' = p' # ps0"
    by (auto split: prod.splits)
  from Cons.IH [OF rest(1)] obtain L where IH: "length rs0 = length ps" "list_all2 keeps ps ps0"
    "list_all2 (\<lambda>r p'. r = Inr CS_Applied \<longrightarrow> cp_state p' = CS_Applied) rs0 ps0"
    "trail w' = trail w1 @ L" "backed e ps L" by blast
  obtain L0 where L0: "trail w1 = trail w @ L0" "backed e [p] L0" using confirm_backed [OF c] by blast
  have "r = Inr CS_Applied \<longrightarrow> cp_state p' = CS_Applied"
    using c by (auto simp: confirm_def split: prod.splits sum.splits)
  moreover have "backed e (p # ps) (L0 @ L)" using IH(5) L0(2) by (auto simp: backed_def)
  ultimately show ?case using IH L0 rest confirm_keeps [OF c] by auto
qed (auto simp: backed_def)

lemma list_all2_update: "i < length ps \<Longrightarrow> keeps (ps ! i) q \<Longrightarrow> list_all2 keeps ps (ps[i := q])"
  by (auto simp: list_all2_conv_all_nth nth_list_update)

lemma session_step_inv:
  assumes "session_step e (ps, w) (ps', w')"
  shows "\<exists>ext L. list_all2 keeps ps (take (length ps) ps') \<and> trail w' = trail w @ L \<and>
    backed e ps L \<and> length ps \<le> length ps' \<and> ps' = take (length ps) ps' @ ext"
  using assms
proof (cases rule: session_step.cases)
  case (confirm i r p')
  obtain L where "trail w' = trail w @ L" "backed e [ps ! i] L"
    using confirm_backed [OF confirm(3)] by blast
  moreover have "backed e ps L" using calculation(2) confirm(2) by (auto simp: backed_def)
  ultimately show ?thesis
    using confirm(1) list_all2_update [OF confirm(2) confirm_keeps [OF confirm(3)]] by auto
next
  case (confirm_all rs)
  from confirm_all_run [OF confirm_all] show ?thesis by (auto dest: list_all2_lengthD)
qed (auto simp: session_add_def reject_all_def backed_def list_all2_update list.rel_map list.rel_refl
    list_all2_refl intro!: exI [of _ "[]"])

text \<open>
  C9: in every session, however its operations are interleaved: a proposal's content never changes
  and an Applied proposal stays Applied; and every document edit the engine sends is exactly the edit
  of a FileEdit proposal of the session, under a mask with Modify.
\<close>

theorem session_invariant:
  assumes "(session_step e)\<^sup>*\<^sup>* (ps, w) (ps', w')"
  shows "length ps \<le> length ps' \<and> list_all2 keeps ps (take (length ps) ps') \<and>
    (\<exists>L. trail w' = trail w @ L \<and> backed e ps' L)"
  using assms
proof (induction "(ps', w')" arbitrary: ps' w' rule: rtranclp_induct)
  case base
  then show ?case by (simp add: list.rel_refl backed_def)
next
  case (step y)
  obtain qs v where y: "y = (qs, v)" by (cases y)
  from step.hyps(3) [OF y] obtain L where IH: "length ps \<le> length qs"
    "list_all2 keeps ps (take (length ps) qs)" "trail v = trail w @ L" "backed e qs L" by blast
  from session_step_inv [OF step.hyps(2) [unfolded y]] obtain ext M where
    s: "list_all2 keeps qs (take (length qs) ps')" "trail w' = trail v @ M" "backed e qs M"
      "length qs \<le> length ps'" by blast
  have "list_all2 keeps (take (length ps) qs) (take (length ps) (take (length qs) ps'))"
    using s(1) by (rule list_all2_takeI)
  then have k: "list_all2 keeps ps (take (length ps) ps')"
    using IH(1,2) by (auto intro: list_all2_trans [OF keeps_trans] simp: min_def)
  have "\<exists>p'\<in>set ps'. cp_kind p' = cp_kind p \<and> proposal_edit p' = proposal_edit p" if "p \<in> set qs" for p
  proof -
    from that obtain j where j: "j < length qs" "p = qs ! j" by (auto simp: in_set_conv_nth)
    then have "keeps p (ps' ! j)" using list_all2_nthD [OF s(1) j(1)] by simp
    moreover have "ps' ! j \<in> set ps'" using j(1) s(4) by simp
    ultimately show ?thesis using keeps_content by blast
  qed
  then have "backed e qs N \<Longrightarrow> backed e ps' N" for N
    unfolding backed_def by fastforce
  then have "backed e ps' (L @ M)" using IH(4) s(3) by (simp add: backed_append)
  with IH(1,3) s(2,4) k show ?case by auto
qed

theorem session_invariant_witness:
  "let p = proposal_new ''p-0'' ''HEAD'' [] [] ''r'' K_Commit
   in list_all2 keeps [p] [reject (mark_pending p)]"
proof -
  let ?p = "proposal_new ''p-0'' ''HEAD'' [] [] ''r'' K_Commit"
  have "session_step (demo_engine 0) ([?p], world0 Map.empty) ([?p][0 := mark_pending ([?p] ! 0)], world0 Map.empty)"
    by (rule review) simp
  moreover have "session_step (demo_engine 0) ([mark_pending ?p], world0 Map.empty)
      (reject_all [mark_pending ?p], world0 Map.empty)" by (rule reject_all)
  ultimately have "(session_step (demo_engine 0))\<^sup>*\<^sup>* ([?p], world0 Map.empty) (reject_all [mark_pending ?p], world0 Map.empty)"
    by auto
  from session_invariant [OF this] show ?thesis by (simp add: reject_all_def)
qed

end
