(* ===== verification/Auth.thy ===== *)
theory Auth
  imports Audit_Trail
begin

text \<open>
  Authentication (crates/core/src/auth.rs): bearer tokens signed with HMAC-SHA256, the two
  authenticators and the extraction of a token from an \<open>Authorization\<close> header.  The crates behind
  it are the parameter \<open>jwt_lib\<close> (HMAC-SHA256, unpadded base64url, the text form of JSON); what
  serde derives for \<open>HsClaims\<close> (defaults, unknown and repeated fields, ranges) is modelled.
\<close>

named_theorems auth_defs \<open>definitions of the token operations\<close>

section \<open>The libraries\<close>

record jwt_lib =
  jw_hmac :: "str \<Rightarrow> str \<Rightarrow> str"          \<comment> \<open>key, message\<close>
  jw_encode :: "str \<Rightarrow> str"               \<comment> \<open>\<open>URL_SAFE_NO_PAD.encode\<close>\<close>
  jw_decode :: "str \<Rightarrow> str + str"
  jw_write :: "json \<Rightarrow> str"               \<comment> \<open>\<open>serde_json::to_vec\<close>\<close>
  jw_read :: "str \<Rightarrow> str + json"
  jw_mismatch :: "json \<Rightarrow> str"            \<comment> \<open>the text of serde's error\<close>

text \<open>
  The documented behaviour of base64: decoding inverts encoding, and the alphabet has no dot.
\<close>

definition base64_laws :: "jwt_lib \<Rightarrow> bool" where
  "base64_laws L \<longleftrightarrow>
     (\<forall>x. jw_decode L (jw_encode L x) = Inr x) \<and> (\<forall>x. CHR ''.'' \<notin> set (jw_encode L x))"

section \<open>Claims\<close>

record hs_claims =
  cl_tenant_id :: str
  cl_user_id :: str
  cl_perm_mask :: "32 word"
  cl_exp :: "64 word option"
  cl_iss :: "str option"
  cl_aud :: "str option"

definition claims_default :: hs_claims where
  "claims_default = \<lparr>cl_tenant_id = [], cl_user_id = [], cl_perm_mask = 0, cl_exp = None,
     cl_iss = None, cl_aud = None\<rparr>"

primrec json_opt :: "('a \<Rightarrow> json) \<Rightarrow> 'a option \<Rightarrow> json" where
  "json_opt f None = JNull"
| "json_opt f (Some x) = f x"

text \<open>\<open>#[derive(Serialize)]\<close>: the fields in order, \<open>None\<close> as \<open>null\<close>.\<close>

definition claims_json :: "hs_claims \<Rightarrow> json" where
  "claims_json c = JObj
     [(''tenant_id'', JStr (cl_tenant_id c)), (''user_id'', JStr (cl_user_id c)),
      (''perm_mask'', JNum (uint (cl_perm_mask c))),
      (''exp'', json_opt (\<lambda>e. JNum (sint e)) (cl_exp c)),
      (''iss'', json_opt JStr (cl_iss c)), (''aud'', json_opt JStr (cl_aud c))]"

text \<open>\<open>#[derive(Deserialize)]\<close> for the types of the fields: integers must fit.\<close>

definition de_str :: "json \<Rightarrow> str option" where
  "de_str j = (case j of JStr s \<Rightarrow> Some s | _ \<Rightarrow> None)"

definition de_u32 :: "json \<Rightarrow> 32 word option" where
  "de_u32 j = (case j of JNum i \<Rightarrow> if 0 \<le> i \<and> i < 2 ^ 32 then Some (word_of_int i) else None
     | _ \<Rightarrow> None)"

definition de_i64 :: "json \<Rightarrow> 64 word option" where
  "de_i64 j = (case j of
       JNum i \<Rightarrow> if - (2 ^ 63) \<le> i \<and> i < 2 ^ 63 then Some (word_of_int i) else None
     | _ \<Rightarrow> None)"

definition de_option :: "(json \<Rightarrow> 'a option) \<Rightarrow> json \<Rightarrow> 'a option option" where
  "de_option f j = (case j of JNull \<Rightarrow> Some None | _ \<Rightarrow> map_option Some (f j))"

definition claim_fields :: "str list" where
  "claim_fields = [''tenant_id'', ''user_id'', ''perm_mask'', ''exp'', ''iss'', ''aud'']"

definition set_claim :: "str \<Rightarrow> json \<Rightarrow> hs_claims \<Rightarrow> hs_claims option" where
  "set_claim k v c =
     (if k = ''tenant_id'' then map_option (\<lambda>x. c\<lparr>cl_tenant_id := x\<rparr>) (de_str v)
      else if k = ''user_id'' then map_option (\<lambda>x. c\<lparr>cl_user_id := x\<rparr>) (de_str v)
      else if k = ''perm_mask'' then map_option (\<lambda>x. c\<lparr>cl_perm_mask := x\<rparr>) (de_u32 v)
      else if k = ''exp'' then map_option (\<lambda>x. c\<lparr>cl_exp := x\<rparr>) (de_option de_i64 v)
      else if k = ''iss'' then map_option (\<lambda>x. c\<lparr>cl_iss := x\<rparr>) (de_option de_str v)
      else if k = ''aud'' then map_option (\<lambda>x. c\<lparr>cl_aud := x\<rparr>) (de_option de_str v)
      else Some c)"

text \<open>A field given twice is an error, an unknown one is skipped, a missing one has its default.\<close>

fun visit_claims :: "str list \<Rightarrow> (str \<times> json) list \<Rightarrow> hs_claims \<Rightarrow> hs_claims option" where
  "visit_claims seen [] c = Some c"
| "visit_claims seen ((k, v) # kvs) c =
     (if k \<in> set claim_fields \<and> k \<in> set seen then None
      else (case set_claim k v c of
          None \<Rightarrow> None
        | Some c' \<Rightarrow> visit_claims (k # seen) kvs c'))"

definition claims_of_json :: "json \<Rightarrow> hs_claims option" where
  "claims_of_json j = (case j of
       JObj kvs \<Rightarrow> visit_claims [] kvs claims_default
     | JArr vs \<Rightarrow> if length vs \<le> length claim_fields
         then visit_claims [] (zip claim_fields vs) claims_default else None
     | _ \<Rightarrow> None)"

lemma de_u32_uint [simp]: "de_u32 (JNum (uint w)) = Some w"
proof -
  have "uint w < 2 ^ 32" using uint_lt2p [of w] by simp
  then show ?thesis by (simp add: de_u32_def)
qed

lemma de_i64_sint [simp]: "de_i64 (JNum (sint w)) = Some w"
proof -
  have "- (2 ^ 63) \<le> sint w" "sint w < 2 ^ 63"
    using sint_range_size [of w] by (simp_all add: word_size)
  then show ?thesis by (simp add: de_i64_def)
qed

lemma de_option_json [simp]:
  "de_option de_str (json_opt JStr x) = Some x"
  "de_option de_i64 (json_opt (\<lambda>e. JNum (sint e)) y) = Some y"
  by (cases x; cases y; simp add: de_option_def de_str_def)+

lemma claims_of_claims_json: "claims_of_json (claims_json c) = Some c"
  by (simp add: claims_of_json_def claims_json_def claim_fields_def set_claim_def de_str_def
      claims_default_def)

section \<open>Signing and verifying\<close>

definition sign_hs256 :: "jwt_lib \<Rightarrow> str \<Rightarrow> str \<Rightarrow> str" where
  "sign_hs256 L signing_input secret = jw_encode L (jw_hmac L secret signing_input)"

definition byte :: "char \<Rightarrow> 8 word" where
  "byte c = of_nat (of_char c)"

definition constant_time_eq :: "str \<Rightarrow> str \<Rightarrow> bool" where
  "constant_time_eq a b \<longleftrightarrow>
     (if length a \<noteq> length b then False
      else foldl (\<lambda>diff (x, y). diff OR (byte x XOR byte y)) 0 (zip a b) = 0)"

text \<open>\<open>map(|d| d.as_secs() as i64).unwrap_or(0)\<close>: a clock before 1970 reads as zero.\<close>

definition now_secs :: "64 word option \<Rightarrow> 64 word" where
  "now_secs since_epoch = (case since_epoch of Some d \<Rightarrow> d | None \<Rightarrow> 0)"

definition expired :: "64 word option \<Rightarrow> hs_claims \<Rightarrow> bool" where
  "expired clk c \<longleftrightarrow> (case cl_exp c of Some e \<Rightarrow> sint e < sint (now_secs clk) | None \<Rightarrow> False)"

definition verify_hs256 ::
  "jwt_lib \<Rightarrow> 64 word option \<Rightarrow> str \<Rightarrow> str \<Rightarrow> str + hs_claims" where
  "verify_hs256 L clk token secret =
     (case split_on (CHR ''.'') token of
        [header, payload, sig] \<Rightarrow>
          if \<not> constant_time_eq (sign_hs256 L (header @ ''.'' @ payload) secret) sig
          then Inl ''signature verification failed''
          else (case jw_decode L payload of
              Inl e \<Rightarrow> Inl (''payload is not base64url: '' @ e)
            | Inr bytes \<Rightarrow> (case jw_read L bytes of
                Inl e \<Rightarrow> Inl (''payload is not valid claims JSON: '' @ e)
              | Inr j \<Rightarrow> (case claims_of_json j of
                  None \<Rightarrow> Inl (''payload is not valid claims JSON: '' @ jw_mismatch L j)
                | Some c \<Rightarrow>
                    (case cl_exp c of
                      Some e \<Rightarrow>
                        if sint e < sint (now_secs clk)
                        then Inl (''token expired at '' @ show_int (sint e) @ '', now '' @
                          show_int (sint (now_secs clk)))
                        else Inr c
                    | None \<Rightarrow> Inr c))))
      | _ \<Rightarrow> Inl ''malformed JWT: expected 3 segments'')"

definition mint_hs256_token ::
  "jwt_lib \<Rightarrow> str \<Rightarrow> str \<Rightarrow> str \<Rightarrow> 32 word \<Rightarrow> 64 word option \<Rightarrow> str option \<Rightarrow> str option \<Rightarrow> str" where
  "mint_hs256_token L secret tenant user m ex iss aud =
     (let header = jw_encode L (''{'' @ [CHR 0x22] @ ''alg'' @ [CHR 0x22] @ '':'' @ [CHR 0x22] @
            ''HS256'' @ [CHR 0x22] @ '','' @ [CHR 0x22] @ ''typ'' @ [CHR 0x22] @ '':'' @
            [CHR 0x22] @ ''JWT'' @ [CHR 0x22] @ ''}'');
          claims = \<lparr>cl_tenant_id = tenant, cl_user_id = user, cl_perm_mask = m, cl_exp = ex,
            cl_iss = iss, cl_aud = aud\<rparr>;
          payload = jw_encode L (jw_write L (claims_json claims));
          signing_input = header @ ''.'' @ payload;
          sig = sign_hs256 L signing_input secret
      in signing_input @ ''.'' @ sig)"

section \<open>Authenticators\<close>

datatype auth_error = Unauthorized str

datatype authenticator =
    Noop_Authenticator principal
  | Hs256_Authenticator (au_secret: str) (au_issuer: str) (au_client_id: str)

text \<open>A pin is skipped when it is empty, else the claim must be present and equal to it.\<close>

definition pinned :: "str \<Rightarrow> str option \<Rightarrow> bool" where
  "pinned want claim \<longleftrightarrow> want = [] \<or> claim = Some want"

primrec authenticate ::
  "jwt_lib \<Rightarrow> 64 word option \<Rightarrow> authenticator \<Rightarrow> str option \<Rightarrow> auth_error + principal" where
  "authenticate L clk (Noop_Authenticator fallback) token = Inr fallback"
| "authenticate L clk (Hs256_Authenticator secret issuer client) token =
     (case token of
        None \<Rightarrow> Inl (Unauthorized ''missing bearer token'')
      | Some t \<Rightarrow> (case verify_hs256 L clk t secret of
          Inl e \<Rightarrow> Inl (Unauthorized e)
        | Inr c \<Rightarrow>
            if \<not> pinned issuer (cl_iss c) then Inl (Unauthorized ''issuer mismatch'')
            else if \<not> pinned client (cl_aud c) then Inl (Unauthorized ''audience mismatch'')
            else Inr (principal_from_mask (cl_tenant_id c) (cl_user_id c) (cl_perm_mask c))))"

definition extract_bearer :: "str option \<Rightarrow> str option" where
  "extract_bearer authorization =
     (case authorization of
        None \<Rightarrow> None
      | Some v0 \<Rightarrow>
          let v = trim v0 in
          (case strip_prefix ''Bearer '' v of
             Some tok \<Rightarrow> Some (trim tok)
           | None \<Rightarrow> (case strip_prefix ''bearer '' v of
               Some tok \<Rightarrow> Some (trim tok)
             | None \<Rightarrow> if v = [] then None else Some v)))"


section \<open>Comparison of signatures\<close>

lemma byte_inj [simp]: "byte x = byte y \<longleftrightarrow> x = y"
proof
  assume eq: "byte x = byte y"
  have "unat (byte c) = of_char c" for c
    by (simp add: byte_def unat_of_nat)
  with eq have "(of_char x :: nat) = of_char y" by metis
  then show "x = y" by simp
qed simp

lemma fold_diff_zero:
  "foldl (\<lambda>diff (x, y). diff OR (byte x XOR byte y)) d ps = 0 \<longleftrightarrow>
     d = 0 \<and> list_all (\<lambda>(x, y). x = y) ps"
proof (induction ps arbitrary: d)
  case (Cons q ps)
  obtain x y where q: "q = (x, y)" by (cases q)
  have "byte x XOR byte y = 0 \<longleftrightarrow> byte x = byte y"
    by (metis xor.assoc xor.left_neutral xor.right_neutral xor_self_eq)
  with Cons.IH show ?case by (auto simp: q or_eq_0_iff)
qed simp

lemma zip_all_eq: "length a = length b \<Longrightarrow> list_all (\<lambda>(x, y). x = y) (zip a b) \<longleftrightarrow> a = b"
  by (induction a b rule: list_induct2) auto

text \<open>
  The constant-time comparison of signatures, which folds the exclusive or of every pair of
  bytes into one byte and never stops early, decides equality of the two byte strings, whatever
  their lengths.
\<close>

theorem constant_time_eq_iff: "constant_time_eq a b \<longleftrightarrow> a = b"
  by (auto simp: constant_time_eq_def fold_diff_zero zip_all_eq)

lemma constant_time_is_eq: "constant_time_eq = (=)"
  by (intro ext) (auto simp: constant_time_eq_def fold_diff_zero zip_all_eq)

section \<open>What a token is worth\<close>

lemma split_on_three:
  "split_on d t = [a, b, c] \<longleftrightarrow>
     t = a @ d # b @ d # c \<and> d \<notin> set a \<and> d \<notin> set b \<and> d \<notin> set c"
proof
  assume eq: "split_on d t = [a, b, c]"
  have "join_with [d] (split_on d t) = t" by (rule join_split_on)
  moreover have "d \<notin> set l" if "l \<in> set (split_on d t)" for l
    using split_by_free that unfolding split_on_def by blast
  ultimately show "t = a @ d # b @ d # c \<and> d \<notin> set a \<and> d \<notin> set b \<and> d \<notin> set c"
    by (simp add: eq)
next
  assume "t = a @ d # b @ d # c \<and> d \<notin> set a \<and> d \<notin> set b \<and> d \<notin> set c"
  then show "split_on d t = [a, b, c]" by (simp add: split_on_append split_on_free)
qed

lemma verify_three:
  "split_on (CHR ''.'') t = [h, p, s] \<Longrightarrow> verify_hs256 L clk t secret = Inr c \<longleftrightarrow>
     s = sign_hs256 L (h @ ''.'' @ p) secret \<and>
     (\<exists>bytes j. jw_decode L p = Inr bytes \<and> jw_read L bytes = Inr j \<and>
        claims_of_json j = Some c \<and> \<not> expired clk c)"
  by (auto simp: verify_hs256_def constant_time_is_eq expired_def split: sum.splits option.splits)

lemma verify_accepts:
  "verify_hs256 L clk t secret = Inr c \<longleftrightarrow>
     (\<exists>h p s. split_on (CHR ''.'') t = [h, p, s] \<and>
        s = sign_hs256 L (h @ ''.'' @ p) secret \<and>
        (\<exists>bytes j. jw_decode L p = Inr bytes \<and> jw_read L bytes = Inr j \<and>
          claims_of_json j = Some c \<and> \<not> expired clk c))"
proof (cases "\<exists>h p s. split_on (CHR ''.'') t = [h, p, s]")
  case True
  then obtain h p s where three: "split_on (CHR ''.'') t = [h, p, s]" by blast
  show ?thesis unfolding verify_three [OF three] by (simp add: three)
next
  case False
  then have "verify_hs256 L clk t secret = Inl ''malformed JWT: expected 3 segments''"
    by (simp add: verify_hs256_def split: list.split)
  with False show ?thesis by simp
qed

text \<open>
  C34: with SSO on, a request is let in exactly when its token has three dot-free segments, the
  third is the signature of the first two under the shared secret, the second decodes to claims
  that have not expired, and every configured pin is met; the request then acts as the tenant and
  user of the claims, with the low six bits of their mask.  Nothing else is let in: no token, no
  signature under another tag, no unsigned claims.
\<close>

theorem authenticate_accepts:
  "authenticate L clk (Hs256_Authenticator secret issuer client) tok = Inr pr \<longleftrightarrow>
     (\<exists>h p bytes j c.
        tok = Some (h @ ''.'' @ p @ ''.'' @ sign_hs256 L (h @ ''.'' @ p) secret) \<and>
        CHR ''.'' \<notin> set h \<and> CHR ''.'' \<notin> set p \<and>
        CHR ''.'' \<notin> set (sign_hs256 L (h @ ''.'' @ p) secret) \<and>
        jw_decode L p = Inr bytes \<and> jw_read L bytes = Inr j \<and> claims_of_json j = Some c \<and>
        \<not> expired clk c \<and> pinned issuer (cl_iss c) \<and> pinned client (cl_aud c) \<and>
        pr = principal_from_mask (cl_tenant_id c) (cl_user_id c) (cl_perm_mask c))"
  (is "?in \<longleftrightarrow> ?ok")
proof
  assume ?in
  then obtain t c where tok: "tok = Some t" "verify_hs256 L clk t secret = Inr c"
    and ok: "pinned issuer (cl_iss c)" "pinned client (cl_aud c)"
      "pr = principal_from_mask (cl_tenant_id c) (cl_user_id c) (cl_perm_mask c)"
    by (auto split: option.splits sum.splits if_splits)
  from tok(2) obtain h p bytes j where
    "split_on (CHR ''.'') t = [h, p, sign_hs256 L (h @ ''.'' @ p) secret]"
    "jw_decode L p = Inr bytes" "jw_read L bytes = Inr j" "claims_of_json j = Some c"
    "\<not> expired clk c"
    unfolding verify_accepts by auto
  with tok(1) ok show ?ok unfolding split_on_three
    by (intro exI [of _ h] exI [of _ p] exI [of _ bytes] exI [of _ j] exI [of _ c]) auto
next
  assume ?ok
  then obtain h p bytes j c where
    *: "tok = Some (h @ ''.'' @ p @ ''.'' @ sign_hs256 L (h @ ''.'' @ p) secret)"
      "CHR ''.'' \<notin> set h" "CHR ''.'' \<notin> set p"
      "CHR ''.'' \<notin> set (sign_hs256 L (h @ ''.'' @ p) secret)"
      "jw_decode L p = Inr bytes" "jw_read L bytes = Inr j" "claims_of_json j = Some c"
      "\<not> expired clk c"
      "pinned issuer (cl_iss c)" "pinned client (cl_aud c)"
      "pr = principal_from_mask (cl_tenant_id c) (cl_user_id c) (cl_perm_mask c)"
    by blast
  let ?t = "h @ ''.'' @ p @ ''.'' @ sign_hs256 L (h @ ''.'' @ p) secret"
  have "split_on (CHR ''.'') ?t = [h, p, sign_hs256 L (h @ ''.'' @ p) secret]"
    using *(2,3,4) by (simp add: split_on_three)
  then have "verify_hs256 L clk ?t secret = Inr c"
    using *(5-8) by (simp add: verify_three)
  with * show ?in by simp
qed

lemma mint_segments:
  assumes "base64_laws L"
  shows "\<exists>h. mint_hs256_token L secret t u m ex iss aud =
       h @ ''.'' @ jw_encode L (jw_write L (claims_json \<lparr>cl_tenant_id = t, cl_user_id = u,
         cl_perm_mask = m, cl_exp = ex, cl_iss = iss, cl_aud = aud\<rparr>)) @ ''.'' @
       sign_hs256 L (h @ ''.'' @ jw_encode L (jw_write L (claims_json \<lparr>cl_tenant_id = t,
         cl_user_id = u, cl_perm_mask = m, cl_exp = ex, cl_iss = iss, cl_aud = aud\<rparr>))) secret \<and>
     CHR ''.'' \<notin> set h"
  unfolding mint_hs256_token_def Let_def
  by (rule exI) (rule conjI, simp, use assms in \<open>simp add: base64_laws_def\<close>)

lemma minted_segments:
  assumes "base64_laws L"
    and "tok = mint_hs256_token L secret (cl_tenant_id c) (cl_user_id c) (cl_perm_mask c)
        (cl_exp c) (cl_iss c) (cl_aud c)"
  obtains h where "split_on (CHR ''.'') tok = [h, jw_encode L (jw_write L (claims_json c)),
    sign_hs256 L (h @ ''.'' @ jw_encode L (jw_write L (claims_json c))) secret]"
proof -
  let ?p = "jw_encode L (jw_write L (claims_json c))"
  have c: "\<lparr>cl_tenant_id = cl_tenant_id c, cl_user_id = cl_user_id c,
      cl_perm_mask = cl_perm_mask c, cl_exp = cl_exp c, cl_iss = cl_iss c, cl_aud = cl_aud c\<rparr> = c"
    by simp
  obtain h where t: "tok = h @ ''.'' @ ?p @ ''.'' @ sign_hs256 L (h @ ''.'' @ ?p) secret"
    and h: "CHR ''.'' \<notin> set h"
    using mint_segments [OF assms(1), of secret "cl_tenant_id c" "cl_user_id c" "cl_perm_mask c"
        "cl_exp c" "cl_iss c" "cl_aud c"] unfolding c assms(2) by blast
  show thesis
    by (rule that [of h]) (use assms(1) h in \<open>simp add: t split_on_three base64_laws_def sign_hs256_def\<close>)
qed

lemma minted_verifies:
  assumes "base64_laws L" and "jw_read L (jw_write L (claims_json c)) = Inr (claims_json c)"
    and "\<not> expired clk c"
  shows "verify_hs256 L clk (mint_hs256_token L secret (cl_tenant_id c) (cl_user_id c) (cl_perm_mask c)
      (cl_exp c) (cl_iss c) (cl_aud c)) secret = Inr c"
proof (rule minted_segments [OF assms(1) refl, of secret c])
  fix h assume three: "split_on (CHR ''.'') (mint_hs256_token L secret (cl_tenant_id c) (cl_user_id c)
      (cl_perm_mask c) (cl_exp c) (cl_iss c) (cl_aud c)) = [h, jw_encode L (jw_write L (claims_json c)),
    sign_hs256 L (h @ ''.'' @ jw_encode L (jw_write L (claims_json c))) secret]"
  show ?thesis
    using assms by (simp add: verify_three [OF three] base64_laws_def claims_of_claims_json)
qed

text \<open>
  A token minted for claims that have not expired is verified under the same secret and gives
  back exactly those claims, and the authenticator pinned to the token's issuer and audience makes
  of it the principal with the claims' tenant, user and clamped mask.  A verifier whose secret gives
  another tag on the signed text rejects the token.  The libraries enter by the laws of base64 and
  by serde reading back the text it wrote for these claims.
\<close>

theorem minted_token_round_trip:
  assumes base64: "base64_laws L"
    and json: "jw_read L (jw_write L (claims_json c)) = Inr (claims_json c)"
    and fresh: "\<not> expired clk c"
    and tok: "tok = mint_hs256_token L secret (cl_tenant_id c) (cl_user_id c) (cl_perm_mask c)
        (cl_exp c) (cl_iss c) (cl_aud c)"
    and other: "\<And>x. jw_hmac L other x \<noteq> jw_hmac L secret x"
  shows "verify_hs256 L clk tok secret = Inr c \<and>
    authenticate L clk
      (Hs256_Authenticator secret (case_option [] id (cl_iss c)) (case_option [] id (cl_aud c)))
      (Some tok) = Inr (principal_from_mask (cl_tenant_id c) (cl_user_id c) (cl_perm_mask c)) \<and>
    verify_hs256 L clk tok other = Inl ''signature verification failed''"
proof -
  obtain h where three: "split_on (CHR ''.'') tok = [h, jw_encode L (jw_write L (claims_json c)),
      sign_hs256 L (h @ ''.'' @ jw_encode L (jw_write L (claims_json c))) secret]"
    by (rule minted_segments [OF base64 tok])
  have ok: "verify_hs256 L clk tok secret = Inr c"
    unfolding tok by (rule minted_verifies [OF base64 json fresh])
  moreover have "pinned (case_option [] id x) x" for x
    by (cases x) (auto simp: pinned_def)
  moreover have "sign_hs256 L m other \<noteq> sign_hs256 L m secret" for m
    using base64 other by (metis base64_laws_def sign_hs256_def sum.inject(2))
  then have "verify_hs256 L clk tok other = Inl ''signature verification failed''"
    by (simp add: verify_hs256_def three constant_time_is_eq)
  ultimately show ?thesis by simp
qed

text \<open>
  Libraries for a concrete run: bytes as two letters each, a keyed checksum that is the key
  followed by the message, and JSON text for the claims of one user.
\<close>

definition two_letters :: "char \<Rightarrow> str" where
  "two_letters c = [char_of (97 + of_char c div (16 :: nat)), char_of (97 + of_char c mod (16 :: nat))]"

fun un_letters :: "str \<Rightarrow> str + str" where
  "un_letters [] = Inr []"
| "un_letters [a] = Inl ''odd length''"
| "un_letters (a # b # r) = map_sum id
     ((#) (char_of ((of_char a - 97) * 16 + (of_char b - 97 :: nat)))) (un_letters r)"

definition demo_claims :: hs_claims where
  "demo_claims = \<lparr>cl_tenant_id = ''acme'', cl_user_id = ''ann'', cl_perm_mask = 7,
     cl_exp = Some 500, cl_iss = Some ''idp'', cl_aud = None\<rparr>"

definition demo_jwt :: jwt_lib where
  "demo_jwt = \<lparr>jw_hmac = (\<lambda>k m. k @ m), jw_encode = (\<lambda>s. concat (map two_letters s)),
     jw_decode = un_letters,
     jw_write = (\<lambda>j. if j = claims_json demo_claims then ''ann@acme'' else []),
     jw_read = (\<lambda>s. if s = ''ann@acme'' then Inr (claims_json demo_claims) else Inl ''EOF''),
     jw_mismatch = (\<lambda>j. ''invalid type'')\<rparr>"

lemma high_nibble: "of_char c div (16 :: nat) < 16"
  by (rule less_mult_imp_div_less) (use nat_of_char_less_256 [of c] in simp)

lemma two_letters_inv: "un_letters (two_letters c @ r) = map_sum id ((#) c) (un_letters r)"
proof -
  have "(97 + of_char c div 16) mod 256 = 97 + of_char c div (16 :: nat)"
    using high_nibble [of c] by (intro mod_less) simp
  then show ?thesis by (simp add: two_letters_def)
qed

lemma un_letters_inv: "un_letters (concat (map two_letters s)) = Inr s"
  by (induction s) (simp_all add: two_letters_inv)

lemma letters_no_dot: "CHR ''.'' \<notin> set (two_letters c)"
proof -
  have "CHR ''.'' \<noteq> char_of (97 + k)" if "k < 16" for k :: nat
  proof
    assume "CHR ''.'' = char_of (97 + k)"
    then have "(of_char (CHR ''.'') :: nat) = of_char (char_of (97 + k) :: char)" by simp
    with that show False by (simp add: of_char_of)
  qed
  moreover note high_nibble [of c]
  moreover have "of_char c mod (16 :: nat) < 16" by simp
  ultimately show ?thesis by (simp add: two_letters_def)
qed

lemma demo_base64: "base64_laws demo_jwt"
  using letters_no_dot by (auto simp: base64_laws_def demo_jwt_def un_letters_inv)

lemma minted_token_round_trip_witness:
  "verify_hs256 demo_jwt (Some 100)
     (mint_hs256_token demo_jwt ''key'' ''acme'' ''ann'' 7 (Some 500) (Some ''idp'') None) ''key'' =
     Inr demo_claims \<and>
   verify_hs256 demo_jwt (Some 100)
     (mint_hs256_token demo_jwt ''key'' ''acme'' ''ann'' 7 (Some 500) (Some ''idp'') None) ''yek'' =
     Inl ''signature verification failed''"
  using minted_token_round_trip [OF demo_base64, of demo_claims "Some 100" _ "''key''" "''yek''", OF _ _ refl]
  by (simp add: demo_jwt_def expired_def demo_claims_def now_secs_def)

text \<open>
  The scheme is matched in two spellings only, and a scheme without a token becomes the token.
\<close>

lemma extract_bearer_quirks:
  "extract_bearer (Some ''BEARER abc'') = Some ''BEARER abc'' \<and>
   extract_bearer (Some ''Bearer '') = Some ''Bearer'' \<and>
   extract_bearer (Some ''bearer  abc '') = Some ''abc''"
  by code_simp

end
