(* ===== verification/Collab.thy ===== *)
theory Collab
  imports Auth "HOL-Library.List_Lexorder" "HOL-Library.AList"
begin

text \<open>
  Collaboration (crates/core/src/collab.rs): review comments with their in-memory and Postgres
  stores, and the in-memory store of editing locks.  The table \<open>comments\<close>, its key and its
  row-level security are those of migrations/0005_v20.sql; what the database may refuse is a
  parameter, and so is the collation it orders ids by.
\<close>

section \<open>Comments\<close>

record comment =
  co_id :: str
  co_tenant :: str
  co_file :: str
  co_line_start :: nat
  co_line_end :: nat
  co_author :: str
  co_body :: str
  co_resolved :: bool
  co_created_at :: int

definition comment_new ::
  "int \<Rightarrow> str \<Rightarrow> str \<Rightarrow> nat \<Rightarrow> nat \<Rightarrow> str \<Rightarrow> str \<Rightarrow> comment" where
  "comment_new now tenant file l1 l2 author body =
     \<lparr>co_id = [], co_tenant = tenant, co_file = file, co_line_start = l1, co_line_end = l2,
      co_author = author, co_body = body, co_resolved = False, co_created_at = now\<rparr>"

text \<open>The listing order: open before resolved, then by line, then by id.\<close>

definition comment_le :: "(str \<Rightarrow> str \<Rightarrow> bool) \<Rightarrow> comment \<Rightarrow> comment \<Rightarrow> bool" where
  "comment_le id_le a b \<longleftrightarrow>
     (if co_resolved a \<noteq> co_resolved b then co_resolved b
      else if co_line_start a \<noteq> co_line_start b then co_line_start a < co_line_start b
      else id_le (co_id a) (co_id b))"

interpretation listing: comparator "comment_le ((\<le>) :: str \<Rightarrow> str \<Rightarrow> bool)"
  by unfold_locales (auto simp: comment_le_def split: if_splits)

definition on_file :: "str \<Rightarrow> str \<Rightarrow> comment \<Rightarrow> bool" where
  "on_file tenant file c \<longleftrightarrow> co_tenant c = tenant \<and> co_file c = file"

section \<open>The in-memory store\<close>

record mem_comments =
  mc_comments :: "comment list"
  mc_counter :: "64 word"

definition mem_comments_new :: mem_comments where
  "mem_comments_new = \<lparr>mc_comments = [], mc_counter = 0\<rparr>"

definition mem_comments_count :: "mem_comments \<Rightarrow> nat" where
  "mem_comments_count s = length (mc_comments s)"

text \<open>\<open>fetch_add(1) + 1\<close>\<close>

definition next_comment_id :: "mem_comments \<Rightarrow> str \<times> mem_comments" where
  "next_comment_id s =
     (''c'' @ show_nat (unat (mc_counter s + 1)), s\<lparr>mc_counter := mc_counter s + 1\<rparr>)"

definition mem_add :: "comment \<Rightarrow> mem_comments \<Rightarrow> (str + str) \<times> mem_comments" where
  "mem_add c s =
     (let (i, s) = (if co_id c = [] then next_comment_id s else (co_id c, s))
      in (Inr i, s\<lparr>mc_comments := mc_comments s @ [c\<lparr>co_id := i\<rparr>]\<rparr>))"

definition mem_list_for_file ::
  "str \<Rightarrow> str \<Rightarrow> mem_comments \<Rightarrow> (str + comment list) \<times> mem_comments" where
  "mem_list_for_file tenant file s =
     (Inr (sort_by (comment_le (\<le>)) (filter (on_file tenant file) (mc_comments s))), s)"

fun resolve_first :: "str \<Rightarrow> str \<Rightarrow> comment list \<Rightarrow> bool \<times> comment list" where
  "resolve_first tenant i [] = (False, [])"
| "resolve_first tenant i (c # cs) =
     (if co_tenant c = tenant \<and> co_id c = i then (True, c\<lparr>co_resolved := True\<rparr> # cs)
      else (let (b, cs') = resolve_first tenant i cs in (b, c # cs')))"

definition mem_resolve :: "str \<Rightarrow> str \<Rightarrow> mem_comments \<Rightarrow> (str + bool) \<times> mem_comments" where
  "mem_resolve tenant i s =
     (let (b, cs) = resolve_first tenant i (mc_comments s) in (Inr b, s\<lparr>mc_comments := cs\<rparr>))"

section \<open>The Postgres store\<close>

text \<open>
  The faults of one transaction: opening it, setting the tenant, the statement, the commit.
\<close>

record tx_faults =
  tx_begin :: "str option"
  tx_set_tenant :: "str option"
  tx_statement :: "str option"
  tx_commit :: "str option"

text \<open>
  \<open>with_tenant\<close>: a failure anywhere rolls the table back; the statement sees the table through
  the policy of the tenant that was set.
\<close>

definition with_tenant ::
  "tx_faults \<Rightarrow> ('t \<Rightarrow> (str + 'a) \<times> 't) \<Rightarrow> 't \<Rightarrow>
   (str + 'a) \<times> 't" where
  "with_tenant flt f tab =
     (case tx_begin flt of Some e \<Rightarrow> (Inl e, tab) | None \<Rightarrow>
      (case tx_set_tenant flt of Some e \<Rightarrow> (Inl e, tab) | None \<Rightarrow>
       (case tx_statement flt of Some e \<Rightarrow> (Inl e, tab) | None \<Rightarrow>
        (case f tab of
           (Inl e, _) \<Rightarrow> (Inl e, tab)
         | (Inr x, tab') \<Rightarrow>
             (case tx_commit flt of Some e \<Rightarrow> (Inl e, tab) | None \<Rightarrow> (Inr x, tab'))))))"

text \<open>
  \<open>INSERT\<close>: the id is the primary key of the whole table, across tenants; \<open>resolved\<close> is written
  as false and \<open>created_at\<close> is the database's own time \<open>now\<close>.
\<close>

definition pg_add ::
  "tx_faults \<Rightarrow> int \<Rightarrow> comment \<Rightarrow> comment list \<Rightarrow> (str + str) \<times> comment list" where
  "pg_add flt now c tab =
     (let i = (if co_id c = [] then ''c'' @ show_int (co_created_at c) else co_id c)
      in with_tenant flt
           (\<lambda>tab. if i \<in> set (map co_id tab)
              then (Inl ''duplicate key value violates unique constraint'', tab)
              else (Inr i, tab @ [c\<lparr>co_id := i, co_resolved := False, co_created_at := now\<rparr>])) tab)"

definition pg_list_for_file ::
  "tx_faults \<Rightarrow> (str \<Rightarrow> str \<Rightarrow> bool) \<Rightarrow> str \<Rightarrow> str \<Rightarrow> comment list \<Rightarrow>
   (str + comment list) \<times> comment list" where
  "pg_list_for_file flt collation tenant file tab = with_tenant flt
     (\<lambda>tab. (Inr (sort_by (comment_le collation) (filter (on_file tenant file) tab)), tab)) tab"

definition pg_resolve ::
  "tx_faults \<Rightarrow> str \<Rightarrow> str \<Rightarrow> comment list \<Rightarrow> (str + bool) \<times> comment list" where
  "pg_resolve flt tenant i tab = with_tenant flt
     (\<lambda>tab. (Inr (list_ex (\<lambda>c. co_tenant c = tenant \<and> co_id c = i) tab),
        map (\<lambda>c. if co_tenant c = tenant \<and> co_id c = i then c\<lparr>co_resolved := True\<rparr> else c) tab)) tab"

section \<open>Editing locks\<close>

record lock =
  lk_tenant :: str
  lk_file :: str
  lk_owner :: str
  lk_acquired_at :: int

definition lock_new :: "int \<Rightarrow> str \<Rightarrow> str \<Rightarrow> str \<Rightarrow> lock" where
  "lock_new now tenant file owner =
     \<lparr>lk_tenant = tenant, lk_file = file, lk_owner = owner, lk_acquired_at = now\<rparr>"

type_synonym mem_locks = "(str \<times> lock) list"

definition lock_key :: "str \<Rightarrow> str \<Rightarrow> str" where
  "lock_key tenant file = tenant @ [CHR 0x00] @ file"

definition lock_acquire :: "lock \<Rightarrow> mem_locks \<Rightarrow> mem_locks" where
  "lock_acquire l s = AList.update (lock_key (lk_tenant l) (lk_file l)) l s"

definition lock_release :: "str \<Rightarrow> str \<Rightarrow> mem_locks \<Rightarrow> mem_locks" where
  "lock_release tenant file s = AList.delete (lock_key tenant file) s"

definition lock_get :: "str \<Rightarrow> str \<Rightarrow> mem_locks \<Rightarrow> lock option" where
  "lock_get tenant file s = map_of s (lock_key tenant file)"

definition lock_count :: "mem_locks \<Rightarrow> nat" where
  "lock_count s = length s"

section \<open>The contract of a comment store\<close>

definition marks :: "str \<Rightarrow> str \<Rightarrow> comment \<Rightarrow> comment \<Rightarrow> bool" where
  "marks tenant i c d \<longleftrightarrow>
     d = c \<or> co_tenant c = tenant \<and> co_id c = i \<and> d = c\<lparr>co_resolved := True\<rparr>"

lemma marks_refl [simp]: "marks tn i c c"
  by (simp add: marks_def)

lemma marks_hit [simp]:
  "co_tenant c = tn \<Longrightarrow> co_id c = i \<Longrightarrow> marks tn i c (c\<lparr>co_resolved := True\<rparr>)"
  by (simp add: marks_def)

text \<open>
  What both stores promise over the comments they hold (\<open>held\<close>): an add that succeeds appends one
  comment of the same tenant, file, line, author and body under the returned id; a resolve only
  sets flags of the named comment and says whether there was one; a listing is the sorted comments
  of the tenant and file; a failure changes nothing.
\<close>

locale comment_store =
  fixes add :: "comment \<Rightarrow> 's \<Rightarrow> (str + str) \<times> 's"
    and list_for :: "str \<Rightarrow> str \<Rightarrow> 's \<Rightarrow> (str + comment list) \<times> 's"
    and resolve :: "str \<Rightarrow> str \<Rightarrow> 's \<Rightarrow> (str + bool) \<times> 's"
    and held :: "'s \<Rightarrow> comment list"
    and id_le :: "str \<Rightarrow> str \<Rightarrow> bool"
  assumes add_ok: "add c s = (Inr i, t) \<Longrightarrow>
      \<exists>d. held t = held s @ [d] \<and> co_id d = i \<and> co_tenant d = co_tenant c \<and>
        co_file d = co_file c \<and> co_line_start d = co_line_start c \<and>
        co_author d = co_author c \<and> co_body d = co_body c"
    and add_err: "add c s = (Inl e, t) \<Longrightarrow> held t = held s"
    and list_ok: "list_for tn f s = (Inr cs, t) \<Longrightarrow>
      cs = sort_by (comment_le id_le) (filter (on_file tn f) (held s))"
    and list_keeps: "held (snd (list_for tn f s)) = held s"
    and resolve_ok: "resolve tn i s = (Inr b, t) \<Longrightarrow>
      list_all2 (marks tn i) (held s) (held t) \<and>
      (b \<longleftrightarrow> (\<exists>c\<in>set (held t). co_tenant c = tn \<and> co_id c = i \<and> co_resolved c))"
    and resolve_err: "resolve tn i s = (Inl e, t) \<Longrightarrow> held t = held s"
begin

text \<open>What one tenant does changes no comment of another.\<close>

lemma marks_other:
  "list_all2 (marks tn i) cs ds \<Longrightarrow> other \<noteq> tn \<Longrightarrow>
     filter (on_file other f) ds = filter (on_file other f) cs"
proof (induction rule: list_all2_induct)
  case (Cons c cs d ds)
  from Cons.hyps(1) Cons.prems have "d = c \<or> \<not> on_file other f c \<and> \<not> on_file other f d"
    unfolding marks_def on_file_def by (elim disjE) simp_all
  with Cons show ?case by (elim disjE) simp_all
qed simp

lemma add_isolated:
  assumes "co_tenant c \<noteq> other"
  shows "filter (on_file other f) (held (snd (add c s))) = filter (on_file other f) (held s)"
proof (cases "add c s")
  case (Pair r t)
  show ?thesis
  proof (cases r)
    case (Inl e)
    with Pair show ?thesis using add_err by simp
  next
    case (Inr i)
    with Pair obtain d where "held t = held s @ [d]" "co_tenant d = co_tenant c"
      using add_ok by blast
    with Pair assms show ?thesis by (simp add: on_file_def)
  qed
qed

lemma resolve_isolated:
  assumes "tn \<noteq> other"
  shows "filter (on_file other f) (held (snd (resolve tn i s))) = filter (on_file other f) (held s)"
proof (cases "resolve tn i s")
  case (Pair r t)
  with assms show ?thesis
    by (cases r) (auto dest: resolve_ok resolve_err marks_other)
qed

text \<open>A comment that was added is in the listing of its file.\<close>

lemma added_is_listed:
  assumes "add c s = (Inr i, t)" and "list_for (co_tenant c) (co_file c) t = (Inr cs, u)"
  shows "\<exists>d\<in>set cs. co_id d = i \<and> co_author d = co_author c \<and> co_body d = co_body c \<and>
    co_line_start d = co_line_start c"
proof -
  obtain d where "held t = held s @ [d]" "co_id d = i" "co_tenant d = co_tenant c"
      "co_file d = co_file c" "co_line_start d = co_line_start c" "co_author d = co_author c"
      "co_body d = co_body c"
    using add_ok [OF assms(1)] by blast
  with list_ok [OF assms(2)] show ?thesis by (auto simp: on_file_def)
qed

lemma listed_is_own: "list_for tn f s = (Inr cs, t) \<Longrightarrow> c \<in> set cs \<Longrightarrow> on_file tn f c"
  by (auto dest: list_ok)

end

section \<open>Both stores keep the contract\<close>

lemma resolve_first_marks:
  "resolve_first tn i cs = (b, ds) \<Longrightarrow> list_all2 (marks tn i) cs ds \<and>
     (b \<longleftrightarrow> (\<exists>c\<in>set cs. co_tenant c = tn \<and> co_id c = i)) \<and>
     (b \<longrightarrow> (\<exists>c\<in>set ds. co_tenant c = tn \<and> co_id c = i \<and> co_resolved c))"
proof (induction cs arbitrary: b ds)
  case (Cons c cs)
  show ?case
  proof (cases "co_tenant c = tn \<and> co_id c = i")
    case True
    have "list_all2 (marks tn i) cs cs" by (rule list_all2_refl) simp
    with True Cons.prems show ?thesis by auto
  next
    case False
    obtain b' ds' where r: "resolve_first tn i cs = (b', ds')" by (cases "resolve_first tn i cs")
    with Cons.prems False have "b = b'" "ds = c # ds'" by (auto split: if_splits)
    with Cons.IH [OF r] False show ?thesis by auto
  qed
qed simp

lemma marks_same: "list_all2 (marks tn i) cs ds \<Longrightarrow> c \<in> set ds \<Longrightarrow>
    co_tenant c = tn \<Longrightarrow> co_id c = i \<Longrightarrow> \<exists>d\<in>set cs. co_tenant d = tn \<and> co_id d = i"
proof (induction rule: list_all2_induct)
  case (Cons x xs y ys)
  from Cons.hyps(1) have "co_tenant x = co_tenant y \<and> co_id x = co_id y"
    unfolding marks_def by (elim disjE) simp_all
  with Cons show ?case by auto
qed simp

interpretation mem_store: comment_store mem_add mem_list_for_file mem_resolve mc_comments "(\<le>)"
proof
  fix c s i t assume "mem_add c s = (Inr i, t)"
  then show "\<exists>d. mc_comments t = mc_comments s @ [d] \<and> co_id d = i \<and> co_tenant d = co_tenant c \<and>
      co_file d = co_file c \<and> co_line_start d = co_line_start c \<and> co_author d = co_author c \<and>
      co_body d = co_body c"
    by (intro exI [of _ "c\<lparr>co_id := i\<rparr>"])
      (auto simp: mem_add_def next_comment_id_def Let_def split: if_splits prod.splits)
next
  fix tn i s b t assume "mem_resolve tn i s = (Inr b, t)"
  then have r: "resolve_first tn i (mc_comments s) = (b, mc_comments t)"
    by (auto simp: mem_resolve_def Let_def split: prod.splits)
  from resolve_first_marks [OF r] marks_same [of tn i "mc_comments s" "mc_comments t"]
  show "list_all2 (marks tn i) (mc_comments s) (mc_comments t) \<and>
      (b \<longleftrightarrow> (\<exists>c\<in>set (mc_comments t). co_tenant c = tn \<and> co_id c = i \<and> co_resolved c))"
    by blast
qed (auto simp: mem_add_def mem_list_for_file_def mem_resolve_def Let_def split: prod.splits)

lemma with_tenant_Inr:
  "with_tenant flt f tab = (Inr x, tab') \<Longrightarrow> f tab = (Inr x, tab')"
  by (auto simp: with_tenant_def split: option.splits prod.splits sum.splits)

lemma with_tenant_Inl: "with_tenant flt f tab = (Inl e, tab') \<Longrightarrow> tab' = tab"
  by (auto simp: with_tenant_def split: option.splits prod.splits sum.splits)

lemma pg_list_keeps: "snd (pg_list_for_file flt col tn f tab) = tab"
  by (auto simp: pg_list_for_file_def with_tenant_def split: option.split)

interpretation pg_store:
  comment_store "pg_add flt now" "pg_list_for_file flt col" "pg_resolve flt" "\<lambda>tab. tab" col
  for flt now col
proof
  fix c s i t assume "pg_add flt now c s = (Inr i, t)"
  then show "\<exists>d. t = s @ [d] \<and> co_id d = i \<and> co_tenant d = co_tenant c \<and>
      co_file d = co_file c \<and> co_line_start d = co_line_start c \<and> co_author d = co_author c \<and>
      co_body d = co_body c"
    by (intro exI [of _ "c\<lparr>co_id := i, co_resolved := False, co_created_at := now\<rparr>"])
      (auto simp: pg_add_def Let_def dest!: with_tenant_Inr split: if_splits)
next
  fix tn i s b t assume run: "pg_resolve flt tn i s = (Inr b, t)"
  let ?m = "\<lambda>c. if co_tenant c = tn \<and> co_id c = i then c\<lparr>co_resolved := True\<rparr> else c"
  from run have t: "t = map ?m s" and b: "b = list_ex (\<lambda>c. co_tenant c = tn \<and> co_id c = i) s"
    by (auto simp: pg_resolve_def dest!: with_tenant_Inr)
  have "list_all2 (marks tn i) s (map ?m s)"
    by (simp add: list_all2_map2 list_all2_refl)
  moreover have "b \<longleftrightarrow> (\<exists>c\<in>set t. co_tenant c = tn \<and> co_id c = i \<and> co_resolved c)"
    unfolding b t list_ex_iff set_map bex_simps by (auto split: if_splits)
  ultimately show "list_all2 (marks tn i) s t \<and>
      (b \<longleftrightarrow> (\<exists>c\<in>set t. co_tenant c = tn \<and> co_id c = i \<and> co_resolved c))"
    by (simp add: t)
next
  fix tn f s show "snd (pg_list_for_file flt col tn f s) = s" by (rule pg_list_keeps)
qed (auto simp: pg_add_def pg_resolve_def pg_list_for_file_def Let_def
    dest: with_tenant_Inl dest!: with_tenant_Inr)

section \<open>Runs of operations\<close>

datatype comment_op = Op_Add comment | Op_Resolve str str | Op_List str str

fun op_tenant :: "comment_op \<Rightarrow> str" where
  "op_tenant (Op_Add c) = co_tenant c"
| "op_tenant (Op_Resolve tn i) = tn"
| "op_tenant (Op_List tn f) = tn"

fun mem_op :: "comment_op \<Rightarrow> mem_comments \<Rightarrow> mem_comments" where
  "mem_op (Op_Add c) s = snd (mem_add c s)"
| "mem_op (Op_Resolve tn i) s = snd (mem_resolve tn i s)"
| "mem_op (Op_List tn f) s = snd (mem_list_for_file tn f s)"

text \<open>For Postgres every operation has its own faults and time.\<close>

fun pg_op :: "(tx_faults \<times> int) \<times> comment_op \<Rightarrow> comment list \<Rightarrow> comment list" where
  "pg_op ((flt, now), Op_Add c) s = snd (pg_add flt now c s)"
| "pg_op ((flt, now), Op_Resolve tn i) s = snd (pg_resolve flt tn i s)"
| "pg_op ((flt, now), Op_List tn f) s = s"

lemma mem_op_isolated:
  "op_tenant p \<noteq> other \<Longrightarrow>
     filter (on_file other f) (mc_comments (mem_op p s)) = filter (on_file other f) (mc_comments s)"
  by (cases p) (auto simp: mem_store.add_isolated mem_store.resolve_isolated mem_store.list_keeps)

lemma pg_op_isolated:
  "op_tenant (snd p) \<noteq> other \<Longrightarrow>
     filter (on_file other f) (pg_op p s) = filter (on_file other f) s"
  by (cases "(p, s)" rule: pg_op.cases) (auto simp: pg_store.add_isolated pg_store.resolve_isolated)

lemma fold_keeps:
  "(\<And>x s. x \<in> set xs \<Longrightarrow> g (f x s) = g s) \<Longrightarrow> g (fold f xs s) = g s"
  by (induction xs arbitrary: s) auto

text \<open>
  C36: tenants do not see each other's reviews: whatever sequence of adds, resolves and listings
  other tenants run, on the in-memory store or on Postgres and with whatever database failures on
  the way, every listing a tenant asks for is the one it got before.
\<close>

theorem reviews_isolated:
  assumes "list_all (\<lambda>p. op_tenant (snd p) \<noteq> tn) ops"
  shows "fst (mem_list_for_file tn f (fold mem_op (map snd ops) s)) = fst (mem_list_for_file tn f s) \<and>
    fst (pg_list_for_file flt col tn f (fold pg_op ops tab)) = fst (pg_list_for_file flt col tn f tab)"
proof
  let ?on = "filter (on_file tn f)"
  have "?on (mc_comments (fold mem_op (map snd ops) s)) = ?on (mc_comments s)"
    using assms by (intro fold_keeps [where g = "\<lambda>s. ?on (mc_comments s)"] mem_op_isolated)
      (auto simp: list_all_iff)
  then show "fst (mem_list_for_file tn f (fold mem_op (map snd ops) s)) =
      fst (mem_list_for_file tn f s)" by (simp add: mem_list_for_file_def)
  have "?on (fold pg_op ops tab) = ?on tab"
    using assms by (intro fold_keeps [where g = ?on] pg_op_isolated) (auto simp: list_all_iff)
  then show "fst (pg_list_for_file flt col tn f (fold pg_op ops tab)) =
      fst (pg_list_for_file flt col tn f tab)"
    by (simp add: pg_list_for_file_def with_tenant_def split: option.split)
qed

definition no_tx_faults :: tx_faults where
  "no_tx_faults = \<lparr>tx_begin = None, tx_set_tenant = None, tx_statement = None, tx_commit = None\<rparr>"

definition demo_comment :: "str \<Rightarrow> str \<Rightarrow> comment" where
  "demo_comment tn i = (comment_new 7 tn ''a.rs'' 3 3 ''ann'' ''why?'')\<lparr>co_id := i\<rparr>"

lemma reviews_isolated_witness:
  "fst (mem_list_for_file ''t'' ''a.rs''
     (fold mem_op [Op_Add (demo_comment ''u'' []), Op_Resolve ''u'' ''c1'']
       \<lparr>mc_comments = [demo_comment ''t'' ''c1''], mc_counter = 0\<rparr>)) =
   Inr [demo_comment ''t'' ''c1'']"
proof -
  have other: "list_all (\<lambda>p. op_tenant (snd p) \<noteq> ''t'')
      [((no_tx_faults, 0), Op_Add (demo_comment ''u'' [])), ((no_tx_faults, 0), Op_Resolve ''u'' ''c1'')]"
    by (simp add: demo_comment_def comment_new_def)
  show ?thesis
    using conjunct1 [OF reviews_isolated [OF other]] by simp
      (simp add: mem_list_for_file_def on_file_def demo_comment_def comment_new_def)
qed

text \<open>
  Reviewing in memory: an added comment always gets an id, the listing of its file is then
  sorted with open comments first, holds exactly the tenant's comments of the file, one more than
  before, and shows the author's text under that id; resolving that id then succeeds, and says no
  exactly for ids the tenant has no comment under.
\<close>

theorem review_lifecycle:
  "\<exists>i t cs. mem_add c s = (Inr i, t) \<and>
     mem_list_for_file (co_tenant c) (co_file c) t = (Inr cs, t) \<and>
     sorted_wrt (comment_le (\<le>)) cs \<and>
     set cs = {d \<in> set (mc_comments t). on_file (co_tenant c) (co_file c) d} \<and>
     length cs = Suc (length (filter (on_file (co_tenant c) (co_file c)) (mc_comments s))) \<and>
     (\<exists>d\<in>set cs. co_id d = i \<and> co_author d = co_author c \<and> co_body d = co_body c) \<and>
     fst (mem_resolve (co_tenant c) i t) = Inr True \<and>
     (fst (mem_resolve tn j t) = Inr False \<longleftrightarrow> (tn, j) \<notin> (\<lambda>d. (co_tenant d, co_id d)) ` set (mc_comments t))"
proof -
  obtain i t where add: "mem_add c s = (Inr i, t)"
    by (cases "if co_id c = [] then next_comment_id s else (co_id c, s)")
      (simp add: mem_add_def Let_def)
  then have t: "mc_comments t = mc_comments s @ [c\<lparr>co_id := i\<rparr>]"
    by (auto simp: mem_add_def next_comment_id_def Let_def split: if_splits prod.splits)
  have resolve: "fst (mem_resolve a b t) =
      Inr (\<exists>d\<in>set (mc_comments t). co_tenant d = a \<and> co_id d = b)" for a b
  proof (cases "resolve_first a b (mc_comments t)")
    case (Pair r ds)
    from resolve_first_marks [OF this] Pair show ?thesis by (simp add: mem_resolve_def)
  qed
  obtain cs where list: "mem_list_for_file (co_tenant c) (co_file c) t = (Inr cs, t)"
    by (simp add: mem_list_for_file_def)
  then have cs: "cs = sort_by (comment_le (\<le>)) (filter (on_file (co_tenant c) (co_file c)) (mc_comments t))"
    by (simp add: mem_list_for_file_def)
  have "sorted_wrt (comment_le (\<le>)) cs" unfolding cs by (rule listing.sorted_sort)
  moreover have "\<exists>d\<in>set cs. co_id d = i \<and> co_author d = co_author c \<and> co_body d = co_body c"
    using mem_store.added_is_listed [OF add list] by blast
  moreover have "set cs = {d \<in> set (mc_comments t). on_file (co_tenant c) (co_file c) d}"
    by (simp add: cs)
  moreover have "length cs =
      Suc (length (filter (on_file (co_tenant c) (co_file c)) (mc_comments s)))"
    by (simp add: cs t on_file_def)
  moreover have "fst (mem_resolve (co_tenant c) i t) = Inr True" by (simp add: resolve t)
  moreover have "fst (mem_resolve tn j t) = Inr False \<longleftrightarrow>
      (tn, j) \<notin> (\<lambda>d. (co_tenant d, co_id d)) ` set (mc_comments t)"
    unfolding resolve by auto
  ultimately show ?thesis
    using add list by blast
qed

text \<open>
  The id Postgres gets for a comment without one is its creation time in milliseconds, and ids are
  unique over all tenants: of two such comments of one millisecond the second is refused.
\<close>

lemma pg_ids_collide:
  "co_created_at c = co_created_at d \<Longrightarrow> co_id c = [] \<Longrightarrow> co_id d = [] \<Longrightarrow>
     \<exists>e. fst (pg_add flt now' d (snd (pg_add no_tx_faults now c tab))) = Inl e"
  by (cases "''c'' @ show_int (co_created_at d) \<in> co_id ` set tab")
    (auto simp: pg_add_def with_tenant_def no_tx_faults_def Let_def split: option.split)

section \<open>Locks as a map\<close>

text \<open>
  What the callers of a lock store rely on, for the tenants whose names are usable as keys: one
  holder per tenant and file, the last to acquire.
\<close>

locale lock_store =
  fixes acquire :: "lock \<Rightarrow> 's \<Rightarrow> 's"
    and release :: "str \<Rightarrow> str \<Rightarrow> 's \<Rightarrow> 's"
    and get :: "str \<Rightarrow> str \<Rightarrow> 's \<Rightarrow> lock option"
    and usable :: "str \<Rightarrow> bool"
  assumes get_acquire: "usable tn \<Longrightarrow> usable (lk_tenant l) \<Longrightarrow>
      get tn f (acquire l s) = (if tn = lk_tenant l \<and> f = lk_file l then Some l else get tn f s)"
    and get_release: "usable tn \<Longrightarrow> usable tn' \<Longrightarrow>
      get tn f (release tn' f' s) = (if tn = tn' \<and> f = f' then None else get tn f s)"
begin

lemma acquire_release:
  "usable (lk_tenant l) \<Longrightarrow> get (lk_tenant l) (lk_file l) s = None \<Longrightarrow> usable tn \<Longrightarrow>
     get tn f (release (lk_tenant l) (lk_file l) (acquire l s)) = get tn f s"
  by (simp add: get_acquire get_release)

lemma steal:
  "usable (lk_tenant l) \<Longrightarrow> lk_tenant l' = lk_tenant l \<Longrightarrow> lk_file l' = lk_file l \<Longrightarrow>
     get (lk_tenant l) (lk_file l) (acquire l' (acquire l s)) = Some l'"
  by (simp add: get_acquire)

end

definition nul_free :: "str \<Rightarrow> bool" where
  "nul_free tn \<longleftrightarrow> CHR 0x00 \<notin> set tn"

lemma lock_key_inj:
  assumes "nul_free tn" and "nul_free tn'"
  shows "lock_key tn f = lock_key tn' f' \<longleftrightarrow> tn = tn' \<and> f = f'"
  using assms
proof (induction tn arbitrary: tn')
  case Nil
  then show ?case by (cases tn') (auto simp: lock_key_def nul_free_def)
next
  case (Cons x tn)
  show ?case
  proof (cases tn')
    case Nil
    with Cons.prems show ?thesis by (auto simp: lock_key_def nul_free_def)
  next
    case (Cons y ys)
    with Cons.IH [of ys] Cons.prems show ?thesis by (simp add: lock_key_def nul_free_def)
  qed
qed

interpretation mem_locks: lock_store lock_acquire lock_release lock_get nul_free
  by unfold_locales
    (simp_all add: lock_acquire_def lock_release_def lock_get_def update_conv' delete_conv'
      lock_key_inj)

text \<open>
  The lock table refines a map from tenant and file to the holder: acquiring writes one entry
  and steals it from whoever held it, releasing removes that entry, no other entry changes, and
  the number of locks is the number of entries.  The tenants must be free of NUL, which separates
  tenant and file in the key of the table.
\<close>

theorem locks_refine_map:
  assumes "nul_free tn" and "nul_free (lk_tenant l)" and "nul_free tn'"
    and "distinct (map fst s)"
  shows "lock_get tn f (lock_acquire l s) =
      (if tn = lk_tenant l \<and> f = lk_file l then Some l else lock_get tn f s) \<and>
    lock_get tn f (lock_release tn' f' s) = (if tn = tn' \<and> f = f' then None else lock_get tn f s) \<and>
    distinct (map fst (lock_acquire l s)) \<and> distinct (map fst (lock_release tn' f' s)) \<and>
    lock_count s = card (dom (map_of s)) \<and>
    lock_get (lk_tenant l) (lk_file l) (lock_acquire l (lock_acquire l' s)) = Some l"
proof (intro conjI)
  show "lock_count s = card (dom (map_of s))"
    using assms(4) by (simp add: lock_count_def dom_map_of_conv_image_fst distinct_card
        flip: set_map)
  show "lock_get tn f (lock_acquire l s) =
      (if tn = lk_tenant l \<and> f = lk_file l then Some l else lock_get tn f s)"
    using assms by (simp add: mem_locks.get_acquire)
  show "lock_get tn f (lock_release tn' f' s) =
      (if tn = tn' \<and> f = f' then None else lock_get tn f s)"
    using assms by (simp add: mem_locks.get_release)
  show "distinct (map fst (lock_acquire l s))" "distinct (map fst (lock_release tn' f' s))"
    using assms by (simp_all add: lock_acquire_def lock_release_def distinct_update distinct_delete)
  show "lock_get (lk_tenant l) (lk_file l) (lock_acquire l (lock_acquire l' s)) = Some l"
    using assms by (simp add: mem_locks.get_acquire)
qed

definition demo_lock :: lock where
  "demo_lock = lock_new 5 ''t'' ''a.rs'' ''ann''"

lemma locks_refine_map_witness:
  "lock_get ''t'' ''a.rs'' (lock_acquire demo_lock []) = Some demo_lock \<and>
   lock_get ''u'' ''a.rs'' (lock_acquire demo_lock []) = None"
  using locks_refine_map [of "''t''" demo_lock "''t''" "[]" "''a.rs''" "''a.rs''" demo_lock]
    locks_refine_map [of "''u''" demo_lock "''t''" "[]" "''a.rs''" "''a.rs''" demo_lock]
  by (simp add: demo_lock_def lock_new_def nul_free_def lock_get_def)

text \<open>Without that, two tenants can share an entry.\<close>

lemma lock_keys_clash: "lock_key [CHR ''a'', CHR 0x00] ''b'' = lock_key ''a'' [CHR 0x00, CHR ''b'']"
  by (simp add: lock_key_def)

end
