(* ===== verification/Probe.thy ===== *)
theory Probe
  imports Tools "HOL-Library.AList" "HOL-Library.Multiset"
begin

text \<open>
  The completion probe (crates/probe): ranking and the rule engine (completion.rs), the Ollama
  client with its retries, the FIFO cache, degradation, the production client and bounded batches
  (ollama.rs), and the OpenAI-compatible backend (openai.rs).  HTTP replies are parameters; a
  probe state carries, besides the world outside, the requests sent and the pauses made.
  Confidences are finite, so they are rationals.
\<close>

section \<open>Candidates and their ranking (completion.rs)\<close>

record candidate =
  ca_text :: str
  ca_confidence :: rat

record lsp_context =
  lc_uri :: str
  lc_language :: str
  lc_prefix :: str
  lc_suffix :: str
  lc_offset :: nat

record completion_item =
  ci_text :: str
  ci_score :: rat

definition conf_ge :: "candidate \<Rightarrow> candidate \<Rightarrow> bool" where
  "conf_ge a b \<longleftrightarrow> ca_confidence b \<le> ca_confidence a"

interpretation ranking: comparator conf_ge
  by unfold_locales (auto simp: conf_ge_def)

definition item_of :: "candidate \<Rightarrow> completion_item" where
  "item_of c = \<lparr>ci_text = ca_text c, ci_score = ca_confidence c\<rparr>"

definition rank_completions :: "candidate list \<Rightarrow> nat \<Rightarrow> completion_item list" where
  "rank_completions cs limit = map item_of (take (max limit 1) (sort_by conf_ge cs))"

definition derive_rule_candidates :: "str \<Rightarrow> str \<Rightarrow> str \<Rightarrow> candidate list" where
  "derive_rule_candidates prefx suffx language =
     [if ends_with (trim_end prefx) ''fn main(''
      then \<lparr>ca_text = '') {'' @ [CHR 0x0A] @ ''    '' @ [CHR 0x0A] @ ''}'', ca_confidence = 9 / 10\<rparr>
      else (case rev (split_whitespace prefx) of
          word # _ \<Rightarrow> \<lparr>ca_text = word @ ''_suffix'', ca_confidence = 6 / 10\<rparr>
        | [] \<Rightarrow> \<lparr>ca_text = [], ca_confidence = 1 / 10\<rparr>),
      \<lparr>ca_text = ''// fallback'', ca_confidence = 2 / 10\<rparr>]"

text \<open>\<open>max_by\<close> keeps the last of several greatest elements.\<close>

fun max_candidate :: "candidate \<Rightarrow> candidate list \<Rightarrow> candidate" where
  "max_candidate best [] = best"
| "max_candidate best (c # cs) = max_candidate (if conf_ge c best then c else best) cs"

definition rule_complete :: "str \<Rightarrow> str \<Rightarrow> str \<Rightarrow> candidate" where
  "rule_complete prefx suffx language =
     (case derive_rule_candidates prefx suffx language of
        c # cs \<Rightarrow> max_candidate c cs
      | [] \<Rightarrow> \<lparr>ca_text = [], ca_confidence = 0\<rparr>)"

section \<open>Backends\<close>

record generate_request =
  gr_url :: str
  gr_model :: str
  gr_prompt :: str

record 'w probe =
  pb_env :: 'w
  pb_requests :: "generate_request list"
  pb_sleeps :: "64 word list"

type_synonym ('w, 'a) probe_run = "('w probe, str, 'a) eff"
type_synonym 'w backend = "str \<Rightarrow> str \<Rightarrow> str \<Rightarrow> ('w, candidate list) probe_run"

definition provide :: "'w backend \<Rightarrow> lsp_context \<Rightarrow> nat \<Rightarrow> ('w, completion_item list) probe_run" where
  "provide backend ctx limit =
     bnd (backend (lc_prefix ctx) (lc_suffix ctx) (lc_language ctx))
       (\<lambda>cs. ret (rank_completions cs limit))"

definition rule_based :: "'w backend" where
  "rule_based p s l = ret (derive_rule_candidates p s l)"

definition mock_client :: "'w backend" where
  "mock_client p s l = ret (derive_rule_candidates p s l)"

section \<open>The Ollama client\<close>

record ollama_config =
  oc_endpoint :: str
  oc_model :: str
  oc_timeout_ms :: nat
  oc_embed_model :: str
  oc_max_retries :: "32 word"
  oc_backoff_base_ms :: "64 word"
  oc_backoff_max_ms :: "64 word"
  oc_cache_capacity :: nat
  oc_batch_concurrency :: nat

definition ollama_config_default :: ollama_config where
  "ollama_config_default = \<lparr>oc_endpoint = ''http://localhost:11434'', oc_model = ''nes-tab:latest'',
     oc_timeout_ms = 280, oc_embed_model = ''nomic-embed-text'', oc_max_retries = 2,
     oc_backoff_base_ms = 50, oc_backoff_max_ms = 500, oc_cache_capacity = 1024,
     oc_batch_concurrency = 4\<rparr>"

definition build_generate_prompt :: "str \<Rightarrow> str \<Rightarrow> str \<Rightarrow> str" where
  "build_generate_prompt prefx suffx language =
     ''LANGUAGE:'' @ language @ [CHR 0x0A] @ ''PREFIX:'' @ prefx @ [CHR 0x0A] @ ''SUFFIX:'' @ suffx @
     [CHR 0x0A] @ ''COMPLETE_THE_GAP:''"

text \<open>\<open>u64::saturating_mul\<close>, and the capped exponential back-off.\<close>

definition saturating_mul :: "64 word \<Rightarrow> 64 word \<Rightarrow> 64 word" where
  "saturating_mul a b = (if unat a * unat b < 2 ^ 64 then a * b else - 1)"

definition compute_backoff_ms :: "32 word \<Rightarrow> 64 word \<Rightarrow> 64 word \<Rightarrow> 64 word" where
  "compute_backoff_ms attempt base_ms max_ms =
     min (saturating_mul base_ms (push_bit (unat (min attempt 30)) 1)) max_ms"

definition should_retry :: "32 word \<Rightarrow> 32 word \<Rightarrow> bool" where
  "should_retry attempt max_retries \<longleftrightarrow> attempt < max_retries"

text \<open>\<open>format!("{:?}", Duration::from_millis(ms))\<close>\<close>

definition show_duration :: "nat \<Rightarrow> str" where
  "show_duration ms =
     (if 1000 \<le> ms then
        (let frac = rev (dropWhile (\<lambda>c. c = CHR ''0'') (rev (drop 1 (show_nat (1000 + ms mod 1000)))))
         in show_nat (ms div 1000) @ (if frac = [] then [] else CHR ''.'' # frac) @ ''s'')
      else if ms = 0 then ''0ns'' else show_nat ms @ ''ms'')"

text \<open>
  The reply of \<open>post\<close> is the field \<open>response\<close> of the body; \<open>None\<close> as error is the timeout of the
  client around the call.
\<close>

type_synonym 'w http_post = "generate_request \<Rightarrow> ('w, http_error option, str) eff"

text \<open>One request: the world answers, the request is recorded.\<close>

definition send :: "'w http_post \<Rightarrow> generate_request \<Rightarrow> ('w probe, http_error option, str) eff" where
  "send post rq s = (case post rq (pb_env s) of
     (r, env') \<Rightarrow> (r, s\<lparr>pb_env := env', pb_requests := pb_requests s @ [rq]\<rparr>))"

definition try_complete_once :: "'w http_post \<Rightarrow> ollama_config \<Rightarrow> 'w backend" where
  "try_complete_once post cfg p s l =
     handle (send post \<lparr>gr_url = oc_endpoint cfg @ ''/api/generate'', gr_model = oc_model cfg,
               gr_prompt = build_generate_prompt p s l\<rparr>)
       (\<lambda>e. throw (case e of
            None \<Rightarrow> ''ollama request timeout after '' @ show_duration (oc_timeout_ms cfg)
          | Some (Send_Failed x) \<Rightarrow> ''ollama http error: '' @ x
          | Some (Http_Status x) \<Rightarrow> x
          | Some (Bad_Body x) \<Rightarrow> x))
       (\<lambda>response. ret [\<lparr>ca_text = trim response, ca_confidence = 8 / 10\<rparr>])"

definition sleep :: "64 word \<Rightarrow> 'w probe \<Rightarrow> 'w probe" where
  "sleep ms s = s\<lparr>pb_sleeps := pb_sleeps s @ [ms]\<rparr>"

lemma unat_step: "(a :: 32 word) < b \<Longrightarrow> unat (a + 1) = Suc (unat a)"
  using unsigned_less [of b, where ?'a = nat]
  by (simp add: word_less_nat_alt unat_word_ariths(1))

text \<open>The loop of \<open>complete\<close>: it ends when a request succeeds or no retry is left.\<close>

function retry_loop ::
  "('w, 'a) probe_run \<Rightarrow> ollama_config \<Rightarrow> 32 word \<Rightarrow> ('w, 'a) probe_run" where
  "retry_loop once cfg attempt s =
     (case once s of
        (Inr c, s') \<Rightarrow> (Inr c, s')
      | (Inl e, s') \<Rightarrow>
          if \<not> should_retry attempt (oc_max_retries cfg) then (Inl e, s')
          else retry_loop once cfg (attempt + 1)
            (sleep (compute_backoff_ms attempt (oc_backoff_base_ms cfg) (oc_backoff_max_ms cfg)) s'))"
  by pat_completeness auto

termination
  by (relation "measure (\<lambda>(once, cfg, attempt, s). unat (oc_max_retries cfg) - unat attempt)")
    (auto simp: should_retry_def word_less_nat_alt unat_step)

declare retry_loop.simps [simp del]

definition ollama_complete :: "'w http_post \<Rightarrow> ollama_config \<Rightarrow> 'w backend" where
  "ollama_complete post cfg p s l = retry_loop (try_complete_once post cfg p s l) cfg 0"

section \<open>The cache\<close>

type_synonym cache_key = "str \<times> str"

record completion_cache =
  cc_capacity :: nat
  cc_order :: "cache_key list"
  cc_map :: "(cache_key \<times> candidate list) list"

definition cache_new :: "nat \<Rightarrow> completion_cache" where
  "cache_new capacity = \<lparr>cc_capacity = max capacity 1, cc_order = [], cc_map = []\<rparr>"

definition cache_get :: "completion_cache \<Rightarrow> str \<Rightarrow> str \<Rightarrow> candidate list option" where
  "cache_get c prompt language = map_of (cc_map c) (prompt, language)"

definition cache_insert ::
  "str \<Rightarrow> str \<Rightarrow> candidate list \<Rightarrow> completion_cache \<Rightarrow> completion_cache" where
  "cache_insert prompt language value c =
     (let key = (prompt, language) in
      if map_of (cc_map c) key \<noteq> None then c\<lparr>cc_map := AList.update key value (cc_map c)\<rparr>
      else
        let c = (if cc_capacity c \<le> length (cc_order c) then
                   (case cc_order c of
                      [] \<Rightarrow> c
                    | evicted # order \<Rightarrow>
                        c\<lparr>cc_order := order, cc_map := AList.delete evicted (cc_map c)\<rparr>)
                 else c)
        in c\<lparr>cc_order := cc_order c @ [key], cc_map := AList.update key value (cc_map c)\<rparr>)"

definition cache_len :: "completion_cache \<Rightarrow> nat" where
  "cache_len c = length (cc_map c)"

definition cache_is_empty :: "completion_cache \<Rightarrow> bool" where
  "cache_is_empty c \<longleftrightarrow> cc_map c = []"


text \<open>\<open>CachedCompletionBackend\<close>: the state of the cache is threaded with the probe's.\<close>

type_synonym 'w cached_backend =
  "str \<Rightarrow> str \<Rightarrow> str \<Rightarrow> 'w probe \<times> completion_cache \<Rightarrow>
   (str + candidate list) \<times> ('w probe \<times> completion_cache)"

definition cached_complete :: "'w backend \<Rightarrow> 'w cached_backend" where
  "cached_complete inner p sfx l = (\<lambda>(s, c).
     case cache_get c p l of
       Some hit \<Rightarrow> (Inr hit, (s, c))
     | None \<Rightarrow> (case inner p sfx l s of
           (Inl e, s') \<Rightarrow> (Inl e, (s', c))
         | (Inr res, s') \<Rightarrow> (Inr res, (s', cache_insert p l res c))))"

section \<open>Degradation and the production client\<close>

definition degrading :: "'w backend \<Rightarrow> 'w backend \<Rightarrow> 'w backend" where
  "degrading primary fallback p sfx l =
     handle (primary p sfx l) (\<lambda>_. fallback p sfx l) (\<lambda>c. ret c)"

definition nes_complete :: "'w http_post \<Rightarrow> ollama_config \<Rightarrow> 'w cached_backend" where
  "nes_complete post cfg p sfx l = (\<lambda>(s, c).
     case cache_get c p l of
       Some hit \<Rightarrow> (Inr hit, (s, c))
     | None \<Rightarrow> (case ollama_complete post cfg p sfx l s of
           (Inr cands, s') \<Rightarrow> (Inr cands, (s', cache_insert p l cands c))
         | (Inl e, s') \<Rightarrow> (case rule_based p sfx l s' of (r, s'') \<Rightarrow> (r, (s'', c)))))"

text \<open>\<open>NesClient::from_config\<close>\<close>

definition nes_new :: "ollama_config \<Rightarrow> completion_cache" where
  "nes_new cfg = cache_new (oc_cache_capacity cfg)"

definition embed ::
  "(generate_request \<Rightarrow> ('w, http_error, rat list) eff) \<Rightarrow> ollama_config \<Rightarrow> str \<Rightarrow> ('w, str, rat list) eff"
where
  "embed post cfg t =
     handle (post \<lparr>gr_url = oc_endpoint cfg @ ''/api/embeddings'', gr_model = oc_embed_model cfg,
         gr_prompt = t\<rparr>)
       (\<lambda>e. throw (case e of Send_Failed x \<Rightarrow> x | Http_Status x \<Rightarrow> x | Bad_Body x \<Rightarrow> x)) ret"

section \<open>The OpenAI-compatible backend (openai.rs)\<close>

definition probe_openai_error :: "http_error \<Rightarrow> str" where
  "probe_openai_error e = (case e of
       Send_Failed x \<Rightarrow> ''openai request failed: '' @ x
     | Http_Status x \<Rightarrow> ''openai http error: '' @ x
     | Bad_Body x \<Rightarrow> ''invalid openai response: '' @ x)"

definition completion_system_prompt :: str where
  "completion_system_prompt = ''You are a code completion engine. Given a code prefix, suffix, '' @
     ''and language, output ONLY the code that fills the gap between them. Do not repeat '' @
     ''the prefix or suffix. No explanation, no markdown fences.''"

definition openai_complete ::
  "(chat_request \<Rightarrow> ('w, http_error, str list) eff) \<Rightarrow> str \<Rightarrow> str \<Rightarrow> str \<Rightarrow>
   str \<Rightarrow> str \<Rightarrow> str \<Rightarrow> ('w, str, candidate list) eff" where
  "openai_complete post base_url api_key model p sfx l =
     handle (post \<lparr>rq_url = completions_url base_url, rq_model = model,
         rq_messages = [(''system'', completion_system_prompt),
           (''user'', build_generate_prompt p sfx l)],
         rq_bearer = (if trim api_key = [] then None else Some (trim api_key))\<rparr>)
       (\<lambda>e. throw (probe_openai_error e))
       (\<lambda>choices. case first_choice choices of
            Some t \<Rightarrow> ret [\<lparr>ca_text = t, ca_confidence = 8 / 10\<rparr>]
          | None \<Rightarrow> throw ''openai returned no completion choice'')"

section \<open>Batches\<close>

record batch_item =
  bi_prefix :: str
  bi_suffix :: str
  bi_language :: str

text \<open>
  A batch in flight: the items spawned so far, the tasks that hold a permit, and the results by
  item.  The tasks run concurrently, so which one ends next is open; a task's result is the
  backend's answer \<open>answer\<close> for its item.
\<close>

record 'r batch =
  bt_spawned :: nat
  bt_running :: "nat list"
  bt_results :: "nat \<rightharpoonup> 'r"

definition batch_start :: "'r batch" where
  "batch_start = \<lparr>bt_spawned = 0, bt_running = [], bt_results = Map.empty\<rparr>"

inductive batch_step ::
  "(batch_item \<Rightarrow> 'r) \<Rightarrow> batch_item list \<Rightarrow> nat \<Rightarrow> 'r batch \<Rightarrow> 'r batch \<Rightarrow> bool"
  for answer items concurrency where
  spawn: "bt_spawned b < length items \<Longrightarrow> length (bt_running b) < max concurrency 1 \<Longrightarrow>
    batch_step answer items concurrency b
      (b\<lparr>bt_spawned := Suc (bt_spawned b), bt_running := bt_running b @ [bt_spawned b]\<rparr>)"
| finish: "i \<in> set (bt_running b) \<Longrightarrow>
    batch_step answer items concurrency b
      (b\<lparr>bt_running := remove1 i (bt_running b), bt_results := (bt_results b)(i \<mapsto> answer (items ! i))\<rparr>)"

inductive_cases batch_stepE: "batch_step answer items concurrency b b'"

text \<open>The handles are joined in the order they were spawned.\<close>

definition batch_output :: "batch_item list \<Rightarrow> 'r batch \<Rightarrow> 'r option list" where
  "batch_output items b = map (bt_results b) [0..<length items]"

section \<open>Ranking\<close>

lemma mset_insert_by [simp]: "mset (insert_by le x ys) = add_mset x (mset ys)"
  by (induction ys) auto

lemma mset_sort_by [simp]: "mset (sort_by le xs) = mset xs"
  by (induction xs) auto

text \<open>
  Ranking returns the candidates of highest confidence, best first: a prefix, at least one long
  where there is a candidate, of a permutation of the candidates that is sorted by falling confidence
  and keeps the order of candidates of equal confidence.
\<close>

theorem rank_completions_spec:
  "\<exists>cs'. mset cs' = mset cs \<and> sorted_wrt conf_ge cs' \<and>
     (\<lambda>k. filter (\<lambda>c. ca_confidence c = k) cs') = (\<lambda>k. filter (\<lambda>c. ca_confidence c = k) cs) \<and>
     rank_completions cs limit = map item_of (take (max limit 1) cs') \<and>
     length (rank_completions cs limit) = min (length cs) (max limit 1)"
proof (intro exI conjI)
  show "sorted_wrt conf_ge (sort_by conf_ge cs)" by (rule ranking.sorted_sort)
  show "(\<lambda>k. filter (\<lambda>c. ca_confidence c = k) (sort_by conf_ge cs)) =
      (\<lambda>k. filter (\<lambda>c. ca_confidence c = k) cs)"
    by (intro ext ranking.sort_stable) (simp add: conf_ge_def)
qed (simp_all add: rank_completions_def)

section \<open>Retries\<close>

lemma unat_min: "unat (min a b) = min (unat a) (unat (b :: 'a :: len word))"
  by (simp add: min_def word_le_nat_alt)

lemma unat_saturating_mul: "unat (saturating_mul a b) = min (unat a * unat b) (2 ^ 64 - 1)"
proof (cases "unat a * unat b < 2 ^ 64")
  case True
  then have "unat (a * b) = unat a * unat b" by (simp add: unat_word_ariths(2))
  with True show ?thesis by (simp add: saturating_mul_def)
next
  case False
  moreover have "unat (- 1 :: 64 word) = 2 ^ 64 - 1"
    by (simp add: unsigned_minus_1_eq_mask mask_eq_exp_minus_1)
  ultimately show ?thesis by (simp add: saturating_mul_def)
qed

lemma unat_exp_30:
  assumes "n \<le> 30"
  shows "unat (2 ^ n :: 64 word) = 2 ^ n"
proof -
  have "(2 :: nat) ^ n < 2 ^ 64" using assms by (intro power_strict_increasing) auto
  then have "unat (of_nat (2 ^ n) :: 64 word) = 2 ^ n"
    unfolding unat_of_nat by simp
  then show ?thesis by simp
qed

text \<open>
  The back-off before retry k is the base doubled k times (thirty at most) and capped, exactly, for
  every base, cap and attempt: saturation hides no wrap-around, and no pause exceeds the cap.
\<close>

theorem compute_backoff_exact:
  "unat (compute_backoff_ms attempt base_ms max_ms) =
     min (unat base_ms * 2 ^ min (unat attempt) 30) (unat max_ms)"
proof -
  have "unat max_ms < 2 ^ 64" using unsigned_less [of max_ms, where ?'a = nat] by simp
  then have "min (min x (2 ^ 64 - 1)) (unat max_ms) = min x (unat max_ms)" for x by auto
  then show ?thesis
    by (simp add: compute_backoff_ms_def unat_min unat_saturating_mul unat_exp_30)
qed

definition backoffs :: "ollama_config \<Rightarrow> nat \<Rightarrow> nat \<Rightarrow> 64 word list" where
  "backoffs cfg i n =
     map (\<lambda>k. compute_backoff_ms (of_nat k) (oc_backoff_base_ms cfg) (oc_backoff_max_ms cfg)) [i..<i + n]"

lemma backoffs_Suc:
  "backoffs cfg i (Suc n) = compute_backoff_ms (of_nat i) (oc_backoff_base_ms cfg)
     (oc_backoff_max_ms cfg) # backoffs cfg (Suc i) n"
proof -
  have "[i..<i + Suc n] = i # [Suc i..<Suc i + n]"
    by (simp add: upt_conv_Cons del: upt_Suc)
  then show ?thesis by (simp only: backoffs_def list.map)
qed

lemma retry_loop_trace:
  assumes once: "\<And>s. pb_requests (snd (once s)) = pb_requests s @ [rq]"
      "\<And>s. pb_sleeps (snd (once s)) = pb_sleeps s"
  shows "attempt \<le> oc_max_retries cfg \<Longrightarrow> \<exists>n. unat attempt + n \<le> unat (oc_max_retries cfg) \<and>
    pb_requests (snd (retry_loop once cfg attempt s)) = pb_requests s @ replicate (Suc n) rq \<and>
    pb_sleeps (snd (retry_loop once cfg attempt s)) = pb_sleeps s @ backoffs cfg (unat attempt) n \<and>
    (isl (fst (retry_loop once cfg attempt s)) \<longrightarrow> unat attempt + n = unat (oc_max_retries cfg))"
  using once
proof (induction once cfg attempt s rule: retry_loop.induct)
  case (1 once cfg attempt s)
  obtain r s' where run: "once s = (r, s')" by (cases "once s")
  have trace: "pb_requests s' = pb_requests s @ [rq]" "pb_sleeps s' = pb_sleeps s"
    using 1(3,4) [of s] by (simp_all add: run)
  show ?case
  proof (cases "isl r \<and> should_retry attempt (oc_max_retries cfg)")
    case False
    then have stop: "retry_loop once cfg attempt s = (r, s')"
      by (cases r) (simp_all add: retry_loop.simps [of once cfg attempt s] run)
    have last: "isl r \<longrightarrow> unat attempt = unat (oc_max_retries cfg)"
      using False "1.prems"(1) by (auto simp: should_retry_def word_less_nat_alt word_le_nat_alt)
    show ?thesis
      using "1.prems"(1) last
      by (intro exI [of _ 0]) (simp add: stop trace backoffs_def word_le_nat_alt)
  next
    case True
    then obtain e where r: "r = Inl e" by (cases r) auto
    let ?b = "compute_backoff_ms attempt (oc_backoff_base_ms cfg) (oc_backoff_max_ms cfg)"
    let ?s = "sleep ?b s'"
    have go: "retry_loop once cfg attempt s = retry_loop once cfg (attempt + 1) ?s"
      using True r by (simp add: retry_loop.simps [of once cfg attempt s] run)
    have lt: "attempt < oc_max_retries cfg" using True by (simp add: should_retry_def)
    have next_le: "attempt + 1 \<le> oc_max_retries cfg"
      using lt by (simp add: word_le_nat_alt word_less_nat_alt unat_step [OF lt])
    obtain n where n: "unat (attempt + 1) + n \<le> unat (oc_max_retries cfg)"
      "pb_requests (snd (retry_loop once cfg (attempt + 1) ?s)) =
         pb_requests ?s @ replicate (Suc n) rq"
      "pb_sleeps (snd (retry_loop once cfg (attempt + 1) ?s)) =
         pb_sleeps ?s @ backoffs cfg (unat (attempt + 1)) n"
      "isl (fst (retry_loop once cfg (attempt + 1) ?s)) \<longrightarrow>
         unat (attempt + 1) + n = unat (oc_max_retries cfg)"
      using "1.IH" [OF run [symmetric] r _ next_le "1.prems"(2,3)] True by auto
    then show ?thesis
      by (intro exI [of _ "Suc n"])
        (simp add: go sleep_def trace backoffs_Suc unat_step [OF lt])
  qed
qed

definition complete_request :: "ollama_config \<Rightarrow> str \<Rightarrow> str \<Rightarrow> str \<Rightarrow> generate_request" where
  "complete_request cfg p sfx l = \<lparr>gr_url = oc_endpoint cfg @ ''/api/generate'',
     gr_model = oc_model cfg, gr_prompt = build_generate_prompt p sfx l\<rparr>"

lemma try_once_trace:
  "pb_requests (snd (try_complete_once post cfg p sfx l s)) =
     pb_requests s @ [complete_request cfg p sfx l]"
  "pb_sleeps (snd (try_complete_once post cfg p sfx l s)) = pb_sleeps s"
  by (auto simp: try_complete_once_def complete_request_def handle_def send_def
      split: prod.split sum.split)

lemma ollama_trace:
  "\<exists>n. n \<le> unat (oc_max_retries cfg) \<and>
     pb_requests (snd (ollama_complete post cfg p sfx l s)) =
       pb_requests s @ replicate (Suc n) (complete_request cfg p sfx l) \<and>
     pb_sleeps (snd (ollama_complete post cfg p sfx l s)) = pb_sleeps s @ backoffs cfg 0 n \<and>
     (isl (fst (ollama_complete post cfg p sfx l s)) \<longrightarrow> n = unat (oc_max_retries cfg))"
  using retry_loop_trace [of "try_complete_once post cfg p sfx l" _ 0 cfg, OF try_once_trace]
  unfolding ollama_complete_def by fastforce

text \<open>
  C38: the client returns, whatever the server does: a completion takes at most one request more
  than the configured retries, all of them the same, pauses between two requests for exactly the
  back-off of the failed attempt, and reports an error only after the last retry has failed.
\<close>

theorem ollama_complete_terminates:
  "\<exists>n. n \<le> unat (oc_max_retries cfg) \<and>
     pb_requests (snd (ollama_complete post cfg p sfx l s)) =
       pb_requests s @ replicate (Suc n) (complete_request cfg p sfx l) \<and>
     pb_sleeps (snd (ollama_complete post cfg p sfx l s)) = pb_sleeps s @ backoffs cfg 0 n \<and>
     (case fst (ollama_complete post cfg p sfx l s) of
        Inl e \<Rightarrow> n = unat (oc_max_retries cfg) | Inr cs \<Rightarrow> True)"
proof -
  obtain n where "n \<le> unat (oc_max_retries cfg)"
    "pb_requests (snd (ollama_complete post cfg p sfx l s)) =
       pb_requests s @ replicate (Suc n) (complete_request cfg p sfx l)"
    "pb_sleeps (snd (ollama_complete post cfg p sfx l s)) = pb_sleeps s @ backoffs cfg 0 n"
    "isl (fst (ollama_complete post cfg p sfx l s)) \<longrightarrow> n = unat (oc_max_retries cfg)"
    using ollama_trace [of cfg post p sfx l s] by blast
  then show ?thesis by (intro exI [of _ n]) (simp split: sum.split)
qed

section \<open>The cache refines a bounded map\<close>

definition cache_inv :: "completion_cache \<Rightarrow> bool" where
  "cache_inv c \<longleftrightarrow> 1 \<le> cc_capacity c \<and> distinct (cc_order c) \<and> distinct (map fst (cc_map c)) \<and>
     set (cc_order c) = fst ` set (cc_map c) \<and> length (cc_order c) \<le> cc_capacity c"

lemma cache_inv_new: "cache_inv (cache_new n)"
  by (simp add: cache_inv_def cache_new_def)

lemma cache_inv_len: "cache_inv c \<Longrightarrow> cache_len c = length (cc_order c)"
  unfolding cache_inv_def cache_len_def by (metis distinct_card length_map list.set_map)

lemma key_in_map: "map_of m k \<noteq> None \<longleftrightarrow> k \<in> fst ` set m"
  by (metis domIff dom_map_of_conv_image_fst)

lemma keys_update: "fst ` set (AList.update k v m) = insert k (fst ` set m)"
  using arg_cong [OF update_conv' [of k v m], of dom] by (simp add: dom_map_of_conv_image_fst)

lemma keys_delete: "fst ` set (AList.delete k m) = fst ` set m - {k}"
  using arg_cong [OF delete_conv' [of k m], of dom] by (simp add: dom_map_of_conv_image_fst)

text \<open>The three ways an insertion goes: refresh, append, and evict the oldest.\<close>

lemma cache_insert_cases:
  assumes "cache_inv c"
  obtains (refresh) "(p, l) \<in> set (cc_order c)"
      "cache_insert p l v c = c\<lparr>cc_map := AList.update (p, l) v (cc_map c)\<rparr>"
  | (append) "(p, l) \<notin> set (cc_order c)" "length (cc_order c) < cc_capacity c"
      "cache_insert p l v c = c\<lparr>cc_order := cc_order c @ [(p, l)],
         cc_map := AList.update (p, l) v (cc_map c)\<rparr>"
  | (evict) old order where "(p, l) \<notin> set (cc_order c)" "cc_order c = old # order"
      "length (cc_order c) = cc_capacity c"
      "cache_insert p l v c = c\<lparr>cc_order := order @ [(p, l)],
         cc_map := AList.update (p, l) v (AList.delete old (cc_map c))\<rparr>"
proof -
  have key: "map_of (cc_map c) (p, l) \<noteq> None \<longleftrightarrow> (p, l) \<in> set (cc_order c)"
    using assms unfolding key_in_map by (simp add: cache_inv_def)
  have "length (cc_order c) < cc_capacity c \<or> length (cc_order c) = cc_capacity c"
    using assms unfolding cache_inv_def by linarith
  then consider "(p, l) \<in> set (cc_order c)"
    | "(p, l) \<notin> set (cc_order c)" "length (cc_order c) < cc_capacity c"
    | "(p, l) \<notin> set (cc_order c)" "length (cc_order c) = cc_capacity c"
    by blast
  then show thesis
  proof cases
    case 1
    with key show thesis by (intro refresh) (auto simp: cache_insert_def Let_def)
  next
    case 2
    with key show thesis by (intro append) (auto simp: cache_insert_def Let_def)
  next
    case 3
    moreover have "cc_order c \<noteq> []" using 3 assms by (auto simp: cache_inv_def)
    then obtain old order where "cc_order c = old # order" by (cases "cc_order c") auto
    ultimately show thesis using key by (intro evict) (auto simp: cache_insert_def Let_def)
  qed
qed

lemma cache_inv_insert:
  assumes "cache_inv c"
  shows "cache_inv (cache_insert p l v c)"
  using assms
  by (cases rule: cache_insert_cases [OF assms, of p l v])
    (simp_all add: cache_inv_def keys_update keys_delete distinct_update distinct_delete
      insert_absorb insert_commute Diff_insert0, metis Diff_insert_absorb insert_iff)

lemma cache_insert_get:
  assumes "cache_inv c"
  shows "cache_get (cache_insert p l v c) q k =
    (if (q, k) = (p, l) then Some v
     else if (p, l) \<notin> set (cc_order c) \<and> length (cc_order c) = cc_capacity c \<and>
       (q, k) = hd (cc_order c) then None
     else cache_get c q k)"
  by (cases rule: cache_insert_cases [OF assms, of p l v])
    (auto simp: cache_get_def update_conv' delete_conv')

lemma cache_insert_order:
  assumes "cache_inv c"
  shows "cc_order (cache_insert p l v c) =
    (if (p, l) \<in> set (cc_order c) then cc_order c
     else (if length (cc_order c) = cc_capacity c then tl (cc_order c) else cc_order c) @ [(p, l)])"
    and "cc_capacity (cache_insert p l v c) = cc_capacity c"
  by (cases rule: cache_insert_cases [OF assms, of p l v]; auto)+

text \<open>
  C39: the completion cache refines a map bounded by its capacity: an insertion makes the pair of
  prefix and language answer with the new value; if the pair is new and the cache full, the pair that
  has been in longest is forgotten and no other; every other pair keeps its answer; refreshing
  moves nothing; and the invariant (as many entries as keys in the queue, no key twice, never more
  than the capacity, which is at least one) is kept.
\<close>

theorem cache_insert_fifo:
  assumes "cache_inv c"
  shows "cache_inv (cache_insert p l v c) \<and>
    cache_get (cache_insert p l v c) p l = Some v \<and>
    ((q, k) = (p, l) \<or> cache_get (cache_insert p l v c) q k =
      (if (p, l) \<notin> set (cc_order c) \<and> length (cc_order c) = cc_capacity c \<and>
          (q, k) = hd (cc_order c) then None
       else cache_get c q k)) \<and>
    cc_order (cache_insert p l v c) =
      (if (p, l) \<in> set (cc_order c) then cc_order c
       else (if length (cc_order c) = cc_capacity c then tl (cc_order c) else cc_order c) @ [(p, l)]) \<and>
    cache_len (cache_insert p l v c) \<le> cc_capacity c"
proof (intro conjI)
  show inv: "cache_inv (cache_insert p l v c)" by (rule cache_inv_insert [OF assms])
  then show "cache_len (cache_insert p l v c) \<le> cc_capacity c"
    using cache_insert_order(2) [OF assms]
    by (auto simp: cache_inv_len cache_inv_def)
qed (auto simp: cache_insert_get [OF assms] cache_insert_order [OF assms])

lemma cache_insert_fifo_witness:
  "cache_get (cache_insert ''b'' ''rust'' [] (cache_insert ''a'' ''rust'' [] (cache_new 0)))
     ''a'' ''rust'' = None \<and>
   cache_len (cache_insert ''b'' ''rust'' [] (cache_insert ''a'' ''rust'' [] (cache_new 0))) \<le> 1"
proof -
  have inv: "cache_inv (cache_insert ''a'' ''rust'' [] (cache_new 0))"
    by (intro cache_inv_insert cache_inv_new)
  have "cc_order (cache_insert ''a'' ''rust'' [] (cache_new 0)) = [(''a'', ''rust'')]"
    "cc_capacity (cache_insert ''a'' ''rust'' [] (cache_new 0)) = 1"
    by (simp_all add: cache_insert_order [OF cache_inv_new]) (simp_all add: cache_new_def)
  with cache_insert_fifo [OF inv, of "''b''" "''rust''" "[]" "''a''" "''rust''"]
  show ?thesis by simp
qed

section \<open>What the cached clients serve\<close>

text \<open>
  The contract a cached client relies on: an insertion makes no entry up.  With it, whatever is
  true of every answer the model gives for a key is true of every answer the client serves for it.
\<close>

locale answer_cache =
  fixes get :: "'c \<Rightarrow> str \<Rightarrow> str \<Rightarrow> candidate list option"
    and put :: "str \<Rightarrow> str \<Rightarrow> candidate list \<Rightarrow> 'c \<Rightarrow> 'c"
  assumes get_put: "get (put p l v c) q k = Some w \<Longrightarrow> (q, k) = (p, l) \<and> w = v \<or> get c q k = Some w"
begin

definition holds_only :: "(str \<Rightarrow> str \<Rightarrow> candidate list \<Rightarrow> bool) \<Rightarrow> 'c \<Rightarrow> bool" where
  "holds_only Q c \<longleftrightarrow> (\<forall>p l v. get c p l = Some v \<longrightarrow> Q p l v)"

lemma holds_put: "holds_only Q c \<Longrightarrow> Q p l v \<Longrightarrow> holds_only Q (put p l v c)"
  unfolding holds_only_def by (blast dest: get_put)

lemma holds_get: "holds_only Q c \<Longrightarrow> get c p l = Some v \<Longrightarrow> Q p l v"
  by (simp add: holds_only_def)

end

lemma map_of_delete_Some: "map_of (AList.delete x m) y = Some w \<Longrightarrow> map_of m y = Some w"
  by (simp add: delete_conv' split: if_splits)

lemma cache_get_insert:
  assumes "cache_get (cache_insert p l v c) q k = Some w"
  shows "(q, k) = (p, l) \<and> w = v \<or> cache_get c q k = Some w"
proof (cases "map_of (cc_map c) (p, l) = None")
  case False
  with assms show ?thesis
    by (simp add: cache_insert_def cache_get_def update_conv' split: if_splits)
next
  case True
  define c' where "c' = (if cc_capacity c \<le> length (cc_order c) then
      (case cc_order c of [] \<Rightarrow> c
       | evicted # order \<Rightarrow> c\<lparr>cc_order := order, cc_map := AList.delete evicted (cc_map c)\<rparr>)
    else c)"
  have sub: "map_of (cc_map c') x = Some w \<Longrightarrow> map_of (cc_map c) x = Some w" for x
    by (cases "cc_order c") (auto simp: c'_def dest: map_of_delete_Some split: if_splits)
  have "cache_insert p l v c =
      c'\<lparr>cc_order := cc_order c' @ [(p, l)], cc_map := AList.update (p, l) v (cc_map c')\<rparr>"
    using True by (simp add: cache_insert_def Let_def c'_def)
  with assms have "(if (q, k) = (p, l) then Some v else map_of (cc_map c') (q, k)) = Some w"
    by (simp add: cache_get_def update_conv' split: if_splits)
  with sub show ?thesis by (auto simp: cache_get_def split: if_splits)
qed

interpretation probe_cache: answer_cache cache_get cache_insert
  by unfold_locales (rule cache_get_insert)

lemma nes_complete_cases:
  obtains (hit) v where "cache_get c p l = Some v" "nes_complete post cfg p sfx l (s, c) = (Inr v, (s, c))"
  | (model) v s' where "cache_get c p l = None" "ollama_complete post cfg p sfx l s = (Inr v, s')"
      "nes_complete post cfg p sfx l (s, c) = (Inr v, (s', cache_insert p l v c))"
  | (rules) e s' where "cache_get c p l = None" "ollama_complete post cfg p sfx l s = (Inl e, s')"
      "nes_complete post cfg p sfx l (s, c) = (Inr (derive_rule_candidates p sfx l), (s', c))"
proof (cases "cache_get c p l")
  case (Some v)
  then show thesis by (intro hit) (auto simp: nes_complete_def)
next
  case None
  obtain r s' where run: "ollama_complete post cfg p sfx l s = (r, s')"
    by (cases "ollama_complete post cfg p sfx l s")
  show thesis
  proof (cases r)
    case (Inl e)
    with None run show thesis by (intro rules) (auto simp: nes_complete_def rule_based_def)
  next
    case (Inr v)
    with None run show thesis by (intro model) (auto simp: nes_complete_def)
  qed
qed

text \<open>
  A model answer: one candidate with the model's confidence.  Only those are ever kept.
\<close>

definition model_answer :: "candidate list \<Rightarrow> bool" where
  "model_answer v \<longleftrightarrow> length v = 1 \<and> map ca_confidence v = [8 / 10]"

lemma retry_loop_result:
  assumes "\<And>s c s'. once s = (Inr c, s') \<Longrightarrow> Q c"
  shows "retry_loop once cfg a s = (Inr c, t) \<Longrightarrow> Q c"
  using assms
proof (induction once cfg a s arbitrary: c t rule: retry_loop.induct)
  case (1 once cfg a s)
  obtain r s' where run: "once s = (r, s')" by (cases "once s")
  show ?case
  proof (cases r)
    case (Inr x)
    with run "1.prems" show ?thesis by (auto simp: retry_loop.simps [of once cfg a s])
  next
    case (Inl e)
    with "1.prems"(1) run have "should_retry a (oc_max_retries cfg)"
      by (auto simp: retry_loop.simps [of once cfg a s] split: if_splits)
    with Inl run "1.prems" show ?thesis
      using "1.IH" [OF run [symmetric] Inl] by (auto simp: retry_loop.simps [of once cfg a s])
  qed
qed

lemma ollama_model_answer:
  "ollama_complete post cfg p sfx l s = (Inr v, t) \<Longrightarrow> model_answer v"
  unfolding ollama_complete_def
  by (erule retry_loop_result [rotated])
    (auto simp: try_complete_once_def handle_def model_answer_def split: prod.splits sum.splits)

definition probe_keeps :: "ollama_config \<Rightarrow> completion_cache \<Rightarrow> bool" where
  "probe_keeps cfg c \<longleftrightarrow> cache_inv c \<and> cc_capacity c = max (oc_cache_capacity cfg) 1 \<and>
     probe_cache.holds_only (\<lambda>p l v. model_answer v) c"

lemma nes_keeps:
  "probe_keeps cfg c \<Longrightarrow> probe_keeps cfg (snd (snd (nes_complete post cfg p sfx l (s, c))))"
  by (cases rule: nes_complete_cases [of c p l post cfg sfx s])
    (auto simp: probe_keeps_def cache_inv_insert cache_insert_order(2) intro!: probe_cache.holds_put
      dest: ollama_model_answer)

lemma probe_keeps_new: "probe_keeps cfg (nes_new cfg)"
  unfolding probe_keeps_def probe_cache.holds_only_def nes_new_def
  by (simp add: cache_inv_new) (simp add: cache_get_def cache_new_def)

text \<open>A session of completions, each with its own server behaviour.\<close>

fun nes_session ::
  "('w http_post \<times> str \<times> str \<times> str) list \<Rightarrow> ollama_config \<Rightarrow> 'w probe \<times> completion_cache \<Rightarrow>
   'w probe \<times> completion_cache" where
  "nes_session [] cfg st = st"
| "nes_session ((post, p, sfx, l) # calls) cfg st =
     nes_session calls cfg (snd (nes_complete post cfg p sfx l st))"

lemma nes_session_keeps:
  "probe_keeps cfg (snd st) \<Longrightarrow> probe_keeps cfg (snd (nes_session calls cfg st))"
proof (induction calls cfg st rule: nes_session.induct)
  case (2 post p sfx l calls cfg st)
  with nes_keeps [of cfg "snd st" post p sfx l "fst st"] show ?case by simp
qed simp

text \<open>
  C37: the production client always answers: after any session, with servers that fail in any way,
  a completion is a candidate list and never an error; it costs at most one request more than the
  configured retries, and none when the pair of prefix and language is cached; the cache stays within
  its capacity, and an answer of the rule engine, given when the model fails, is never cached: every
  cached answer is one candidate of the model.
\<close>

theorem nes_always_answers:
  "\<exists>v t c' n. nes_complete post cfg p sfx l (nes_session calls cfg (s0, nes_new cfg)) = (Inr v, (t, c')) \<and>
     pb_requests t = pb_requests (fst (nes_session calls cfg (s0, nes_new cfg))) @
       replicate n (complete_request cfg p sfx l) \<and>
     n \<le> Suc (unat (oc_max_retries cfg)) \<and>
     cache_len c' \<le> max (oc_cache_capacity cfg) 1 \<and>
     (model_answer v \<or> v = derive_rule_candidates p sfx l) \<and>
     (case cache_get c' q k of None \<Rightarrow> True | Some w \<Rightarrow> model_answer w)"
proof -
  obtain s c where st: "nes_session calls cfg (s0, nes_new cfg) = (s, c)"
    by (cases "nes_session calls cfg (s0, nes_new cfg)")
  have keeps: "probe_keeps cfg c"
    using nes_session_keeps [of cfg "(s0, nes_new cfg)" calls] probe_keeps_new [of cfg] st by simp
  obtain v t c' where run: "nes_complete post cfg p sfx l (s, c) = (Inr v, (t, c'))"
    by (cases rule: nes_complete_cases [of c p l post cfg sfx s]) auto
  obtain n where n: "n \<le> unat (oc_max_retries cfg)"
    "pb_requests (snd (ollama_complete post cfg p sfx l s)) =
      pb_requests s @ replicate (Suc n) (complete_request cfg p sfx l)"
    using ollama_trace [of cfg post p sfx l s] by blast
  have cost: "\<exists>m. pb_requests t = pb_requests s @ replicate m (complete_request cfg p sfx l) \<and>
      m \<le> Suc (unat (oc_max_retries cfg))"
  proof (cases rule: nes_complete_cases [of c p l post cfg sfx s])
    case (hit v)
    with run show ?thesis by (intro exI [of _ 0]) simp
  qed (use run n in \<open>intro exI [of _ "Suc n"], simp\<close>)+
  have keeps': "probe_keeps cfg c'" using nes_keeps [OF keeps, of post p sfx l s] run by simp
  have len: "cache_len c' \<le> max (oc_cache_capacity cfg) 1"
    using keeps' by (auto simp: probe_keeps_def cache_inv_len cache_inv_def)
  have answer: "model_answer v \<or> v = derive_rule_candidates p sfx l"
    by (cases rule: nes_complete_cases [of c p l post cfg sfx s])
      (use run keeps ollama_model_answer in
        \<open>auto simp: probe_keeps_def dest: probe_cache.holds_get\<close>)
  have kept: "case cache_get c' q k of None \<Rightarrow> True | Some w \<Rightarrow> model_answer w"
    using keeps' by (auto simp: probe_keeps_def dest: probe_cache.holds_get split: option.split)
  show ?thesis unfolding st fst_conv using run cost len answer kept by blast
qed

text \<open>
  The key of the cache leaves the suffix out: within one prefix and language the second suffix gets
  the completion made for the first.
\<close>

lemma cache_ignores_suffix:
  assumes "cache_inv c" and "cache_get c p l = None"
    and "ollama_complete post cfg p sfx l s = (Inr v, t)"
  shows "\<exists>st. nes_complete post cfg p sfx l (s, c) = (Inr v, st) \<and>
    nes_complete post' cfg p other l st = (Inr v, st)"
  using assms by (auto simp: nes_complete_def cache_insert_get)

text \<open>The wrapper alone behaves alike, and degrading to the rule engine leaves no error.\<close>

lemma cached_complete_second:
  assumes "cache_inv c" and "cached_complete inner p sfx l (s, c) = (Inr v, st)"
  shows "cached_complete inner' p other l st = (Inr v, st)"
  using assms
  by (auto simp: cached_complete_def cache_insert_get split: option.splits prod.splits sum.splits)

lemma degrading_to_rules: "\<not> isl (fst (degrading primary rule_based p sfx l s))"
  by (auto simp: degrading_def handle_def rule_based_def split: prod.split sum.split)

lemma ends_with_Nil: "ends_with [] p \<longleftrightarrow> p = []"
  by (auto simp: ends_with_def starts_with_def)

text \<open>The best rule is the constant one exactly for a prefix of blanks.\<close>

lemma rule_complete_text:
  "ca_text (rule_complete p sfx l) =
     (if ends_with (trim_end p) ''fn main('' then '') {'' @ [CHR 0x0A] @ ''    '' @ [CHR 0x0A] @ ''}''
      else if split_whitespace p = [] then ''// fallback''
      else last (split_whitespace p) @ ''_suffix'')"
  by (cases "split_whitespace p" rule: rev_cases)
    (simp_all add: rule_complete_def derive_rule_candidates_def conf_ge_def)

section \<open>Batches\<close>

definition batch_inv :: "(batch_item \<Rightarrow> 'r) \<Rightarrow> batch_item list \<Rightarrow> nat \<Rightarrow> nat \<Rightarrow> 'r batch \<Rightarrow> bool" where
  "batch_inv answer items concurrency k b \<longleftrightarrow>
     bt_spawned b \<le> length items \<and> length (bt_running b) \<le> max concurrency 1 \<and>
     distinct (bt_running b) \<and> (\<forall>i\<in>set (bt_running b). i < bt_spawned b) \<and>
     bt_results b = (\<lambda>i. if i < bt_spawned b \<and> i \<notin> set (bt_running b)
       then Some (answer (items ! i)) else None) \<and>
     k + length (bt_running b) = 2 * bt_spawned b"

lemma batch_inv_start: "batch_inv answer items concurrency 0 batch_start"
  by (simp add: batch_inv_def batch_start_def)

lemma batch_inv_step:
  assumes "batch_step answer items concurrency b b'" and "batch_inv answer items concurrency k b"
  shows "batch_inv answer items concurrency (Suc k) b'"
  using assms
proof (induction rule: batch_step.induct)
  case (spawn b)
  then show ?case by (fastforce simp: batch_inv_def)
next
  case (finish i b)
  then have "length (bt_running b) = Suc (length (remove1 i (bt_running b)))"
    by (simp add: length_remove1) (metis Suc_pred length_pos_if_in_set)
  with finish show ?case by (auto simp: batch_inv_def fun_eq_iff)
qed

lemma batch_inv_run:
  "(batch_step answer items concurrency ^^ k) batch_start b \<Longrightarrow>
     batch_inv answer items concurrency k b"
  by (induction k arbitrary: b) (auto simp: batch_inv_start intro: batch_inv_step)

lemma batch_progress:
  assumes "batch_inv answer items concurrency k b"
  shows "(\<exists>b'. batch_step answer items concurrency b b') \<longleftrightarrow> k < 2 * length items"
proof
  assume "\<exists>b'. batch_step answer items concurrency b b'"
  then obtain b' where "batch_step answer items concurrency b b'" by blast
  from batch_inv_step [OF this assms] show "k < 2 * length items"
    by (auto simp: batch_inv_def)
next
  assume k: "k < 2 * length items"
  show "\<exists>b'. batch_step answer items concurrency b b'"
  proof (cases "bt_running b")
    case Nil
    with k assms have "bt_spawned b < length items" by (simp add: batch_inv_def)
    then show ?thesis using batch_step.spawn [of b items concurrency answer] Nil
      by (auto simp: less_max_iff_disj)
  next
    case (Cons i rest)
    then show ?thesis using batch_step.finish [of i b answer items concurrency] by auto
  qed
qed

text \<open>
  C40: a batch, however its tasks interleave, never has more tasks running than the permits (at
  least one), holds for every task that ended the backend's answer for that very item, and cannot
  get stuck: a step is possible until each of the n items has been spawned and has ended, which is
  after exactly 2 n steps, and then the output is the answers in the order of the items.
\<close>

theorem batch_runs:
  assumes "(batch_step answer items concurrency ^^ k) batch_start b"
  shows "length (bt_running b) \<le> max concurrency 1 \<and>
    batch_output items b = map (\<lambda>i. if i < bt_spawned b \<and> i \<notin> set (bt_running b)
      then Some (answer (items ! i)) else None) [0..<length items] \<and>
    ((\<exists>b'. batch_step answer items concurrency b b') \<longleftrightarrow> k < 2 * length items) \<and>
    (k < 2 * length items \<or> batch_output items b = map (\<lambda>x. Some (answer x)) items)"
proof (intro conjI)
  have inv: "batch_inv answer items concurrency k b" by (rule batch_inv_run [OF assms])
  show "length (bt_running b) \<le> max concurrency 1" using inv by (simp add: batch_inv_def)
  show out: "batch_output items b = map (\<lambda>i. if i < bt_spawned b \<and> i \<notin> set (bt_running b)
      then Some (answer (items ! i)) else None) [0..<length items]"
    using inv unfolding batch_inv_def batch_output_def by simp
  show "(\<exists>b'. batch_step answer items concurrency b b') \<longleftrightarrow> k < 2 * length items"
    by (rule batch_progress [OF inv])
  show "k < 2 * length items \<or> batch_output items b = map (\<lambda>x. Some (answer x)) items"
  proof (rule disjCI)
    assume "batch_output items b \<noteq> map (\<lambda>x. Some (answer x)) items"
    show "k < 2 * length items"
    proof (rule ccontr)
      assume "\<not> k < 2 * length items"
      with inv have "bt_spawned b = length items \<and> length (bt_running b) = 0"
        unfolding batch_inv_def by linarith
      then have "bt_spawned b = length items" "bt_running b = []" by simp_all
      then have "batch_output items b = map (\<lambda>i. Some (answer (items ! i))) [0..<length items]"
        unfolding out by simp
      also have "\<dots> = map (\<lambda>x. Some (answer x)) items"
        by (rule nth_equalityI) simp_all
      finally show False using \<open>batch_output items b \<noteq> _\<close> by simp
    qed
  qed
qed

lemma batch_runs_witness:
  "\<exists>b. (batch_step bi_prefix [\<lparr>bi_prefix = ''a'', bi_suffix = [], bi_language = []\<rparr>] 0 ^^ 2)
       batch_start b \<and>
     batch_output [\<lparr>bi_prefix = ''a'', bi_suffix = [], bi_language = []\<rparr>] b = [Some ''a'']"
proof -
  let ?items = "[\<lparr>bi_prefix = ''a'', bi_suffix = [], bi_language = []\<rparr>]"
  let ?step = "batch_step bi_prefix ?items 0"
  have one: "?step batch_start (batch_start\<lparr>bt_spawned := 1, bt_running := [0]\<rparr>)"
    using batch_step.spawn [of batch_start ?items 0 bi_prefix] by (simp add: batch_start_def)
  have two: "?step (batch_start\<lparr>bt_spawned := 1, bt_running := [0]\<rparr>)
      (batch_start\<lparr>bt_spawned := 1, bt_running := [], bt_results := [0 \<mapsto> ''a'']\<rparr>)"
    using batch_step.finish [of 0 "batch_start\<lparr>bt_spawned := 1, bt_running := [0]\<rparr>" bi_prefix ?items 0]
    by (simp add: batch_start_def)
  have run: "(?step ^^ 2) batch_start
      (batch_start\<lparr>bt_spawned := 1, bt_running := [], bt_results := [0 \<mapsto> ''a'']\<rparr>)"
    using one two by (auto simp: numeral_2_eq_2)
  have "batch_output ?items
      (batch_start\<lparr>bt_spawned := 1, bt_running := [], bt_results := [0 \<mapsto> ''a'']\<rparr>) = [Some ''a'']"
    using conjunct1 [OF conjunct2 [OF batch_runs [OF run]]] by simp
  with run show ?thesis by blast
qed

end
