(* ===== verification/Chat.thy ===== *)
theory Chat
  imports Planner
begin

text \<open>
  The chat engine (crates/core/src/chat.rs): attachments, the rolling session, a reply behind the
  Generate permission, and the split of a reply into chunks.  A reply runs over the same world as
  the planner, so the trail shows what the model was asked and what was audited.
\<close>

section \<open>Attachments and sessions\<close>

datatype attachment = At_File str | At_Symbol str | At_Raw str

definition parse_attachment :: "str \<Rightarrow> attachment" where
  "parse_attachment s =
     (case strip_prefix ''@file:'' s of
        Some p \<Rightarrow> At_File p
      | None \<Rightarrow> (case strip_prefix ''@symbol:'' s of Some p \<Rightarrow> At_Symbol p | None \<Rightarrow> At_Raw s))"

definition parse_attachments :: "str list \<Rightarrow> attachment list" where
  "parse_attachments raw = map parse_attachment raw"

record tool_suggestion =
  ts_tool :: str
  ts_argument :: str
  ts_rationale :: str

record chat_turn =
  ct_role :: str
  ct_content :: str

record chat_session =
  cs_history :: "chat_turn list"
  cs_ctx :: context_manager
  cs_max_turns :: nat
  cs_budget_tokens :: nat

definition chat_session_new :: "nat \<Rightarrow> nat \<Rightarrow> chat_session" where
  "chat_session_new budget turns = \<lparr>cs_history = [], cs_ctx = cm_with_budget (turns * 4) budget,
     cs_max_turns = max turns 1, cs_budget_tokens = max budget 1\<rparr>"

definition session_push :: "str \<Rightarrow> str \<Rightarrow> chat_session \<Rightarrow> chat_session" where
  "session_push role content s =
     (let h = cs_history s @ [\<lparr>ct_role = role, ct_content = content\<rparr>];
          ctx = cm_push content (cs_ctx s);
          h = (if cs_max_turns s < length h then tl h else h)
      in s\<lparr>cs_history := h, cs_ctx := snd (budget_trim ctx)\<rparr>)"

definition push_user :: "str \<Rightarrow> chat_session \<Rightarrow> chat_session" where
  "push_user content s = session_push ''user'' content s"

definition push_assistant :: "str \<Rightarrow> chat_session \<Rightarrow> chat_session" where
  "push_assistant content s = session_push ''assistant'' content s"

definition render_attachment :: "attachment \<Rightarrow> str" where
  "render_attachment a = (case a of
       At_File f \<Rightarrow> ''@file:'' @ f @ [CHR 0x0A]
     | At_Symbol s \<Rightarrow> ''@symbol:'' @ s @ [CHR 0x0A]
     | At_Raw r \<Rightarrow> ''@raw:'' @ r @ [CHR 0x0A])"

definition compose_prompt :: "chat_session \<Rightarrow> str \<Rightarrow> attachment list \<Rightarrow> str" where
  "compose_prompt s user_msg attachments =
     ''=== Chat ==='' @ [CHR 0x0A] @ concat (map render_attachment attachments) @
     ''user: '' @ user_msg @ [CHR 0x0A] @ ''=== History + context ==='' @ [CHR 0x0A] @
     build_prompt (cs_ctx s)"

section \<open>The engine\<close>

record 'w chat_engine =
  ce_llm :: "'w llm"
  ce_perms :: permission_set
  ce_principal :: principal
  ce_sink :: "audit_event \<Rightarrow> ('w, str, unit) eff"
  ce_clock :: "'w \<Rightarrow> int"

definition chat_engine_new :: "'w llm \<Rightarrow> permission_set \<Rightarrow> ('w \<Rightarrow> int) \<Rightarrow> 'w chat_engine" where
  "chat_engine_new llm ps clk = \<lparr>ce_llm = llm, ce_perms = ps,
     ce_principal = principal_from_mask ''single'' ''chat'' ps, ce_sink = (\<lambda>_. ret ()),
     ce_clock = clk\<rparr>"

definition chat_with_governance ::
  "principal \<Rightarrow> (audit_event \<Rightarrow> ('w, str, unit) eff) \<Rightarrow> 'w chat_engine \<Rightarrow> 'w chat_engine" where
  "chat_with_governance pr sink e = e\<lparr>ce_perms := perms pr, ce_principal := pr, ce_sink := sink\<rparr>"

record chat_reply =
  cr_content :: str
  cr_suggestions :: "tool_suggestion list"

definition chat_audit ::
  "('w, 'r) chat_engine_scheme \<Rightarrow> audit_action \<Rightarrow> bool \<Rightarrow> json \<Rightarrow> ('w, 'e, unit) run" where
  "chat_audit e action g payload =
     bnd (gets (\<lambda>w. audit_event_new (ce_clock e (env w)) (ce_principal e) action g payload)) (\<lambda>ev.
     bnd (count_metric inc_audit_events) (\<lambda>_.
     bnd (mark (C_Audit ev)) (\<lambda>_.
     handle (external (ce_sink e ev)) (\<lambda>_. ret ()) ret)))"

definition suggestions_of :: "str \<Rightarrow> action_plan \<Rightarrow> tool_suggestion list" where
  "suggestions_of thought plan =
     (if plan_tool plan = [] then []
      else [\<lparr>ts_tool = plan_tool plan, ts_argument = plan_argument plan,
             ts_rationale = ''based on: '' @ thought\<rparr>])"

text \<open>The model is asked twice; the questions are counted once, when both have been answered.\<close>

definition ask_model ::
  "('w, 'r) chat_engine_scheme \<Rightarrow> str \<Rightarrow> ('w, str, str \<times> action_plan) run" where
  "ask_model e prompt =
     bnd (mark (C_Think prompt)) (\<lambda>_.
     bnd (external (llm_think (ce_llm e) prompt)) (\<lambda>thought.
     bnd (mark (C_Plan thought)) (\<lambda>_.
     bnd (external (llm_plan_action (ce_llm e) thought)) (\<lambda>plan.
     bnd (count_metric inc_llm_calls) (\<lambda>_. ret (thought, plan))))))"

text \<open>The session is written at the end only, so a reply that fails leaves it as it was.\<close>

definition reply ::
  "('w, 'r) chat_engine_scheme \<Rightarrow> chat_session \<Rightarrow> str \<Rightarrow> attachment list \<Rightarrow>
   ('w, str, chat_reply \<times> chat_session) run" where
  "reply e session user_msg attachments =
     (case check_permission (ce_principal e) P_Generate of
        Inl d \<Rightarrow>
          bnd (count_metric inc_denials) (\<lambda>_.
          bnd (chat_audit e A_Generate False
                 (JObj [(''reason'', JStr (display_denied d)), (''user_msg'', JStr user_msg)])) (\<lambda>_.
          throw (display_denied d)))
      | Inr _ \<Rightarrow>
          bnd (chat_audit e A_Generate True
                 (JObj [(''user_msg'', JStr user_msg),
                        (''attachments'', JNum (int (length attachments)))])) (\<lambda>_.
          bnd (ask_model e (compose_prompt session user_msg attachments)) (\<lambda>(thought, plan).
          let content = ''(assistant) '' @ thought in
          ret (\<lparr>cr_content = content, cr_suggestions = suggestions_of thought plan\<rparr>,
               push_assistant content (push_user user_msg session)))))"

definition sentence_end :: "char \<Rightarrow> bool" where
  "sentence_end b \<longleftrightarrow> b = CHR ''.'' \<or> b = CHR ''!'' \<or> b = CHR ''?''"

text \<open>The first argument is \<open>full[start..i]\<close>, the piece read so far.\<close>

fun stream_chunks :: "str \<Rightarrow> str \<Rightarrow> str list" where
  "stream_chunks piece [] = (if trim piece = [] then [] else [trim piece])"
| "stream_chunks piece (b # bs) =
     (if sentence_end b
      then (if trim (piece @ [b]) = [] then [] else [piece @ [b]]) @ stream_chunks [] bs
      else stream_chunks (piece @ [b]) bs)"

definition reply_stream :: "str \<Rightarrow> str list" where
  "reply_stream full = stream_chunks [] full"

section \<open>Sessions\<close>

definition session_wf :: "chat_session \<Rightarrow> bool" where
  "session_wf s \<longleftrightarrow> 1 \<le> cs_max_turns s \<and> length (cs_history s) \<le> cs_max_turns s \<and>
     cm_wf (cs_ctx s) \<and> cm_chunks (cs_ctx s) = []"

lemma session_wf_new: "session_wf (chat_session_new b n)"
  by (simp add: session_wf_def chat_session_new_def cm_with_budget_def cm_wf_def)

lemma budget_trim_no_chunks: "cm_chunks cm = [] \<Longrightarrow> snd (budget_trim cm) = cm"
  by (simp add: budget_trim_def trim_loop.simps)

lemma cm_push_chunks [simp]: "cm_chunks (cm_push x cm) = cm_chunks cm"
  by (simp add: cm_push_def)

lemma session_push_wf:
  assumes "session_wf s"
  shows "session_wf (session_push r c s)"
    and "cs_max_turns (session_push r c s) = cs_max_turns s"
    and "cs_ctx (session_push r c s) = cm_push c (cs_ctx s)"
  using assms
  by (auto simp: session_wf_def session_push_def Let_def budget_trim_no_chunks cm_push_wf)

lemma session_push_history:
  assumes "cs_history s = last_n (cs_max_turns s) hs" and "1 \<le> cs_max_turns s"
  shows "cs_history (session_push r c s) =
    last_n (cs_max_turns s) (hs @ [\<lparr>ct_role = r, ct_content = c\<rparr>])"
proof -
  let ?n = "cs_max_turns s" and ?t = "\<lparr>ct_role = r, ct_content = c\<rparr>"
  show ?thesis
  proof (cases "?n \<le> length hs")
    case True
    then have "length (last_n ?n hs) = ?n" "last_n ?n hs \<noteq> []"
      using assms(2) by (auto simp: last_n_def)
    then have "cs_history (session_push r c s) = tl (last_n ?n hs) @ [?t]"
      by (simp add: session_push_def assms(1) Let_def)
    also have "tl (last_n ?n hs) = drop (Suc (length hs) - ?n) hs"
      using True by (simp add: last_n_def tl_drop drop_Suc Suc_diff_le)
    finally show ?thesis using True assms(2) by (simp add: last_n_def)
  next
    case False
    then show ?thesis by (simp add: session_push_def assms(1) last_n_def)
  qed
qed

fun push_turn :: "str \<times> str \<Rightarrow> chat_session \<Rightarrow> chat_session" where
  "push_turn (r, c) s = session_push r c s"

lemma fold_push_turns:
  assumes "session_wf s" and "cs_history s = last_n (cs_max_turns s) hs"
    and "window (cs_ctx s) = last_n (max_items (cs_ctx s)) cs"
  shows "session_wf (fold push_turn turns s) \<and>
    cs_history (fold push_turn turns s) = last_n (cs_max_turns s)
      (hs @ map (\<lambda>(r, c). \<lparr>ct_role = r, ct_content = c\<rparr>) turns) \<and>
    window (cs_ctx (fold push_turn turns s)) = last_n (max_items (cs_ctx s)) (cs @ map snd turns)"
  using assms
proof (induction turns arbitrary: s hs cs)
  case (Cons t turns)
  obtain r c where t: "t = (r, c)" by (cases t)
  have wf: "1 \<le> cs_max_turns s" "0 < max_items (cs_ctx s)"
    using Cons.prems(1) by (auto simp: session_wf_def cm_wf_def)
  have h: "cs_history (session_push r c s) =
      last_n (cs_max_turns (session_push r c s)) (hs @ [\<lparr>ct_role = r, ct_content = c\<rparr>])"
    using session_push_history [OF Cons.prems(2) wf(1)] session_push_wf(2) [OF Cons.prems(1)] by simp
  have w: "window (cs_ctx (session_push r c s)) =
      last_n (max_items (cs_ctx (session_push r c s))) (cs @ [c])"
    using push_last_n [OF Cons.prems(3) wf(2)] session_push_wf(3) [OF Cons.prems(1)] by simp
  from Cons.IH [OF session_push_wf(1) [OF Cons.prems(1)] h w] show ?case
    using session_push_wf(2,3) [OF Cons.prems(1)] by (simp add: t)
qed simp


section \<open>Replies\<close>

lemma chat_audit_run:
  "\<exists>ev e'. chat_audit e (from_permission req) g payload s =
     (Inr (), s\<lparr>w_metrics := inc_audit_events (w_metrics s), trail := trail s @ [C_Audit ev], env := e'\<rparr>) \<and>
     audits (ce_principal e) req g ev"
proof -
  let ?ev = "audit_event_new (ce_clock e (env s)) (ce_principal e) (from_permission req) g payload"
  obtain r e' where sink: "ce_sink e ?ev (env s) = (r, e')" by force
  have "audits (ce_principal e) req g ?ev" by (simp add: audits_def audit_event_new_def)
  then show ?thesis
    by (intro exI [of _ ?ev] exI [of _ e'], cases r)
      (auto simp: chat_audit_def eff_simps external_def sink)
qed

lemma ask_model_run:
  assumes "ask_model e prompt s = (res, t)"
  shows "\<exists>L. trail t = trail s @ C_Think prompt # L \<and>
    (case res of
       Inl err \<Rightarrow> w_metrics t = w_metrics s \<and> (L = [] \<or> (\<exists>x. L = [C_Plan x]))
     | Inr (thought, plan) \<Rightarrow> L = [C_Plan thought] \<and> w_metrics t = inc_llm_calls (w_metrics s))"
  using assms unfolding ask_model_def
  by (auto simp: eff_simps external_def split: prod.splits sum.splits)

lemma reply_granted:
  assumes "has (perms (ce_principal e)) P_Generate"
  shows "case reply e session msg atts s of (res, t) \<Rightarrow>
     \<exists>ev L. trail t = trail s @ C_Audit ev # C_Think (compose_prompt session msg atts) # L \<and>
       audits (ce_principal e) P_Generate True ev \<and>
       (case res of
          Inl err \<Rightarrow> w_metrics t = inc_audit_events (w_metrics s) \<and> (L = [] \<or> (\<exists>x. L = [C_Plan x]))
        | Inr (r, session') \<Rightarrow>
            (\<exists>thought plan. L = [C_Plan thought] \<and> cr_content r = ''(assistant) '' @ thought \<and>
               cr_suggestions r = suggestions_of thought plan) \<and>
            session' = push_assistant (cr_content r) (push_user msg session) \<and>
            w_metrics t = inc_llm_calls (inc_audit_events (w_metrics s)))"
proof -
  let ?payload = "JObj [(''user_msg'', JStr msg), (''attachments'', JNum (int (length atts)))]"
  let ?prompt = "compose_prompt session msg atts"
  have ok: "check_permission (ce_principal e) P_Generate = Inr ()" using assms by simp
  obtain ev e' where a: "chat_audit e A_Generate True ?payload s =
      (Inr () :: str + unit, s\<lparr>w_metrics := inc_audit_events (w_metrics s), trail := trail s @ [C_Audit ev], env := e'\<rparr>)"
    "audits (ce_principal e) P_Generate True ev"
    using chat_audit_run [of e P_Generate True ?payload s] by auto
  let ?s = "s\<lparr>w_metrics := inc_audit_events (w_metrics s), trail := trail s @ [C_Audit ev], env := e'\<rparr>"
  obtain q u where ask: "ask_model e ?prompt ?s = (q, u)" by force
  from ask_model_run [OF this] obtain L where tr: "trail u = trail ?s @ C_Think ?prompt # L"
    and q: "case q of Inl err \<Rightarrow> w_metrics u = w_metrics ?s \<and> (L = [] \<or> (\<exists>x. L = [C_Plan x]))
     | Inr (thought, plan) \<Rightarrow> L = [C_Plan thought] \<and> w_metrics u = inc_llm_calls (w_metrics ?s)"
    by blast
  have L: "trail u = trail s @ C_Audit ev # C_Think ?prompt # L"
    "case q of Inl err \<Rightarrow> w_metrics u = inc_audit_events (w_metrics s) \<and> (L = [] \<or> (\<exists>x. L = [C_Plan x]))
     | Inr (thought, plan) \<Rightarrow> L = [C_Plan thought] \<and>
         w_metrics u = inc_llm_calls (inc_audit_events (w_metrics s))"
    using tr q by (cases q; auto)+
  show ?thesis
  proof (cases q)
    case (Inl err)
    with ask a(1) have "reply e session msg atts s = (Inl err, u)" by (simp add: reply_def ok)
    with L a(2) Inl show ?thesis by auto
  next
    case (Inr tp)
    obtain thought plan where tp: "tp = (thought, plan)" by (cases tp)
    with ask a(1) Inr have "reply e session msg atts s =
        (Inr (\<lparr>cr_content = ''(assistant) '' @ thought, cr_suggestions = suggestions_of thought plan\<rparr>,
          push_assistant (''(assistant) '' @ thought) (push_user msg session)), u)"
      by (simp add: reply_def ok Let_def)
    with L a(2) Inr tp show ?thesis by auto
  qed
qed

lemma reply_denied:
  assumes "\<not> has (perms (ce_principal e)) P_Generate"
  shows "case reply e session msg atts s of (res, t) \<Rightarrow>
     \<exists>ev. trail t = trail s @ [C_Audit ev] \<and> audits (ce_principal e) P_Generate False ev \<and>
       res = Inl (display_denied \<lparr>pd_required = P_Generate, pd_mask = perms (ce_principal e)\<rparr>) \<and>
       w_metrics t = inc_audit_events (inc_denials (w_metrics s))"
proof -
  let ?d = "\<lparr>pd_required = P_Generate, pd_mask = perms (ce_principal e)\<rparr>"
  let ?payload = "JObj [(''reason'', JStr (display_denied ?d)), (''user_msg'', JStr msg)]"
  let ?s = "s\<lparr>w_metrics := inc_denials (w_metrics s)\<rparr>"
  have no: "check_permission (ce_principal e) P_Generate = Inl ?d"
    using assms by (simp add: check_permission_Inl)
  obtain ev e' where a: "chat_audit e A_Generate False ?payload ?s =
      (Inr () :: str + unit, ?s\<lparr>w_metrics := inc_audit_events (w_metrics ?s), trail := trail ?s @ [C_Audit ev], env := e'\<rparr>)"
    "audits (ce_principal e) P_Generate False ev"
    using chat_audit_run [of e P_Generate False ?payload ?s] by auto
  have "reply e session msg atts s = (Inl (display_denied ?d),
      ?s\<lparr>w_metrics := inc_audit_events (w_metrics ?s), trail := trail ?s @ [C_Audit ev], env := e'\<rparr>)"
    by (simp add: reply_def no count_metric_def bnd_def a(1))
  with a(2) show ?thesis by auto
qed

text \<open>
  C21: what a reply does: it always writes exactly one audit record, before anything else; without
  Generate that record is a denial, the denial is counted, the model is not asked and no session comes
  back; with Generate the model is asked to think about the composed prompt and, if it answers, to plan
  for its thought, and a reply that succeeds has the thought as its content, suggests a tool exactly when
  the plan named one, counts one model call for the two questions, and gives back the session with the
  user's and the assistant's turn added.  The granted record is thus written although the model may
  still fail, where audit.rs and the README document the record after the execution.
\<close>

theorem reply_effect:
  "case reply e session msg atts s of (res, t) \<Rightarrow>
     \<exists>ev L. trail t = trail s @ C_Audit ev # L \<and>
       audits (ce_principal e) P_Generate (has (perms (ce_principal e)) P_Generate) ev \<and>
       (if has (perms (ce_principal e)) P_Generate then
          (\<exists>L'. L = C_Think (compose_prompt session msg atts) # L' \<and> length L' \<le> 1) \<and>
          (case res of
             Inl err \<Rightarrow> w_metrics t = inc_audit_events (w_metrics s)
           | Inr (r, session') \<Rightarrow>
               (\<exists>thought plan. L = [C_Think (compose_prompt session msg atts), C_Plan thought] \<and>
                  cr_content r = ''(assistant) '' @ thought \<and>
                  cr_suggestions r = suggestions_of thought plan) \<and>
               session' = push_assistant (cr_content r) (push_user msg session) \<and>
               w_metrics t = inc_llm_calls (inc_audit_events (w_metrics s)))
        else L = [] \<and>
          res = Inl (display_denied \<lparr>pd_required = P_Generate, pd_mask = perms (ce_principal e)\<rparr>) \<and>
          w_metrics t = inc_audit_events (inc_denials (w_metrics s)))"
proof (cases "has (perms (ce_principal e)) P_Generate")
  case True
  with reply_granted [OF True, where session = session and msg = msg and atts = atts and s = s] show ?thesis
    by (fastforce split: sum.splits)
next
  case False
  with reply_denied [OF False, where session = session and msg = msg and atts = atts and s = s] show ?thesis by fastforce
qed

section \<open>Streaming\<close>

lemma not_cont_end: "sentence_end b \<Longrightarrow> \<not> is_cont b"
  by (auto simp: sentence_end_def is_cont_def)

lemma chars_snoc: "\<not> is_cont b \<Longrightarrow> chars (s @ [b]) = chars s @ [[b]]"
proof (induction s rule: chars.induct)
  case (2 c bs)
  show ?case
  proof (cases "\<forall>x\<in>set bs. is_cont x")
    case True
    with 2(2) show ?thesis
      by (simp add: takeWhile_append2 dropWhile_append2) (metis takeWhile_eq_all_conv)
  next
    case False
    then have "takeWhile is_cont (bs @ [b]) = takeWhile is_cont bs"
      "dropWhile is_cont (bs @ [b]) = dropWhile is_cont bs @ [b]"
      by (auto simp: takeWhile_append1 dropWhile_append1)
    with 2 show ?thesis by simp
  qed
qed simp

lemma trim_ends: "sentence_end b \<Longrightarrow> trim (s @ [b]) \<noteq> []"
proof
  assume b: "sentence_end b" and "trim (s @ [b]) = []"
  then have "dropWhile is_whitespace (chars (s @ [b])) = []"
    by (metis chars_eq_Nil chars_trim dropWhile_eq_Nil_conv dropWhile_idem rev_is_Nil_conv set_rev)
  moreover have "\<not> is_whitespace [b]"
    using b by (auto simp: sentence_end_def is_whitespace_def white_space_def)
  ultimately show False using not_cont_end [OF b] by (auto simp: chars_snoc dropWhile_append split: if_splits)
qed

lemma stream_chunks_spec:
  "filter sentence_end piece = [] \<Longrightarrow> \<exists>ps tail. piece @ s = concat ps @ tail \<and>
     stream_chunks piece s = ps @ (if trim tail = [] then [] else [trim tail]) \<and>
     filter sentence_end tail = [] \<and>
     list_all (\<lambda>c. c \<noteq> [] \<and> sentence_end (last c) \<and> filter sentence_end (butlast c) = []) ps"
proof (induction piece s rule: stream_chunks.induct)
  case (1 piece)
  then show ?case by (intro exI [of _ "[]"] exI [of _ piece]) simp
next
  case (2 piece b bs)
  show ?case
  proof (cases "sentence_end b")
    case True
    from "2.IH"(1) [OF True] obtain ps tail where "bs = concat ps @ tail"
      "stream_chunks [] bs = ps @ (if trim tail = [] then [] else [trim tail])"
      "filter sentence_end tail = []"
      "list_all (\<lambda>c. c \<noteq> [] \<and> sentence_end (last c) \<and> filter sentence_end (butlast c) = []) ps"
      by auto
    with True "2.prems" trim_ends [OF True, of piece] show ?thesis
      by (intro exI [of _ "(piece @ [b]) # ps"] exI [of _ tail]) simp
  next
    case False
    with "2.IH"(2) [OF False] "2.prems" show ?thesis by simp
  qed
qed

text \<open>
  Streaming loses nothing but the blanks around the last fragment: the chunks are the text
  cut directly after every full stop, question and exclamation mark, in order, each with exactly one
  of these at its end, and what follows the last of them comes trimmed, or not at all when blank.
\<close>

theorem reply_stream_spec:
  "\<exists>ps tail. full = concat ps @ tail \<and>
     reply_stream full = ps @ (if trim tail = [] then [] else [trim tail]) \<and>
     filter sentence_end tail = [] \<and>
     list_all (\<lambda>c. c \<noteq> [] \<and> sentence_end (last c) \<and> filter sentence_end (butlast c) = []) ps"
  using stream_chunks_spec [of "[]" full] by (simp add: reply_stream_def)

end
