(* ===== verification/Agent.thy ===== *)
theory Agent
  imports Chat Auth Config Probe
begin

text \<open>
  The gRPC service of the Core (crates/core/src/agent.rs): every handler authenticates its caller,
  checks the permission of its action, and runs the completion client, the planner or the chat
  engine as that caller.  The transport (tonic) is not modelled: a request is the value of its
  \<open>authorization\<close> header and its message, a response the list of the messages streamed back.
\<close>

section \<open>The server\<close>

text \<open>What the handlers take from libraries: header values as text, tokens, clocks.\<close>

record 'w agent_lib =
  al_header_str :: "str \<Rightarrow> str option"        \<comment> \<open>\<open>MetadataValue::to_str\<close>\<close>
  al_jwt :: jwt_lib
  al_unix_time :: "'w \<Rightarrow> 64 word option"
  al_instant :: "'w \<Rightarrow> rat"                  \<comment> \<open>the monotonic clock, in milliseconds\<close>
  al_clock :: "'w \<Rightarrow> int"

text \<open>
  The state behind the server's \<open>Arc\<close>s: the world, the cache of the completion client, the chat
  sessions, and the audit records whose tasks are spawned and have not run yet.
\<close>

record 'w agent_state =
  ag_world :: "'w world"
  ag_cache :: completion_cache
  ag_sessions :: "str \<Rightarrow> chat_session option"
  ag_spawned :: "audit_event list"

type_synonym 'w completer =
  "str \<Rightarrow> str \<Rightarrow> str \<Rightarrow> ('w \<times> completion_cache, str, candidate list) eff"

record 'w agent_server =
  as_planner :: "'w planner"
  as_nes :: "'w completer"
  as_chat :: "'w chat_engine"
  as_authenticator :: authenticator
  as_principal :: principal
  as_sink :: "audit_event \<Rightarrow> ('w, str, unit) eff"

datatype grpc_code = GC_Unauthenticated | GC_Permission_Denied | GC_Internal

record grpc_status =
  gs_code :: grpc_code
  gs_message :: str

type_synonym ('w, 'a) rpc_run = "('w agent_state, grpc_status, 'a) eff"

definition in_world :: "('w, 'e, 'a) run \<Rightarrow> ('w agent_state, 'e, 'a) eff" where
  "in_world m = (\<lambda>s. case m (ag_world s) of (r, w) \<Rightarrow> (r, s\<lparr>ag_world := w\<rparr>))"

text \<open>\<open>map_err(|e| Status::internal(e.to_string()))?\<close>\<close>

definition internal :: "('s, str, 'a) eff \<Rightarrow> ('s, grpc_status, 'a) eff" where
  "internal m = handle m (\<lambda>e. throw \<lparr>gs_code = GC_Internal, gs_message = e\<rparr>) ret"

primrec display_auth_error :: "auth_error \<Rightarrow> str" where
  "display_auth_error (Unauthorized e) = ''unauthorized: '' @ e"

definition principal_from_request ::
  "'w agent_lib \<Rightarrow> 'w agent_server \<Rightarrow> str option \<Rightarrow> ('w, principal) rpc_run" where
  "principal_from_request L sv authorization =
     (let token = extract_bearer (Option.bind authorization (al_header_str L)) in
      bnd (gets (\<lambda>s. al_unix_time L (env (ag_world s)))) (\<lambda>now.
      case authenticate (al_jwt L) now (as_authenticator sv) token of
        Inr p \<Rightarrow> ret p
      | Inl e \<Rightarrow> bnd (in_world (count_metric inc_denials)) (\<lambda>_.
          throw \<lparr>gs_code = GC_Unauthenticated, gs_message = display_auth_error e\<rparr>)))"

text \<open>The record is counted at once and written by a task of its own.\<close>

definition agent_audit ::
  "'w agent_lib \<Rightarrow> principal \<Rightarrow> audit_action \<Rightarrow> bool \<Rightarrow> json \<Rightarrow> ('w agent_state, 'e, unit) eff" where
  "agent_audit L pr action g payload =
     bnd (gets (\<lambda>s. audit_event_new (al_clock L (env (ag_world s))) pr action g payload)) (\<lambda>ev.
     bnd (in_world (count_metric inc_audit_events)) (\<lambda>_.
     bnd (in_world (mark (C_Audit ev))) (\<lambda>_.
     modify (\<lambda>s. s\<lparr>ag_spawned := ag_spawned s @ [ev]\<rparr>))))"

text \<open>The spawned tasks run in any order: here the one at position \<open>i\<close>.\<close>

definition deliver :: "'w agent_server \<Rightarrow> nat \<Rightarrow> 'w agent_state \<Rightarrow> 'w agent_state" where
  "deliver sv i s =
     (if i < length (ag_spawned s)
      then s\<lparr>ag_world := snd (external (as_sink sv (ag_spawned s ! i)) (ag_world s)),
             ag_spawned := take i (ag_spawned s) @ drop (Suc i) (ag_spawned s)\<rparr>
      else s)"

text \<open>The check every privileged handler makes after authentication.\<close>

definition require_action ::
  "'w agent_lib \<Rightarrow> principal \<Rightarrow> permission \<Rightarrow> audit_action \<Rightarrow> ('w, unit) rpc_run" where
  "require_action L pr p action =
     (case check_permission pr p of
        Inr _ \<Rightarrow> ret ()
      | Inl e \<Rightarrow>
          bnd (in_world (count_metric inc_denials)) (\<lambda>_.
          bnd (agent_audit L pr action False (JObj [(''reason'', JStr (display_denied e))])) (\<lambda>_.
          throw \<lparr>gs_code = GC_Permission_Denied, gs_message = display_denied e\<rparr>)))"

section \<open>The handlers\<close>

record pong =
  po_version :: str
  po_uptime_ms :: int

definition ping :: "('w, pong) rpc_run" where
  "ping = bnd (in_world (count_metric inc_requests)) (\<lambda>_.
     ret \<lparr>po_version = ''1.0.0'', po_uptime_ms = 0\<rparr>)"

record nes_suggestion =
  ns_text :: str
  ns_confidence :: rat
  ns_latency_ms :: int

definition ask_backend :: "'w agent_server \<Rightarrow> str \<Rightarrow> str \<Rightarrow> str \<Rightarrow> ('w agent_state, str, candidate list) eff" where
  "ask_backend sv p sfx l = (\<lambda>s. case as_nes sv p sfx l (env (ag_world s), ag_cache s) of
     (r, (e, c)) \<Rightarrow> (r, s\<lparr>ag_world := (ag_world s)\<lparr>env := e\<rparr>, ag_cache := c\<rparr>))"

definition agent_nes_complete ::
  "'w agent_lib \<Rightarrow> 'w agent_server \<Rightarrow> str option \<Rightarrow> str \<Rightarrow> str \<Rightarrow> str \<Rightarrow> ('w, nes_suggestion list) rpc_run" where
  "agent_nes_complete L sv authorization p sfx l =
     bnd (in_world (count_metric inc_requests)) (\<lambda>_.
     bnd (principal_from_request L sv authorization) (\<lambda>pr.
     bnd (require_action L pr P_Generate A_Generate) (\<lambda>_.
     bnd (gets (\<lambda>s. al_instant L (env (ag_world s)))) (\<lambda>t0.
     bnd (internal (ask_backend sv p sfx l)) (\<lambda>candidates.
     let ranked = rank_completions candidates 5 in
     bnd (gets (\<lambda>s. al_instant L (env (ag_world s)) - t0)) (\<lambda>latency.
     bnd (in_world (count_metric inc_completions)) (\<lambda>_.
     bnd (in_world (count_metric (observe_completion latency))) (\<lambda>_.
     bnd (agent_audit L pr A_Generate True
            (JObj [(''candidates'', JNum (int (length ranked))), (''latency_ms'', JReal latency)])) (\<lambda>_.
     ret (map (\<lambda>c. \<lparr>ns_text = ci_text c, ns_confidence = ci_score c, ns_latency_ms = 0\<rparr>) ranked))))))))))"

record agent_event =
  ae_kind :: str
  ae_payload :: str
  ae_ts_ms :: int

definition step_event :: "step \<Rightarrow> agent_event" where
  "step_event st = \<lparr>ae_kind = ''step'', ae_payload = ''thought='' @ st_thought st @ '' action='' @
     st_action st @ '' obs='' @ st_observation st, ae_ts_ms = 0\<rparr>"

definition run_agent ::
  "'w agent_lib \<Rightarrow> 'w agent_server \<Rightarrow> str option \<Rightarrow> str \<Rightarrow> ('w, agent_event list) rpc_run" where
  "run_agent L sv authorization goal =
     bnd (in_world (count_metric inc_requests)) (\<lambda>_.
     bnd (principal_from_request L sv authorization) (\<lambda>pr.
     bnd (require_action L pr P_Execute A_Execute) (\<lambda>_.
     let per_request = planner_with_governance pr (as_sink sv) (as_planner sv) in
     bnd (internal (in_world (planner_run per_request goal))) (\<lambda>trace.
     bnd (agent_audit L pr A_Execute True
            (JObj [(''goal'', JStr goal), (''steps'', JNum (int (length (steps trace))))])) (\<lambda>_.
     ret (map step_event (steps trace)))))))"

record chat_message =
  cm_role :: str
  cm_content :: str

definition suggestion_line :: "tool_suggestion \<Rightarrow> str" where
  "suggestion_line s = ''- '' @ ts_tool s @ '' ('' @ ts_argument s @ ''): '' @ ts_rationale s @ [CHR 0x0A]"

definition chat_messages :: "chat_reply \<Rightarrow> chat_message list" where
  "chat_messages r =
     map (\<lambda>c. \<lparr>cm_role = ''assistant'', cm_content = c\<rparr>) (reply_stream (cr_content r)) @
     (if cr_suggestions r = [] then []
      else [\<lparr>cm_role = ''system'', cm_content = ''suggested tools:'' @ [CHR 0x0A] @
              concat (map suggestion_line (cr_suggestions r))\<rparr>])"

text \<open>\<open>sessions.entry(id).or_insert_with(..)\<close>, then the reply on the entry in place.\<close>

definition open_session :: "str \<Rightarrow> ('w agent_state, 'e, chat_session) eff" where
  "open_session i = bnd (modify (\<lambda>s. s\<lparr>ag_sessions := (case ag_sessions s i of
        None \<Rightarrow> (ag_sessions s)(i \<mapsto> chat_session_new 2048 64) | Some _ \<Rightarrow> ag_sessions s)\<rparr>)) (\<lambda>_.
     gets (\<lambda>s. the (ag_sessions s i)))"

definition chat ::
  "'w agent_lib \<Rightarrow> 'w agent_server \<Rightarrow> str option \<Rightarrow> str \<Rightarrow> str \<Rightarrow> str list \<Rightarrow> ('w, chat_message list) rpc_run" where
  "chat L sv authorization session_id message attachments =
     bnd (in_world (count_metric inc_requests)) (\<lambda>_.
     bnd (principal_from_request L sv authorization) (\<lambda>pr.
     bnd (require_action L pr P_Generate A_Generate) (\<lambda>_.
     bnd (open_session session_id) (\<lambda>session.
     let engine = chat_with_governance pr (as_sink sv) (as_chat sv) in
     bnd (internal (in_world (reply engine session message (parse_attachments attachments))))
       (\<lambda>(r, session').
     bnd (modify (\<lambda>s. s\<lparr>ag_sessions := (ag_sessions s)(session_id \<mapsto> session')\<rparr>)) (\<lambda>_.
     bnd (agent_audit L pr A_Generate True
            (JObj [(''attachments'', JNum (int (length attachments)))])) (\<lambda>_.
     ret (chat_messages r))))))))"

section \<open>Quests of the server\<close>

definition server_quest :: "'w agent_lib \<Rightarrow> 'w agent_server \<Rightarrow> 'w executor \<Rightarrow> quest_config \<Rightarrow> 'w quest" where
  "server_quest L sv tools cfg =
     quest_with_governance (as_principal sv) (as_sink sv)
       (quest_new (llm_decompose (pl_llm (as_planner sv))) (pl_llm (as_planner sv)) tools
          (pl_validator (as_planner sv)) (pl_host (as_planner sv)) cfg (al_clock L))"

definition run_quest ::
  "'w agent_lib \<Rightarrow> 'w agent_server \<Rightarrow> str \<Rightarrow> quest_config \<Rightarrow> ('w, str, quest_report) run" where
  "run_quest L sv goal cfg = quest_run (server_quest L sv (pl_tools (as_planner sv)) cfg) goal"

definition run_quest_with_engineering ::
  "'w agent_lib \<Rightarrow> 'w spawner \<Rightarrow> 'w agent_server \<Rightarrow> str \<Rightarrow> quest_config \<Rightarrow> ('w, str, quest_report) run" where
  "run_quest_with_engineering L sp sv goal cfg =
     quest_run (server_quest L sv (shell_tool_run sp ''.'') cfg) goal"

section \<open>Building the server\<close>

text \<open>The HTTP endpoints the backends post to.\<close>

record 'w agent_http =
  ah_ollama_chat :: "chat_request \<Rightarrow> ('w, http_error, str) eff"
  ah_openai_chat :: "chat_request \<Rightarrow> ('w, http_error, str list) eff"
  ah_generate :: "'w http_post"

definition build_llm :: "'w agent_http \<Rightarrow> core_config \<Rightarrow> 'w llm" where
  "build_llm H cfg = (case cf_llm_backend cfg of
       Llm_Ollama \<Rightarrow> ollama_llm (ah_ollama_chat H) (cf_model_endpoint cfg) (cf_model_name cfg)
     | Llm_OpenAi \<Rightarrow> openai_llm (ah_openai_chat H) (cf_llm_base_url cfg) (cf_llm_api_key cfg) (cf_llm_model cfg)
     | Llm_Local \<Rightarrow> openai_llm (ah_openai_chat H) (cf_llm_base_url cfg) (cf_llm_api_key cfg) (cf_llm_model cfg)
     | Llm_Mock \<Rightarrow> mock_llm)"

definition nes_config :: "core_config \<Rightarrow> ollama_config" where
  "nes_config cfg = ollama_config_default\<lparr>oc_endpoint := cf_model_endpoint cfg, oc_model := cf_model_name cfg\<rparr>"

definition without_cache :: "(str \<Rightarrow> str \<Rightarrow> str \<Rightarrow> ('w, str, candidate list) eff) \<Rightarrow> 'w completer" where
  "without_cache f p sfx l = (\<lambda>(w, c). case f p sfx l w of (r, w') \<Rightarrow> (r, (w', c)))"

definition default_nes_backend :: "'w agent_http \<Rightarrow> core_config \<Rightarrow> 'w completer" where
  "default_nes_backend H cfg = (case cf_nes_backend cfg of
       Nes_Ollama \<Rightarrow> (\<lambda>p sfx l (w, c).
         case Probe.nes_complete (ah_generate H) (nes_config cfg) p sfx l
                (\<lparr>pb_env = w, pb_requests = [], pb_sleeps = []\<rparr>, c) of
           (r, (s, c')) \<Rightarrow> (r, (pb_env s, c')))
     | Nes_OpenAi \<Rightarrow> without_cache (openai_complete (ah_openai_chat H) (cf_llm_base_url cfg)
         (cf_llm_api_key cfg) (cf_llm_model cfg))
     | Nes_Local \<Rightarrow> without_cache (openai_complete (ah_openai_chat H) (cf_llm_base_url cfg)
         (cf_llm_api_key cfg) (cf_llm_model cfg))
     | Nes_Mock \<Rightarrow> without_cache (\<lambda>p sfx l. ret (derive_rule_candidates p sfx l)))"

text \<open>\<open>connect\<close> is what \<open>PgAuditSink::connect\<close> gives for the database and the tenant.\<close>

definition from_config ::
  "'w agent_lib \<Rightarrow> 'w agent_http \<Rightarrow> (str \<Rightarrow> str \<Rightarrow> str + (audit_event \<Rightarrow> ('w, str, unit) eff)) \<Rightarrow>
   'w host_provider \<Rightarrow> core_config \<Rightarrow> 'w agent_server" where
  "from_config L H connect host cfg =
     (let pr = config_principal cfg;
          authn = (if cf_sso_enabled cfg
                   then Hs256_Authenticator (cf_sso_secret cfg) (cf_sso_issuer cfg) (cf_sso_client_id cfg)
                   else Noop_Authenticator pr);
          sink = (case connect (cf_database_url cfg) (cf_tenant_id cfg) of
                    Inr s \<Rightarrow> s | Inl _ \<Rightarrow> (\<lambda>_. ret ()));
          llm = build_llm H cfg
      in \<lparr>as_planner = planner_with_governance pr sink
            (planner_new llm basic_run (basic_validate (cf_quest_max_steps cfg)) host 8 (al_clock L)),
          as_nes = default_nes_backend H cfg,
          as_chat = chat_with_governance pr sink (chat_engine_new llm ps_all (al_clock L)),
          as_authenticator = authn, as_principal = pr, as_sink = sink\<rparr>)"

definition default_stack :: "'w agent_lib \<Rightarrow> 'w host_provider \<Rightarrow> 'w agent_server" where
  "default_stack L host =
     (let pr = principal_all ''single'' ''core''; sink = (\<lambda>_. ret ());
          planner = planner_with_governance pr sink (planner_with_defaults host 8 (al_clock L))
      in \<lparr>as_planner = planner,
          as_nes = without_cache (\<lambda>p sfx l. ret (derive_rule_candidates p sfx l)),
          as_chat = chat_with_governance pr sink (chat_engine_new (pl_llm planner) ps_all (al_clock L)),
          as_authenticator = Noop_Authenticator pr, as_principal = pr, as_sink = sink\<rparr>)"

definition agent_state_new :: "core_config \<Rightarrow> 'w \<Rightarrow> 'w agent_state" where
  "agent_state_new cfg w = \<lparr>ag_world = world0 w, ag_cache = nes_new (nes_config cfg),
     ag_sessions = (\<lambda>_. None), ag_spawned = []\<rparr>"

section \<open>What every handler does first\<close>

lemma in_world_app [eff_simps]:
  "in_world m s = (case m (ag_world s) of (r, w) \<Rightarrow> (r, s\<lparr>ag_world := w\<rparr>))"
  by (simp add: in_world_def)

text \<open>Who a request comes from, at the time it is handled.\<close>

definition caller ::
  "'w agent_lib \<Rightarrow> 'w agent_server \<Rightarrow> str option \<Rightarrow> 'w agent_state \<Rightarrow> auth_error + principal" where
  "caller L sv authorization s =
     authenticate (al_jwt L) (al_unix_time L (env (ag_world s))) (as_authenticator sv)
       (extract_bearer (Option.bind authorization (al_header_str L)))"

definition count :: "(metrics \<Rightarrow> metrics) \<Rightarrow> 'w agent_state \<Rightarrow> 'w agent_state" where
  "count f s = s\<lparr>ag_world := (ag_world s)\<lparr>w_metrics := f (w_metrics (ag_world s))\<rparr>\<rparr>"

lemma in_world_count [simp]: "in_world (count_metric f) s = (Inr (), count f s)"
  by (simp add: in_world_def count_metric_app count_def)

lemma count_fields [simp]:
  "env (ag_world (count f s)) = env (ag_world s)" "trail (ag_world (count f s)) = trail (ag_world s)"
  "w_metrics (ag_world (count f s)) = f (w_metrics (ag_world s))"
  "ag_sessions (count f s) = ag_sessions s" "ag_spawned (count f s) = ag_spawned s"
  "ag_cache (count f s) = ag_cache s"
  by (simp_all add: count_def)

lemma caller_count [simp]: "caller L sv h (count f s) = caller L sv h s"
  by (simp add: caller_def)

lemma principal_from_request_run:
  "principal_from_request L sv h s = (case caller L sv h s of
     Inr p \<Rightarrow> (Inr p, s)
   | Inl e \<Rightarrow> (Inl \<lparr>gs_code = GC_Unauthenticated, gs_message = display_auth_error e\<rparr>, count inc_denials s))"
  by (auto simp: principal_from_request_def caller_def Let_def eff_simps count_def split: sum.split)

definition audited :: "audit_event \<Rightarrow> 'w agent_state \<Rightarrow> 'w agent_state" where
  "audited ev s = s\<lparr>ag_world := (ag_world s)\<lparr>w_metrics := inc_audit_events (w_metrics (ag_world s)),
     trail := trail (ag_world s) @ [C_Audit ev]\<rparr>, ag_spawned := ag_spawned s @ [ev]\<rparr>"

lemma audited_fields [simp]:
  "trail (ag_world (audited ev s)) = trail (ag_world s) @ [C_Audit ev]"
  "w_metrics (ag_world (audited ev s)) = inc_audit_events (w_metrics (ag_world s))"
  "ag_spawned (audited ev s) = ag_spawned s @ [ev]" "ag_sessions (audited ev s) = ag_sessions s"
  "ag_cache (audited ev s) = ag_cache s" "env (ag_world (audited ev s)) = env (ag_world s)"
  by (simp_all add: audited_def)

lemma agent_audit_run:
  obtains ev where "agent_audit L pr (from_permission p) g payload s = (Inr () :: 'e + unit, audited ev s)"
    "audits pr p g ev" "ev_payload ev = payload"
proof
  let ?ev = "audit_event_new (al_clock L (env (ag_world s))) pr (from_permission p) g payload"
  show "agent_audit L pr (from_permission p) g payload s = (Inr (), audited ?ev s)"
    by (simp add: agent_audit_def eff_simps audited_def)
qed (simp_all add: audits_def audit_event_new_def)

definition guarded ::
  "'w agent_lib \<Rightarrow> 'w agent_server \<Rightarrow> str option \<Rightarrow> permission \<Rightarrow> (principal \<Rightarrow> ('w, 'a) rpc_run) \<Rightarrow> ('w, 'a) rpc_run"
where
  "guarded L sv h p body =
     bnd (in_world (count_metric inc_requests)) (\<lambda>_.
     bnd (principal_from_request L sv h) (\<lambda>pr.
     bnd (require_action L pr p (from_permission p)) (\<lambda>_. body pr)))"

lemma guarded_cases:
  assumes "guarded L sv h p body s = (res, t)"
  obtains (unauthenticated) e where "caller L sv h s = Inl e"
      "res = Inl \<lparr>gs_code = GC_Unauthenticated, gs_message = display_auth_error e\<rparr>"
      "t = count inc_denials (count inc_requests s)"
  | (denied) pr ev where "caller L sv h s = Inr pr" "\<not> has (perms pr) p" "audits pr p False ev"
      "res = Inl \<lparr>gs_code = GC_Permission_Denied,
         gs_message = display_denied \<lparr>pd_required = p, pd_mask = perms pr\<rparr>\<rparr>"
      "t = audited ev (count inc_denials (count inc_requests s))"
  | (admitted) pr where "caller L sv h s = Inr pr" "has (perms pr) p"
      "body pr (count inc_requests s) = (res, t)"
proof (cases "caller L sv h s")
  case (Inl e)
  with assms show thesis
    by (intro unauthenticated [OF Inl]) (auto simp: guarded_def principal_from_request_run bnd_def)
next
  case (Inr pr)
  show thesis
  proof (cases "has (perms pr) p")
    case True
    with assms Inr show thesis
      by (intro admitted [OF Inr]) (auto simp: guarded_def principal_from_request_run bnd_def
          require_action_def check_permission_def require_def)
  next
    case False
    let ?d = "\<lparr>pd_required = p, pd_mask = perms pr\<rparr>"
    obtain ev where a: "audits pr p False ev"
      "agent_audit L pr (from_permission p) False (JObj [(''reason'', JStr (display_denied ?d))])
         (count inc_denials (count inc_requests s)) =
       (Inr () :: grpc_status + unit, audited ev (count inc_denials (count inc_requests s)))"
      using agent_audit_run [of L pr p False "JObj [(''reason'', JStr (display_denied ?d))]"
          "count inc_denials (count inc_requests s)"] by blast
    from assms Inr False a show thesis
      by (intro denied [OF Inr False a(1)]) (auto simp: guarded_def principal_from_request_run bnd_def
          require_action_def check_permission_def require_def)
  qed
qed

lemma handlers_guarded:
  "agent_nes_complete L sv h p sfx l = guarded L sv h P_Generate (\<lambda>pr.
     bnd (gets (\<lambda>s. al_instant L (env (ag_world s)))) (\<lambda>t0.
     bnd (internal (ask_backend sv p sfx l)) (\<lambda>candidates.
     let ranked = rank_completions candidates 5 in
     bnd (gets (\<lambda>s. al_instant L (env (ag_world s)) - t0)) (\<lambda>latency.
     bnd (in_world (count_metric inc_completions)) (\<lambda>_.
     bnd (in_world (count_metric (observe_completion latency))) (\<lambda>_.
     bnd (agent_audit L pr A_Generate True
            (JObj [(''candidates'', JNum (int (length ranked))), (''latency_ms'', JReal latency)])) (\<lambda>_.
     ret (map (\<lambda>c. \<lparr>ns_text = ci_text c, ns_confidence = ci_score c, ns_latency_ms = 0\<rparr>) ranked))))))))"
  "run_agent L sv h goal = guarded L sv h P_Execute (\<lambda>pr.
     let per_request = planner_with_governance pr (as_sink sv) (as_planner sv) in
     bnd (internal (in_world (planner_run per_request goal))) (\<lambda>trace.
     bnd (agent_audit L pr A_Execute True
            (JObj [(''goal'', JStr goal), (''steps'', JNum (int (length (steps trace))))])) (\<lambda>_.
     ret (map step_event (steps trace)))))"
  "chat L sv h i m atts = guarded L sv h P_Generate (\<lambda>pr.
     bnd (open_session i) (\<lambda>session.
     let engine = chat_with_governance pr (as_sink sv) (as_chat sv) in
     bnd (internal (in_world (reply engine session m (parse_attachments atts)))) (\<lambda>(r, session').
     bnd (modify (\<lambda>s. s\<lparr>ag_sessions := (ag_sessions s)(i \<mapsto> session')\<rparr>)) (\<lambda>_.
     bnd (agent_audit L pr A_Generate True
            (JObj [(''attachments'', JNum (int (length atts)))])) (\<lambda>_.
     ret (chat_messages r))))))"
  by (simp_all add: guarded_def agent_nes_complete_def run_agent_def chat_def)

lemma internal_run:
  "internal m s = (case m s of (Inl e, t) \<Rightarrow> (Inl \<lparr>gs_code = GC_Internal, gs_message = e\<rparr>, t)
     | (Inr x, t) \<Rightarrow> (Inr x, t))"
  by (auto simp: internal_def handle_app split: prod.splits sum.splits)

section \<open>Agent runs\<close>

definition unauthenticated :: "auth_error \<Rightarrow> grpc_status" where
  "unauthenticated e = \<lparr>gs_code = GC_Unauthenticated, gs_message = display_auth_error e\<rparr>"

definition refused :: "principal \<Rightarrow> permission \<Rightarrow> grpc_status" where
  "refused pr p = \<lparr>gs_code = GC_Permission_Denied,
     gs_message = display_denied \<lparr>pd_required = p, pd_mask = perms pr\<rparr>\<rparr>"

lemma run_agent_admitted:
  assumes run: "run_agent L sv h goal s = (res, t)"
    and pr: "caller L sv h s = Inr pr" "has (perms pr) P_Execute"
  obtains pl q w where "pl = planner_with_governance pr (as_sink sv) (as_planner sv)"
      "planner_run pl goal (ag_world (count inc_requests s)) = (q, w)"
      "ag_sessions t = ag_sessions s"
      "case q of
         Inl e \<Rightarrow> res = Inl \<lparr>gs_code = GC_Internal, gs_message = e\<rparr> \<and> t = (count inc_requests s)\<lparr>ag_world := w\<rparr>
       | Inr tr \<Rightarrow> \<exists>ev. audits pr P_Execute True ev \<and> res = Inr (map step_event (steps tr)) \<and>
           t = audited ev ((count inc_requests s)\<lparr>ag_world := w\<rparr>)"
proof -
  let ?pl = "planner_with_governance pr (as_sink sv) (as_planner sv)"
  obtain q w where q: "planner_run ?pl goal (ag_world (count inc_requests s)) = (q, w)" by force
  let ?s = "(count inc_requests s)\<lparr>ag_world := w\<rparr>"
  from run [unfolded handlers_guarded(2)] pr have body:
    "bnd (internal (in_world (planner_run ?pl goal))) (\<lambda>trace.
     bnd (agent_audit L pr A_Execute True
            (JObj [(''goal'', JStr goal), (''steps'', JNum (int (length (steps trace))))])) (\<lambda>_.
     ret (map step_event (steps trace)))) (count inc_requests s) = (res, t)"
    by (cases rule: guarded_cases) (auto simp: Let_def)
  show thesis
  proof (cases q)
    case (Inl e)
    with body q have "res = Inl \<lparr>gs_code = GC_Internal, gs_message = e\<rparr>" "t = ?s"
      by (auto simp: bnd_app internal_run in_world_app)
    with q Inl show thesis by (intro that [OF refl q]) simp_all
  next
    case (Inr tr)
    let ?p = "JObj [(''goal'', JStr goal), (''steps'', JNum (int (length (steps tr))))]"
    obtain ev where ev: "agent_audit L pr A_Execute True ?p ?s = (Inr () :: grpc_status + unit, audited ev ?s)"
      "audits pr P_Execute True ev"
      using agent_audit_run [of L pr P_Execute True ?p ?s] by auto
    with body q Inr have "res = Inr (map step_event (steps tr))" "t = audited ev ?s"
      by (auto simp: bnd_app internal_run in_world_app)
    with q Inr ev show thesis by (intro that [OF refl q]) auto
  qed
qed

lemma executor_governed [simp]:
  "pl_tools (planner_with_governance pr sink pl) = pl_tools pl"
  "pl_principal (planner_with_governance pr sink pl) = pr"
  by (simp_all add: planner_with_governance_def)

text \<open>
  C10: an agent run acts with the rights of its caller and of nobody else: a request that does not
  authenticate does nothing but count, one without Execute leaves a single denial record, and in
  one that is let in every privileged tool the planner runs is permitted by the caller's own mask
  and comes directly after the audit record of that action in the caller's name; a run that ends well
  is followed by a granted Execute record.  No run touches a chat session.
\<close>

theorem run_agent_guarded:
  assumes "tool_executor (pl_tools (as_planner sv))" and "run_agent L sv h goal s = (res, t)"
  shows "\<exists>K. trail (ag_world t) = trail (ag_world s) @ K \<and> ag_sessions t = ag_sessions s \<and>
    (case caller L sv h s of
       Inl e \<Rightarrow> K = [] \<and> res = Inl (unauthenticated e)
     | Inr pr \<Rightarrow>
         if has (perms pr) P_Execute then
           cleared pr K \<and>
           (case res of
              Inl st \<Rightarrow> gs_code st = GC_Internal
            | Inr evs \<Rightarrow> \<exists>K' ev. K = K' @ [C_Audit ev] \<and> audits pr P_Execute True ev)
         else res = Inl (refused pr P_Execute) \<and> (\<exists>ev. K = [C_Audit ev] \<and> audits pr P_Execute False ev))"
proof (cases rule: guarded_cases [OF assms(2) [unfolded handlers_guarded(2)]])
  case (1 e)
  then show ?thesis by (auto simp: unauthenticated_def)
next
  case (2 pr ev)
  then show ?thesis by (auto simp: refused_def)
next
  case (3 pr)
  obtain pl q w where pl: "pl = planner_with_governance pr (as_sink sv) (as_planner sv)"
      and run: "planner_run pl goal (ag_world (count inc_requests s)) = (q, w)"
      and ses: "ag_sessions t = ag_sessions s"
      and q: "case q of
         Inl e \<Rightarrow> res = Inl \<lparr>gs_code = GC_Internal, gs_message = e\<rparr> \<and> t = (count inc_requests s)\<lparr>ag_world := w\<rparr>
       | Inr tr \<Rightarrow> \<exists>ev. audits pr P_Execute True ev \<and> res = Inr (map step_event (steps tr)) \<and>
           t = audited ev ((count inc_requests s)\<lparr>ag_world := w\<rparr>)"
    by (rule run_agent_admitted [OF assms(2) 3(1,2)])
  have "logs (cleared (pl_principal pl)) (ag_world (count inc_requests s)) w"
    by (rule rel_effD [OF logs_planner(1) run]) (simp add: pl assms(1))
  then obtain K where K: "trail w = trail (ag_world s) @ K" "cleared pr K"
    by (auto simp: logs_def pl)
  show ?thesis
  proof (cases q)
    case (Inl e)
    with K q ses 3 show ?thesis by (intro exI [of _ K]) simp
  next
    case (Inr tr)
    with q obtain ev where ev: "audits pr P_Execute True ev" "res = Inr (map step_event (steps tr))"
      "t = audited ev ((count inc_requests s)\<lparr>ag_world := w\<rparr>)" by auto
    have "cleared pr (K @ [C_Audit ev])"
      by (intro cleared.Q_append K cleared_plain) (simp add: is_tool_def is_edit_def)
    with K ev ses 3 show ?thesis by (intro exI [of _ "K @ [C_Audit ev]"]) simp
  qed
qed

section \<open>Chats\<close>

text \<open>The session a chat works on.\<close>

definition session_of :: "str \<Rightarrow> 'w agent_state \<Rightarrow> chat_session" where
  "session_of i s = (case ag_sessions s i of None \<Rightarrow> chat_session_new 2048 64 | Some c \<Rightarrow> c)"

definition opened :: "str \<Rightarrow> 'w agent_state \<Rightarrow> 'w agent_state" where
  "opened i s = s\<lparr>ag_sessions := (ag_sessions s)(i \<mapsto> session_of i s)\<rparr>"

lemma open_session_run: "open_session i s = (Inr (session_of i s), opened i s)"
  by (auto simp: open_session_def eff_simps opened_def session_of_def fun_upd_idem split: option.split)

lemma opened_fields [simp]:
  "ag_world (opened i s) = ag_world s" "ag_spawned (opened i s) = ag_spawned s"
  "ag_sessions (opened i s) = (ag_sessions s)(i \<mapsto> session_of i s)"
  by (simp_all add: opened_def)

lemma session_of_count [simp]: "session_of i (count f s) = session_of i s"
  by (simp add: session_of_def)

lemma principal_governed [simp]: "ce_principal (chat_with_governance pr sink e) = pr"
  by (simp add: chat_with_governance_def)

text \<open>
  A chat that is let in: the engine writes its own Generate record before it asks the model, and a
  reply that succeeds is audited a second time by the handler.
\<close>

lemma chat_admitted:
  assumes run: "chat L sv h i m atts s = (res, t)"
    and pr: "caller L sv h s = Inr pr" "has (perms pr) P_Generate"
  obtains (failed) e ev K w where "res = Inl \<lparr>gs_code = GC_Internal, gs_message = e\<rparr>"
      "audits pr P_Generate True ev" "K = [] \<or> (\<exists>x. K = [C_Plan x])"
      "t = (opened i (count inc_requests s))\<lparr>ag_world := w\<rparr>"
      "trail w = trail (ag_world s) @ C_Audit ev #
         C_Think (compose_prompt (session_of i s) m (parse_attachments atts)) # K"
      "w_metrics w = inc_audit_events (inc_requests (w_metrics (ag_world s)))"
  | (answered) r ev ev' thought plan w session' where "res = Inr (chat_messages r)"
      "audits pr P_Generate True ev" "audits pr P_Generate True ev'"
      "cr_content r = ''(assistant) '' @ thought" "cr_suggestions r = suggestions_of thought plan"
      "session' = push_assistant (cr_content r) (push_user m (session_of i s))"
      "t = audited ev' ((opened i (count inc_requests s))\<lparr>ag_world := w,
         ag_sessions := (ag_sessions s)(i \<mapsto> session')\<rparr>)"
      "trail w = trail (ag_world s) @ [C_Audit ev,
         C_Think (compose_prompt (session_of i s) m (parse_attachments atts)), C_Plan thought]"
      "w_metrics w = inc_llm_calls (inc_audit_events (inc_requests (w_metrics (ag_world s))))"
proof -
  let ?e = "chat_with_governance pr (as_sink sv) (as_chat sv)"
  let ?atts = "parse_attachments atts" and ?s = "opened i (count inc_requests s)"
  obtain q w where q: "reply ?e (session_of i s) m ?atts (ag_world ?s) = (q, w)" by force
  from run [unfolded handlers_guarded(3)] pr have body:
    "bnd (open_session i) (\<lambda>session.
     bnd (internal (in_world (reply ?e session m ?atts))) (\<lambda>(r, session').
     bnd (modify (\<lambda>s. s\<lparr>ag_sessions := (ag_sessions s)(i \<mapsto> session')\<rparr>)) (\<lambda>_.
     bnd (agent_audit L pr A_Generate True
            (JObj [(''attachments'', JNum (int (length atts)))])) (\<lambda>_.
     ret (chat_messages r))))) (count inc_requests s) = (res, t)"
    by (cases rule: guarded_cases) (auto simp: Let_def)
  have gen: "has (perms (ce_principal ?e)) P_Generate" using pr by simp
  from reply_granted [OF gen, where session = "session_of i s" and msg = m and atts = ?atts and s = "ag_world ?s"] q
  obtain ev K where K: "trail w = trail (ag_world s) @ C_Audit ev # C_Think (compose_prompt (session_of i s) m ?atts) # K"
    "audits pr P_Generate True ev"
    and qq: "case q of
          Inl err \<Rightarrow> w_metrics w = inc_audit_events (w_metrics (ag_world ?s)) \<and>
            (K = [] \<or> (\<exists>x. K = [C_Plan x]))
        | Inr (r, session') \<Rightarrow>
            (\<exists>thought plan. K = [C_Plan thought] \<and> cr_content r = ''(assistant) '' @ thought \<and>
               cr_suggestions r = suggestions_of thought plan) \<and>
            session' = push_assistant (cr_content r) (push_user m (session_of i s)) \<and>
            w_metrics w = inc_llm_calls (inc_audit_events (w_metrics (ag_world ?s)))"
    by auto
  show thesis
  proof (cases q)
    case (Inl e)
    with body q have "res = Inl \<lparr>gs_code = GC_Internal, gs_message = e\<rparr>" "t = ?s\<lparr>ag_world := w\<rparr>"
      by (auto simp: bnd_app open_session_run internal_run in_world_app)
    with K qq Inl show thesis by (intro failed) auto
  next
    case (Inr rs)
    obtain r session' where rs: "rs = (r, session')" by (cases rs)
    let ?t = "?s\<lparr>ag_world := w, ag_sessions := (ag_sessions ?s)(i \<mapsto> session')\<rparr>"
    let ?p = "JObj [(''attachments'', JNum (int (length atts)))]"
    obtain ev' where ev': "agent_audit L pr A_Generate True ?p ?t = (Inr () :: grpc_status + unit, audited ev' ?t)"
      "audits pr P_Generate True ev'"
      using agent_audit_run [of L pr P_Generate True ?p ?t] by auto
    with body q Inr rs have "res = Inr (chat_messages r)" "t = audited ev' ?t"
      by (auto simp: bnd_app open_session_run internal_run in_world_app)
    moreover obtain thought plan where "K = [C_Plan thought]" "cr_content r = ''(assistant) '' @ thought"
      "cr_suggestions r = suggestions_of thought plan"
      using qq Inr rs by auto
    ultimately show thesis using K qq Inr rs ev'
      by (intro answered [of r ev ev' thought plan session' w]) simp_all
  qed
qed

section \<open>The server over a history of requests\<close>

datatype rpc =
    R_Ping
  | R_Nes_Complete "str option" str str str
  | R_Run_Agent "str option" str
  | R_Chat "str option" str str "str list"
  | R_Deliver nat                 \<comment> \<open>a spawned audit task runs\<close>

primrec serve_rpc :: "'w agent_lib \<Rightarrow> 'w agent_server \<Rightarrow> rpc \<Rightarrow> 'w agent_state \<Rightarrow> 'w agent_state" where
  "serve_rpc L sv R_Ping s = snd (ping s)"
| "serve_rpc L sv (R_Nes_Complete h p sfx l) s = snd (agent_nes_complete L sv h p sfx l s)"
| "serve_rpc L sv (R_Run_Agent h goal) s = snd (run_agent L sv h goal s)"
| "serve_rpc L sv (R_Chat h i m atts) s = snd (chat L sv h i m atts s)"
| "serve_rpc L sv (R_Deliver k) s = deliver sv k s"

definition is_request :: "rpc \<Rightarrow> bool" where
  "is_request r = (case r of R_Deliver _ \<Rightarrow> False | _ \<Rightarrow> True)"

text \<open>The sessions of a server are well-formed and have the bounds of \<open>ChatSession::new(2048, 64)\<close>.\<close>

definition sessions_ok :: "'w agent_state \<Rightarrow> bool" where
  "sessions_ok s \<longleftrightarrow> (\<forall>i c. ag_sessions s i = Some c \<longrightarrow>
     session_wf c \<and> cs_max_turns c = 64 \<and> max_items (cs_ctx c) = 256)"

lemma session_of_ok:
  assumes "sessions_ok s"
  shows "session_wf (session_of i s)" "cs_max_turns (session_of i s) = 64"
    "max_items (cs_ctx (session_of i s)) = 256"
  using assms
  by (auto simp: sessions_ok_def session_of_def session_wf_new split: option.split)
    (simp_all add: chat_session_new_def cm_with_budget_def)

lemma session_push_bounds:
  assumes "session_wf c"
  shows "session_wf (push_assistant a (push_user m c))"
    "cs_max_turns (push_assistant a (push_user m c)) = cs_max_turns c"
    "cs_ctx (push_assistant a (push_user m c)) = cm_push a (cm_push m (cs_ctx c))"
  using session_push_wf [OF assms] session_push_wf [OF session_push_wf(1) [OF assms]]
  by (simp_all add: push_assistant_def push_user_def)

lemma sessions_ok_opened: "sessions_ok s \<Longrightarrow> sessions_ok (opened i s)"
  using session_of_ok [of s i] by (auto simp: sessions_ok_def)

lemma sessions_ok_chat:
  assumes "sessions_ok s" and "chat L sv h i m atts s = (res, t)"
  shows "sessions_ok t"
proof (cases rule: guarded_cases [OF assms(2) [unfolded handlers_guarded(3)]])
  case (3 pr)
  note s = session_of_ok [OF assms(1), of i]
  show ?thesis
  proof (cases rule: chat_admitted [OF assms(2) 3(1,2)])
    case (1 e ev K w)
    with s assms(1) show ?thesis by (auto simp: sessions_ok_def)
  next
    case (2 r ev ev' thought plan w session')
    with s assms(1) session_push_bounds [OF s(1), of "cr_content r" m] show ?thesis
      by (auto simp: sessions_ok_def)
  qed
qed (use assms(1) in \<open>auto simp: sessions_ok_def\<close>)

definition server_inv :: "nat \<Rightarrow> 'w agent_state \<Rightarrow> bool" where
  "server_inv n s \<longleftrightarrow> sessions_ok s \<and>
     requests_total (w_metrics (ag_world s)) = of_nat n \<and>
     request_latency (w_metrics (ag_world s)) = histogram_new LATENCY_BUCKETS_MS \<and>
     audit_events_total (w_metrics (ag_world s)) = tally is_audit (trail (ag_world s)) \<and>
     tool_calls_total (w_metrics (ag_world s)) = tally is_tool (trail (ag_world s)) \<and>
     list_all (\<lambda>ev. C_Audit ev \<in> set (trail (ag_world s))) (ag_spawned s)"

lemma server_inv_new: "server_inv 0 (agent_state_new cfg w)"
  by (simp add: server_inv_def agent_state_new_def sessions_ok_def world0_def metrics_new_def)

lemma tally_plain [simp]:
  "is_audit (C_Audit ev)" "\<not> is_tool (C_Audit ev)" "\<not> is_audit (C_Think c)" "\<not> is_tool (C_Think c)"
  "\<not> is_audit (C_Plan x)" "\<not> is_tool (C_Plan x)"
  by (simp_all add: is_audit_def is_tool_def)

lemma server_inv_request: "server_inv n s \<Longrightarrow> server_inv (Suc n) (count inc_requests s)"
  by (simp add: server_inv_def sessions_ok_def metric_defs)

lemma server_inv_denial: "server_inv n s \<Longrightarrow> server_inv n (count inc_denials s)"
  by (simp add: server_inv_def sessions_ok_def metric_defs)

lemma server_inv_completion:
  "server_inv n s \<Longrightarrow> server_inv n (count inc_completions s)"
  "server_inv n s \<Longrightarrow> server_inv n (count (observe_completion l) s)"
  by (simp_all add: server_inv_def sessions_ok_def metric_defs)

lemma server_inv_audited: "server_inv n s \<Longrightarrow> server_inv n (audited ev s)"
  by (auto simp: server_inv_def sessions_ok_def metric_defs list_all_iff)

lemma server_inv_world:
  assumes "server_inv n s" and "booked (ag_world s) w"
  shows "server_inv n (s\<lparr>ag_world := w\<rparr>)"
  using assms by (auto simp: server_inv_def booked_def sessions_ok_def list_all_iff)

lemma server_inv_env: "server_inv n s \<Longrightarrow> server_inv n (s\<lparr>ag_world := (ag_world s)\<lparr>env := e\<rparr>, ag_cache := c\<rparr>)"
  by (auto simp: server_inv_def sessions_ok_def)

lemma server_inv_deliver: "server_inv n s \<Longrightarrow> server_inv n (deliver sv k s)"
  by (auto simp: server_inv_def deliver_def external_def sessions_ok_def list_all_iff
      split: prod.splits dest: in_set_takeD in_set_dropD)

lemma server_inv_nes:
  assumes "server_inv n s"
  shows "server_inv (Suc n) (snd (agent_nes_complete L sv h p sfx l s))"
proof -
  obtain res t where run: "agent_nes_complete L sv h p sfx l s = (res, t)" by force
  note r = server_inv_request [OF assms]
  have "server_inv (Suc n) t"
  proof (cases rule: guarded_cases [OF run [unfolded handlers_guarded(1)]])
    case (3 pr)
    obtain q s' where ask: "ask_backend sv p sfx l (count inc_requests s) = (q, s')" by force
    then have s': "server_inv (Suc n) s'"
      using server_inv_env [OF r] by (auto simp: ask_backend_def split: prod.splits)
    show ?thesis
    proof (cases q)
      case (Inl e)
      with 3(3) ask s' show ?thesis by (simp add: bnd_app internal_run)
    next
      case (Inr cs)
      let ?l = "al_instant L (env (ag_world s')) - al_instant L (env (ag_world (count inc_requests s)))"
      let ?t = "count (observe_completion ?l) (count inc_completions s')"
      let ?p = "JObj [(''candidates'', JNum (int (length (rank_completions cs 5)))), (''latency_ms'', JReal ?l)]"
      obtain ev where ev: "agent_audit L pr A_Generate True ?p ?t = (Inr () :: grpc_status + unit, audited ev ?t)"
        using agent_audit_run [of L pr P_Generate True ?p ?t] by auto
      with 3(3) ask Inr have "t = audited ev ?t"
        by (auto simp: bnd_app internal_run Let_def)
      then show ?thesis by (simp add: server_inv_audited server_inv_completion s')
    qed
  qed (use r in \<open>simp_all add: server_inv_denial server_inv_audited\<close>)
  then show ?thesis by (simp add: run)
qed

lemma server_inv_run_agent:
  assumes "tool_executor (pl_tools (as_planner sv))" and "server_inv n s"
  shows "server_inv (Suc n) (snd (run_agent L sv h goal s))"
proof -
  obtain res t where run: "run_agent L sv h goal s = (res, t)" by force
  note r = server_inv_request [OF assms(2)]
  have "server_inv (Suc n) t"
  proof (cases rule: guarded_cases [OF run [unfolded handlers_guarded(2)]])
    case (3 pr)
    show ?thesis
    proof (rule run_agent_admitted [OF run 3(1,2)])
      fix pl q w assume pl: "pl = planner_with_governance pr (as_sink sv) (as_planner sv)"
        and go: "planner_run pl goal (ag_world (count inc_requests s)) = (q, w)"
        and q: "case q of
         Inl e \<Rightarrow> res = Inl \<lparr>gs_code = GC_Internal, gs_message = e\<rparr> \<and> t = (count inc_requests s)\<lparr>ag_world := w\<rparr>
       | Inr tr \<Rightarrow> \<exists>ev. audits pr P_Execute True ev \<and> res = Inr (map step_event (steps tr)) \<and>
           t = audited ev ((count inc_requests s)\<lparr>ag_world := w\<rparr>)"
      have "booked (ag_world (count inc_requests s)) w"
        by (rule rel_effD [OF booked_planner(1) go]) (simp add: pl assms(1))
      from server_inv_world [OF r this] q show ?thesis
        by (auto intro: server_inv_audited split: sum.splits)
    qed
  qed (use r in \<open>simp_all add: server_inv_denial server_inv_audited\<close>)
  then show ?thesis by (simp add: run)
qed

lemma server_inv_session:
  "server_inv n s \<Longrightarrow> sessions_ok (s\<lparr>ag_sessions := m\<rparr>) \<Longrightarrow> server_inv n (s\<lparr>ag_sessions := m\<rparr>)"
  by (simp add: server_inv_def)

lemma server_inv_chat:
  assumes "server_inv n s"
  shows "server_inv (Suc n) (snd (chat L sv h i m atts s))"
proof -
  obtain res t where run: "chat L sv h i m atts s = (res, t)" by force
  note r = server_inv_request [OF assms]
  have ok: "sessions_ok t" using sessions_ok_chat [OF _ run] assms by (simp add: server_inv_def)
  have "server_inv (Suc n) t"
  proof (cases rule: guarded_cases [OF run [unfolded handlers_guarded(3)]])
    case (3 pr)
    show ?thesis
    proof (cases rule: chat_admitted [OF run 3(1,2)])
      case (1 e ev K w)
      then have "tally is_audit K = 0 \<and> tally is_tool K = 0" by auto
      with 1 ok r show ?thesis
        by (auto simp: server_inv_def metric_defs list_all_iff)
    next
      case (2 x ev ev' thought plan w session')
      with ok r show ?thesis
        by (auto simp: server_inv_def metric_defs list_all_iff)
    qed
  qed (use r in \<open>simp_all add: server_inv_denial server_inv_audited\<close>)
  then show ?thesis by (simp add: run)
qed

lemma server_inv_step:
  assumes "tool_executor (pl_tools (as_planner sv))" and "server_inv n s"
  shows "server_inv (if is_request r then Suc n else n) (serve_rpc L sv r s)"
  using assms(2)
  by (cases r) (simp_all add: is_request_def ping_def server_inv_nes server_inv_run_agent [OF assms(1)]
      server_inv_chat server_inv_deliver server_inv_request)

lemma server_inv_history:
  assumes "tool_executor (pl_tools (as_planner sv))"
  shows "server_inv n s \<Longrightarrow>
    server_inv (n + length (filter is_request rpcs)) (fold (serve_rpc L sv) rpcs s)"
proof (induction rpcs arbitrary: n s)
  case (Cons r rpcs)
  from Cons.IH [OF server_inv_step [OF assms Cons.prems, of r L]] show ?case
    by (cases "is_request r") simp_all
qed simp

lemma configured_executor: "tool_executor (pl_tools (as_planner (from_config L H connect host cfg)))"
  by (simp add: from_config_def Let_def planner_new_def basic.tool_executor_axioms)

lemma server_history:
  "server_inv (length (filter is_request rpcs))
     (fold (serve_rpc L (from_config L H connect host cfg)) rpcs (agent_state_new cfg w))"
  using server_inv_history [OF configured_executor server_inv_new, of rpcs] by simp

text \<open>
  The other three counters depend on how the requests ended: the log of a history is its requests with
  the status of those that failed.
\<close>

definition failure :: "('e + 'a) \<times> 's \<Rightarrow> 'e option" where
  "failure r = (case fst r of Inl e \<Rightarrow> Some e | Inr _ \<Rightarrow> None)"

primrec rpc_status :: "'w agent_lib \<Rightarrow> 'w agent_server \<Rightarrow> rpc \<Rightarrow> 'w agent_state \<Rightarrow> grpc_status option" where
  "rpc_status L sv R_Ping s = failure (ping s)"
| "rpc_status L sv (R_Nes_Complete h p sfx l) s = failure (agent_nes_complete L sv h p sfx l s)"
| "rpc_status L sv (R_Run_Agent h goal) s = failure (run_agent L sv h goal s)"
| "rpc_status L sv (R_Chat h i m atts) s = failure (chat L sv h i m atts s)"
| "rpc_status L sv (R_Deliver k) s = None"

fun rpc_log :: "'w agent_lib \<Rightarrow> 'w agent_server \<Rightarrow> rpc list \<Rightarrow> 'w agent_state \<Rightarrow> (rpc \<times> grpc_status option) list" where
  "rpc_log L sv [] s = []"
| "rpc_log L sv (r # rs) s = (r, rpc_status L sv r s) # rpc_log L sv rs (serve_rpc L sv r s)"

definition turned_away :: "rpc \<times> grpc_status option \<Rightarrow> bool" where
  "turned_away x = (case snd x of Some st \<Rightarrow> gs_code st = GC_Unauthenticated | None \<Rightarrow> False)"

definition completed :: "rpc \<times> grpc_status option \<Rightarrow> bool" where
  "completed x = (case fst x of R_Nes_Complete _ _ _ _ \<Rightarrow> snd x = None | _ \<Rightarrow> False)"

definition chat_failed :: "rpc \<times> grpc_status option \<Rightarrow> bool" where
  "chat_failed x = (case fst x of
     R_Chat _ _ _ _ \<Rightarrow> (case snd x of Some st \<Rightarrow> gs_code st = GC_Internal | None \<Rightarrow> False) | _ \<Rightarrow> False)"

definition books :: "(rpc \<times> grpc_status option) list \<Rightarrow> 'w agent_state \<Rightarrow> bool" where
  "books hist s \<longleftrightarrow>
     denials_total (w_metrics (ag_world s)) = tally turned_away hist + tally is_denial (trail (ag_world s)) \<and>
     completions_total (w_metrics (ag_world s)) = tally completed hist \<and>
     llm_calls_total (w_metrics (ag_world s)) + tally chat_failed hist = tally is_think (trail (ag_world s))"

lemmas log_defs = turned_away_def completed_def chat_failed_def failure_def

lemma audits_denial: "audits pr p g ev \<Longrightarrow> is_denial (C_Audit ev) = (\<not> g)"
  by (simp add: audits_def is_denial_def)

lemma think_plain [simp]:
  "\<not> is_think (C_Audit ev)" "is_think (C_Think c)" "\<not> is_think (C_Plan x)" "\<not> is_denial (C_Think c)"
  "\<not> is_denial (C_Plan x)"
  by (simp_all add: is_think_def is_denial_def)

lemma books_nes:
  assumes "books hist s"
  shows "books (hist @ [(R_Nes_Complete h p sfx l, failure (agent_nes_complete L sv h p sfx l s))])
    (snd (agent_nes_complete L sv h p sfx l s))"
proof -
  obtain res t where run: "agent_nes_complete L sv h p sfx l s = (res, t)" by force
  have "books (hist @ [(R_Nes_Complete h p sfx l, failure (res, t))]) t"
  proof (cases rule: guarded_cases [OF run [unfolded handlers_guarded(1)]])
    case (3 pr)
    obtain q s' where ask: "ask_backend sv p sfx l (count inc_requests s) = (q, s')" by force
    then have s': "w_metrics (ag_world s') = inc_requests (w_metrics (ag_world s))"
      "trail (ag_world s') = trail (ag_world s)"
      by (auto simp: ask_backend_def split: prod.splits)
    show ?thesis
    proof (cases q)
      case (Inl e)
      with 3(3) ask s' assms show ?thesis
        by (auto simp: bnd_app internal_run books_def log_defs metric_defs)
    next
      case (Inr cs)
      let ?l = "al_instant L (env (ag_world s')) - al_instant L (env (ag_world (count inc_requests s)))"
      let ?t = "count (observe_completion ?l) (count inc_completions s')"
      let ?p = "JObj [(''candidates'', JNum (int (length (rank_completions cs 5)))), (''latency_ms'', JReal ?l)]"
      obtain ev where ev: "agent_audit L pr A_Generate True ?p ?t = (Inr () :: grpc_status + unit, audited ev ?t)"
        "audits pr P_Generate True ev"
        using agent_audit_run [of L pr P_Generate True ?p ?t] by auto
      with 3(3) ask Inr have "t = audited ev ?t" "\<exists>x. res = Inr x"
        by (auto simp: bnd_app internal_run Let_def)
      then show ?thesis using s' assms audits_denial [OF ev(2)]
        by (auto simp: books_def log_defs metric_defs)
    qed
  qed (use assms in \<open>auto simp: books_def log_defs metric_defs audits_denial\<close>)
  then show ?thesis by (simp add: run)
qed

lemma books_run_agent:
  assumes "tool_executor (pl_tools (as_planner sv))" and "books hist s"
  shows "books (hist @ [(R_Run_Agent h goal, failure (run_agent L sv h goal s))]) (snd (run_agent L sv h goal s))"
proof -
  obtain res t where run: "run_agent L sv h goal s = (res, t)" by force
  have "books (hist @ [(R_Run_Agent h goal, failure (res, t))]) t"
  proof (cases rule: guarded_cases [OF run [unfolded handlers_guarded(2)]])
    case (3 pr)
    show ?thesis
    proof (rule run_agent_admitted [OF run 3(1,2)])
      fix pl q w assume pl: "pl = planner_with_governance pr (as_sink sv) (as_planner sv)"
        and go: "planner_run pl goal (ag_world (count inc_requests s)) = (q, w)"
        and q: "case q of
         Inl e \<Rightarrow> res = Inl \<lparr>gs_code = GC_Internal, gs_message = e\<rparr> \<and> t = (count inc_requests s)\<lparr>ag_world := w\<rparr>
       | Inr tr \<Rightarrow> \<exists>ev. audits pr P_Execute True ev \<and> res = Inr (map step_event (steps tr)) \<and>
           t = audited ev ((count inc_requests s)\<lparr>ag_world := w\<rparr>)"
      have "booked (ag_world (count inc_requests s)) w"
        by (rule rel_effD [OF booked_planner(1) go]) (simp add: pl assms(1))
      then have w: "books (hist @ [(R_Run_Agent h goal, None)]) ((count inc_requests s)\<lparr>ag_world := w\<rparr>)"
        using assms(2) by (auto simp: books_def booked_def log_defs metric_defs algebra_simps)
      then show ?thesis using q audits_denial
        by (cases q) (fastforce simp: books_def log_defs metric_defs)+
    qed
  qed (use assms(2) in \<open>auto simp: books_def log_defs metric_defs audits_denial\<close>)
  then show ?thesis by (simp add: run)
qed

lemma books_chat:
  assumes "books hist s"
  shows "books (hist @ [(R_Chat h i m atts, failure (chat L sv h i m atts s))]) (snd (chat L sv h i m atts s))"
proof -
  obtain res t where run: "chat L sv h i m atts s = (res, t)" by force
  have "books (hist @ [(R_Chat h i m atts, failure (res, t))]) t"
  proof (cases rule: guarded_cases [OF run [unfolded handlers_guarded(3)]])
    case (3 pr)
    show ?thesis
    proof (cases rule: chat_admitted [OF run 3(1,2)])
      case (1 e ev K w)
      then have "tally is_denial K = 0 \<and> tally is_think K = 0" by auto
      with 1 assms audits_denial [OF 1(2)] show ?thesis
        by (auto simp: books_def log_defs metric_defs)
    next
      case (2 x ev ev' thought plan w session')
      with assms audits_denial [OF 2(2)] audits_denial [OF 2(3)] show ?thesis
        by (auto simp: books_def log_defs metric_defs)
    qed
  qed (use assms in \<open>auto simp: books_def log_defs metric_defs audits_denial\<close>)
  then show ?thesis by (simp add: run)
qed

lemma books_step:
  assumes "tool_executor (pl_tools (as_planner sv))" and "books hist s"
  shows "books (hist @ [(r, rpc_status L sv r s)]) (serve_rpc L sv r s)"
proof (cases r)
  case R_Ping
  with assms(2) show ?thesis by (simp add: ping_def books_def log_defs metric_defs)
next
  case (R_Deliver k)
  with assms(2) show ?thesis
    by (auto simp: deliver_def external_def books_def log_defs split: prod.splits)
qed (use assms in \<open>simp_all add: books_nes books_run_agent books_chat\<close>)

lemma books_history:
  assumes "tool_executor (pl_tools (as_planner sv))"
  shows "books hist s \<Longrightarrow> books (hist @ rpc_log L sv rpcs s) (fold (serve_rpc L sv) rpcs s)"
proof (induction rpcs arbitrary: hist s)
  case (Cons r rpcs)
  from Cons.IH [OF books_step [OF assms Cons.prems, of r L]] show ?case by simp
qed simp

lemma books_new: "books [] (agent_state_new cfg w)"
  by (simp add: books_def agent_state_new_def world0_def metrics_new_def)

text \<open>
  C13: a configured server keeps its books over every history of requests and of audit tasks that
  run in between, whatever the requests are and whoever sends them.  Modulo the 64-bit wrap the counters
  are: the requests handled; the audit records made; the tools run; the denied records and the requests
  that did not authenticate (these are counted and not recorded); the completions answered; and the
  think questions, less those of the chats that failed (a chat counts its question only once it
  succeeded, the planner before asking).  Every session is well-formed and within 64 turns, and what
  waits to be written to the sink are records that were made.
\<close>

theorem server_invariant:
  "let sv = from_config L H connect host cfg; s0 = agent_state_new cfg w;
       s = fold (serve_rpc L sv) rpcs s0; hist = rpc_log L sv rpcs s0; m = w_metrics (ag_world s)
   in requests_total m = of_nat (length (filter is_request rpcs)) \<and>
     audit_events_total m = of_nat (length (filter is_audit (trail (ag_world s)))) \<and>
     tool_calls_total m = of_nat (length (filter is_tool (trail (ag_world s)))) \<and>
     denials_total m = of_nat (length (filter turned_away hist) + length (filter is_denial (trail (ag_world s)))) \<and>
     completions_total m = of_nat (length (filter completed hist)) \<and>
     llm_calls_total m + of_nat (length (filter chat_failed hist)) =
       of_nat (length (filter is_think (trail (ag_world s)))) \<and>
     sessions_ok s \<and> list_all (\<lambda>ev. C_Audit ev \<in> set (trail (ag_world s))) (ag_spawned s)"
proof -
  let ?sv = "from_config L H connect host cfg" and ?s0 = "agent_state_new cfg w"
  have "books ([] @ rpc_log L ?sv rpcs ?s0) (fold (serve_rpc L ?sv) rpcs ?s0)"
    by (rule books_history [OF configured_executor books_new])
  with server_history [of rpcs L H connect host cfg w] show ?thesis
    by (simp add: Let_def server_inv_def books_def tally_def)
qed

section \<open>Sessions belong to nobody\<close>

lemma sublist_snapshot_from: "x \<in> set xs \<Longrightarrow> sublist x (snapshot_from i xs)"
proof (induction xs arbitrary: i)
  case (Cons y ys)
  show ?case
  proof (cases "x = y")
    case True
    then have "snapshot_from i (y # ys) = (''['' @ show_nat i @ ''] '') @ x @ ([CHR 0x0A] @ snapshot_from (i + 1) ys)"
      by simp
    then show ?thesis unfolding sublist_def by blast
  next
    case False
    with Cons have "sublist x (snapshot_from (i + 1) ys)" by simp
    then obtain p q where "snapshot_from (i + 1) ys = p @ x @ q" by (auto simp: sublist_def)
    then have "snapshot_from i (y # ys) = (''['' @ show_nat i @ ''] '' @ y @ [CHR 0x0A] @ p) @ x @ q"
      by simp
    then show ?thesis unfolding sublist_def by blast
  qed
qed simp

lemma sublist_prompt:
  assumes "x \<in> set (window (cs_ctx c))"
  shows "sublist x (compose_prompt c m atts)"
proof -
  obtain p q where "snapshot (cs_ctx c) = p @ x @ q"
    using sublist_snapshot_from [OF assms, of 0] unfolding snapshot_def sublist_def by blast
  then have "compose_prompt c m atts = (''=== Chat ==='' @ [CHR 0x0A] @ concat (map render_attachment atts) @
     ''user: '' @ m @ [CHR 0x0A] @ ''=== History + context ==='' @ [CHR 0x0A] @
     ''=== Context ==='' @ [CHR 0x0A] @ concat (map render_chunk (cm_chunks (cs_ctx c))) @
     ''=== Working memory ==='' @ [CHR 0x0A] @ p) @ x @ q"
    by (simp add: compose_prompt_def build_prompt_def)
  then show ?thesis unfolding sublist_def by blast
qed

lemma in_tl_snoc: "xs \<noteq> [] \<Longrightarrow> x \<in> set (tl (xs @ [x]))"
  by (cases xs) auto

lemma pushed_kept:
  assumes "length (window cm) \<le> max_items cm" and "2 < max_items cm"
  shows "x \<in> set (window (cm_push y (cm_push x cm)))"
proof -
  have "tl (window cm) \<noteq> []" if "length (window cm) = max_items cm"
    using that assms(2) by (cases "window cm") auto
  moreover have "window cm \<noteq> []" if "Suc (length (window cm)) = max_items cm"
    using that assms(2) by auto
  ultimately show ?thesis by (auto simp: cm_push_def Let_def in_tl_snoc)
qed

text \<open>
  C11: the chat sessions are kept by the identifier the client sends and by nothing else: after
  any history, when a second caller, of whatever tenant, chats under the identifier a first caller
  used, the first caller's message is part of the prompt the model answers the second one from.
\<close>

theorem chat_sessions_shared:
  assumes "sv = from_config L H connect host cfg"
    and "s = fold (serve_rpc L sv) rpcs (agent_state_new cfg w)"
    and "chat L sv h1 i m1 atts1 s = (Inr out1, t)" and "chat L sv h2 i m2 atts2 t = (Inr out2, u)"
  shows "\<exists>pr1 pr2 prompt K. caller L sv h1 s = Inr pr1 \<and> caller L sv h2 t = Inr pr2 \<and>
    trail (ag_world u) = trail (ag_world t) @ K \<and> C_Think prompt \<in> set K \<and> sublist m1 prompt"
proof -
  have ok: "sessions_ok s" using server_history [of rpcs L H connect host cfg w] assms(1,2)
    by (simp add: server_inv_def)
  obtain pr1 where 1: "caller L sv h1 s = Inr pr1" "has (perms pr1) P_Generate"
    using assms(3) by (cases rule: guarded_cases [OF assms(3) [unfolded handlers_guarded(3)]]) auto
  obtain pr2 where 2: "caller L sv h2 t = Inr pr2" "has (perms pr2) P_Generate"
    using assms(4) by (cases rule: guarded_cases [OF assms(4) [unfolded handlers_guarded(3)]]) auto
  note c = session_of_ok [OF ok, of i]
  obtain a where t: "session_of i t = push_assistant a (push_user m1 (session_of i s))"
    using assms(3) by (cases rule: chat_admitted [OF assms(3) 1]) (auto simp: session_of_def)
  have "window (cs_ctx (session_of i t)) = window (cm_push a (cm_push m1 (cs_ctx (session_of i s))))"
    using session_push_bounds(3) [OF c(1), of a m1] t by simp
  moreover have "m1 \<in> set (window (cm_push a (cm_push m1 (cs_ctx (session_of i s)))))"
    using c(1,3) by (intro pushed_kept) (auto simp: session_wf_def cm_wf_def)
  ultimately have sub: "sublist m1 (compose_prompt (session_of i t) m2 (parse_attachments atts2))"
    by (intro sublist_prompt) simp
  show ?thesis
  proof (cases rule: chat_admitted [OF assms(4) 2])
    case (2 r ev ev' thought plan w' session')
    then show ?thesis using 1 \<open>caller L sv h2 t = Inr pr2\<close> sub by auto
  qed (use assms(4) in simp)
qed

text \<open>A chat that is let in is answered when the model answers.\<close>

lemma succeeds_reply:
  assumes "has (perms (ce_principal e)) P_Generate"
    and "\<And>c. succeeds (llm_think (ce_llm e) c)" and "\<And>x. succeeds (llm_plan_action (ce_llm e) x)"
  shows "succeeds (reply e session m atts)"
proof -
  have ok: "check_permission (ce_principal e) P_Generate = Inr ()" using assms(1) by simp
  have audit: "succeeds (chat_audit e A_Generate True p)" for p
    unfolding chat_audit_def by (intro succeeds_intros) (simp add: succeeds_def)
  show ?thesis
    unfolding reply_def ok ask_model_def Let_def sum.case
    by (intro succeeds_bnd audit succeeds_prim succeeds_external assms(2,3) succeeds_ret succeeds_pair)
qed

lemma succeeds_state:
  "succeeds (modify f)" "succeeds (gets g)"
  by (simp_all add: succeeds_def)

lemma succeeds_in_world:
  assumes "succeeds m"
  shows "succeeds (in_world m)"
  unfolding succeeds_def
proof
  fix s :: "'a agent_state"
  obtain x w where "m (ag_world s) = (Inr x, w)" using assms unfolding succeeds_def by blast
  then show "\<exists>x t. in_world m s = (Inr x, t)" by (simp add: in_world_app)
qed

lemma succeeds_internal:
  assumes "succeeds m"
  shows "succeeds (internal m)"
  unfolding succeeds_def
proof
  fix s
  obtain x t where "m s = (Inr x, t)" using assms unfolding succeeds_def by blast
  then show "\<exists>x t. internal m s = (Inr x, t)" by (simp add: internal_run)
qed

lemma succeeds_agent_audit: "succeeds (agent_audit L pr a g p)"
  unfolding agent_audit_def by (intro succeeds_intros succeeds_state succeeds_in_world)

lemma succeeds_open_session: "succeeds (open_session i)"
  unfolding open_session_def by (intro succeeds_intros succeeds_state)

lemma chat_answered:
  assumes "caller L sv h s = Inr pr" and "has (perms pr) P_Generate"
    and "\<And>c. succeeds (llm_think (ce_llm (as_chat sv)) c)"
    and "\<And>x. succeeds (llm_plan_action (ce_llm (as_chat sv)) x)"
  shows "\<exists>out t. chat L sv h i m atts s = (Inr out, t)"
proof -
  let ?e = "chat_with_governance pr (as_sink sv) (as_chat sv)"
  have rep: "succeeds (reply ?e c m (parse_attachments atts))" for c
    by (rule succeeds_reply) (use assms in \<open>simp_all add: chat_with_governance_def\<close>)
  have "succeeds (bnd (open_session i) (\<lambda>session.
     let engine = ?e in
     bnd (internal (in_world (reply engine session m (parse_attachments atts)))) (\<lambda>(r, session').
     bnd (modify (\<lambda>s. s\<lparr>ag_sessions := (ag_sessions s)(i \<mapsto> session')\<rparr>)) (\<lambda>_.
     bnd (agent_audit L pr A_Generate True
            (JObj [(''attachments'', JNum (int (length atts)))])) (\<lambda>_.
     ret (chat_messages r))))))"
    unfolding Let_def
    by (intro succeeds_bnd succeeds_open_session succeeds_internal succeeds_in_world rep succeeds_pair
        succeeds_state succeeds_agent_audit succeeds_ret)
  note body = this [unfolded succeeds_def, THEN spec, of "count inc_requests s"]
  obtain res t where run: "chat L sv h i m atts s = (res, t)" by force
  show ?thesis
    by (cases rule: guarded_cases [OF run [unfolded handlers_guarded(3)]])
      (use run body assms(1,2) in auto)
qed

text \<open>
  Two tenants with tokens of their own, the mock model, one session identifier: tokens whose tag
  is the secret and whose payload is the tenant.
\<close>

definition duo_jwt :: jwt_lib where
  "duo_jwt = \<lparr>jw_hmac = (\<lambda>k m. k), jw_encode = id, jw_decode = Inr, jw_write = (\<lambda>j. []),
     jw_read = (\<lambda>s. Inr (JObj [(''tenant_id'', JStr s), (''user_id'', JStr ''u''), (''perm_mask'', JNum 63)])),
     jw_mismatch = (\<lambda>j. [])\<rparr>"

definition duo_lib :: "docs agent_lib" where
  "duo_lib = \<lparr>al_header_str = Some, al_jwt = duo_jwt, al_unix_time = (\<lambda>_. None), al_instant = (\<lambda>_. 0),
     al_clock = (\<lambda>_. 0)\<rparr>"

definition duo_config :: core_config where
  "duo_config = core_config_default\<lparr>cf_sso_enabled := True, cf_sso_secret := ''key''\<rparr>"

definition duo_http :: "docs agent_http" where
  "duo_http = \<lparr>ah_ollama_chat = (\<lambda>_. throw (Send_Failed [])), ah_openai_chat = (\<lambda>_. throw (Send_Failed [])),
     ah_generate = (\<lambda>_. throw None)\<rparr>"

definition duo_server :: "docs agent_server" where
  "duo_server = from_config duo_lib duo_http (\<lambda>_ _. Inl []) cli_host duo_config"

lemma duo_bearer:
  "extract_bearer (Some ''Bearer h.acme.key'') = Some ''h.acme.key''"
  "extract_bearer (Some ''Bearer h.rival.key'') = Some ''h.rival.key''"
  by code_simp+

lemma duo_verify:
  assumes "split_on (CHR ''.'') tok = [x, tenant, ''key'']"
  shows "authenticate duo_jwt None (Hs256_Authenticator ''key'' [] []) (Some tok) =
    Inr (principal_from_mask tenant ''u'' 63)"
proof -
  have "claims_of_json (JObj [(''tenant_id'', JStr tenant), (''user_id'', JStr ''u''), (''perm_mask'', JNum 63)]) =
    Some (claims_default\<lparr>cl_tenant_id := tenant, cl_user_id := ''u'', cl_perm_mask := 63\<rparr>)"
    by (simp add: claims_of_json_def set_claim_def claim_fields_def de_str_def de_u32_def)
  then have "verify_hs256 duo_jwt None tok ''key'' =
      Inr (claims_default\<lparr>cl_tenant_id := tenant, cl_user_id := ''u'', cl_perm_mask := 63\<rparr>)"
    by (simp add: verify_three [OF assms] duo_jwt_def sign_hs256_def expired_def claims_default_def)
  then show ?thesis by (simp add: pinned_def claims_default_def)
qed

lemma duo_authenticates:
  "authenticate duo_jwt None (Hs256_Authenticator ''key'' [] []) (extract_bearer (Some ''Bearer h.acme.key'')) =
     Inr (principal_from_mask ''acme'' ''u'' 63)"
  "authenticate duo_jwt None (Hs256_Authenticator ''key'' [] []) (extract_bearer (Some ''Bearer h.rival.key'')) =
     Inr (principal_from_mask ''rival'' ''u'' 63)"
  unfolding duo_bearer by (rule duo_verify, code_simp)+

lemma duo_callers:
  "caller duo_lib duo_server (Some ''Bearer h.acme.key'') s = Inr (principal_from_mask ''acme'' ''u'' 63)"
  "caller duo_lib duo_server (Some ''Bearer h.rival.key'') s = Inr (principal_from_mask ''rival'' ''u'' 63)"
  using duo_authenticates
  by (simp_all add: caller_def duo_lib_def duo_server_def from_config_def Let_def duo_config_def
      core_config_default_def)

lemma duo_model:
  "succeeds (llm_think (ce_llm (as_chat duo_server)) c)"
  "succeeds (llm_plan_action (ce_llm (as_chat duo_server)) x)"
  by (simp_all add: duo_server_def from_config_def Let_def duo_config_def core_config_default_def
      chat_with_governance_def chat_engine_new_def build_llm_def mock_llm_def succeeds_def)

lemma duo_generates: "has (perms (principal_from_mask tenant ''u'' 63)) P_Generate"
  by (simp add: principal_from_mask_def) code_simp

theorem run_agent_guarded_witness:
  "let (res, t) = run_agent duo_lib duo_server (Some ''Bearer h.acme.key'') ''go'' (agent_state_new duo_config Map.empty)
   in cleared (principal_from_mask ''acme'' ''u'' 63) (trail (ag_world t)) \<and> ag_sessions t = Map.empty"
proof -
  let ?s = "agent_state_new duo_config Map.empty :: docs agent_state"
  obtain res t where run: "run_agent duo_lib duo_server (Some ''Bearer h.acme.key'') ''go'' ?s = (res, t)"
    by force
  have "tool_executor (pl_tools (as_planner duo_server))"
    unfolding duo_server_def by (rule configured_executor)
  moreover have "has (perms (principal_from_mask ''acme'' ''u'' 63)) P_Execute"
    by (simp add: principal_from_mask_def) code_simp
  moreover have "trail (ag_world ?s) = [] \<and> ag_sessions ?s = Map.empty"
    by (simp add: agent_state_new_def world0_def)
  ultimately show ?thesis using run_agent_guarded [OF _ run] by (auto simp: duo_callers run)
qed

theorem chat_sessions_shared_witness:
  "\<exists>out1 t out2 u prompt.
     chat duo_lib duo_server (Some ''Bearer h.acme.key'') ''1'' ''launch on May 4'' [] 
       (agent_state_new duo_config Map.empty) = (Inr out1, t) \<and>
     chat duo_lib duo_server (Some ''Bearer h.rival.key'') ''1'' ''hi'' [] t = (Inr out2, u) \<and>
     C_Think prompt \<in> set (trail (ag_world u)) \<and> sublist ''launch on May 4'' prompt"
proof -
  let ?s = "agent_state_new duo_config Map.empty :: docs agent_state"
  obtain out1 t where t: "chat duo_lib duo_server (Some ''Bearer h.acme.key'') ''1'' ''launch on May 4'' [] ?s = (Inr out1, t)"
    using chat_answered [OF duo_callers(1) duo_generates duo_model] by blast
  obtain out2 u where u: "chat duo_lib duo_server (Some ''Bearer h.rival.key'') ''1'' ''hi'' [] t = (Inr out2, u)"
    using chat_answered [OF duo_callers(2) duo_generates duo_model] by blast
  have s: "?s = fold (serve_rpc duo_lib duo_server) [] (agent_state_new duo_config Map.empty)" by simp
  from chat_sessions_shared [OF duo_server_def s t u] show ?thesis
    using t u by auto
qed

section \<open>Who a server lets in\<close>

lemma from_config_authenticator:
  "as_authenticator (from_config L H connect host cfg) =
    (if cf_sso_enabled cfg then Hs256_Authenticator (cf_sso_secret cfg) (cf_sso_issuer cfg) (cf_sso_client_id cfg)
     else Noop_Authenticator (config_principal cfg))"
  by (simp add: from_config_def Let_def)

text \<open>
  C12: switching single sign-on on protects nothing until a secret is set, and loading the
  configuration does not ask for one.  In every environment that enables it and sets no secret (or an
  empty one), a token anybody mints under the empty key makes its bearer any user of any tenant with any
  permissions it names, if it names the issuer and the audience that are pinned, where any is.  In every
  environment that does not enable it no token is asked for at all: every request, whatever its
  header, acts as the configured user of the configured tenant with the configured permissions, by
  default the administrator with all six.
\<close>

theorem empty_secret_forgeable:
  assumes base64: "base64_laws (al_jwt L)"
    and json: "jw_read (al_jwt L) (jw_write (al_jwt L) (claims_json c)) = Inr (claims_json c)"
    and fresh: "cl_exp c = None"
    and header: "al_header_str L hdr = Some text"
    and bearer: "extract_bearer (Some text) = Some (mint_hs256_token (al_jwt L) [] (cl_tenant_id c)
           (cl_user_id c) (cl_perm_mask c) (cl_exp c) (cl_iss c) (cl_aud c))"
    and on: "env_map vars ''SSO_ENABLED'' = Some v" "parse_bool v False"
    and secret: "env_map vars ''SSO_SECRET'' \<in> {None, Some []}"
    and pins: "pinned (case env_map vars ''SSO_ISSUER'' of None \<Rightarrow> [] | Some i \<Rightarrow> i) (cl_iss c)"
      "pinned (case env_map vars ''SSO_CLIENT_ID'' of None \<Rightarrow> [] | Some i \<Rightarrow> i) (cl_aud c)"
    and off: "case env_map vars' ''SSO_ENABLED'' of None \<Rightarrow> True | Some v' \<Rightarrow> \<not> parse_bool v' False"
  shows "caller L (from_config L H connect host (from_env vars)) (Some hdr) s =
      Inr (principal_from_mask (cl_tenant_id c) (cl_user_id c) (cl_perm_mask c)) \<and>
    caller L (from_config L H connect host (from_env vars')) h s =
      Inr (principal_from_mask (case env_map vars' ''TENANT_ID'' of None \<Rightarrow> ''single'' | Some t \<Rightarrow> t)
        (case env_map vars' ''USER_ID'' of None \<Rightarrow> ''admin'' | Some u \<Rightarrow> u)
        (case env_map vars' ''PERM_MASK'' of None \<Rightarrow> 63 | Some m \<Rightarrow> parse_mask m))"
proof
  have "\<not> expired now c" for now using fresh by (simp add: expired_def)
  note ok = minted_verifies [OF base64 json this, of _ "[]"]
  have "cf_sso_secret (from_env vars) = []" using secret by (auto simp: from_env_def)
  moreover have "cf_sso_enabled (from_env vars)" using on by (simp add: from_env_def)
  moreover have "pinned (cf_sso_issuer (from_env vars)) (cl_iss c)" "pinned (cf_sso_client_id (from_env vars)) (cl_aud c)"
    using pins by (simp_all add: from_env_def)
  ultimately show "caller L (from_config L H connect host (from_env vars)) (Some hdr) s =
      Inr (principal_from_mask (cl_tenant_id c) (cl_user_id c) (cl_perm_mask c))"
    using header bearer ok by (simp add: caller_def from_config_authenticator)
  have "\<not> cf_sso_enabled (from_env vars')" using off by (auto simp: from_env_def split: option.splits)
  then show "caller L (from_config L H connect host (from_env vars')) h s =
      Inr (principal_from_mask (case env_map vars' ''TENANT_ID'' of None \<Rightarrow> ''single'' | Some t \<Rightarrow> t)
        (case env_map vars' ''USER_ID'' of None \<Rightarrow> ''admin'' | Some u \<Rightarrow> u)
        (case env_map vars' ''PERM_MASK'' of None \<Rightarrow> 63 | Some m \<Rightarrow> parse_mask m))"
    by (simp add: caller_def from_config_authenticator config_principal_def from_env_def)
qed

definition root_claims :: hs_claims where
  "root_claims = claims_default\<lparr>cl_tenant_id := ''bank'', cl_user_id := ''root'', cl_perm_mask := 63\<rparr>"

lemma root_fields [simp]:
  "cl_tenant_id root_claims = ''bank''" "cl_user_id root_claims = ''root''" "cl_perm_mask root_claims = 63"
  "cl_exp root_claims = None" "cl_iss root_claims = None" "cl_aud root_claims = None"
  by (simp_all add: root_claims_def claims_default_def)

definition open_jwt :: jwt_lib where
  "open_jwt = demo_jwt\<lparr>jw_hmac := (\<lambda>k m. k), jw_write := (\<lambda>j. if j = claims_json root_claims then ''r'' else []),
     jw_read := (\<lambda>s. if s = ''r'' then Inr (claims_json root_claims) else Inl ''EOF'')\<rparr>"

definition forged :: str where
  "forged = mint_hs256_token open_jwt [] ''bank'' ''root'' 63 None None None"

lemma forged_bearer: "extract_bearer (Some (''Bearer '' @ forged)) = Some forged"
  by code_simp

definition sso_env :: "(str \<times> str) list" where
  "sso_env = [(''AIDEA_SSO_ENABLED'', ''true''), (''AIDEA_TENANT_ID'', ''acme'')]"

lemma sso_env_map:
  "env_map sso_env ''SSO_ENABLED'' = Some ''true''" "env_map sso_env ''SSO_SECRET'' = None"
  "env_map sso_env ''SSO_ISSUER'' = None" "env_map sso_env ''SSO_CLIENT_ID'' = None"
  "parse_bool ''true'' False"
  by code_simp+

lemma mask_env_map:
  "env_map [(''AIDEA_PERM_MASK'', ''1'')] ''SSO_ENABLED'' = None"
  "env_map [(''AIDEA_PERM_MASK'', ''1'')] ''TENANT_ID'' = None"
  "env_map [(''AIDEA_PERM_MASK'', ''1'')] ''USER_ID'' = None"
  "env_map [(''AIDEA_PERM_MASK'', ''1'')] ''PERM_MASK'' = Some ''1''"
  by code_simp+

lemma parse_mask_one: "parse_mask ''1'' = 1"
proof -
  have "trim ''1'' = show_nat 1" by code_simp
  then have "parse_uint 32 (trim ''1'') = Some 1" using parse_show_nat [of 1 32] by simp
  then show ?thesis by (simp add: parse_mask_def)
qed

theorem empty_secret_forgeable_witness:
  "let lib = duo_lib\<lparr>al_jwt := open_jwt\<rparr>;
       server = (\<lambda>vars. from_config lib duo_http (\<lambda>_ _. Inl []) cli_host (from_env vars))
   in caller lib (server sso_env) (Some (''Bearer '' @ forged)) (agent_state_new core_config_default Map.empty) =
        Inr (principal_from_mask ''bank'' ''root'' 63) \<and>
      caller lib (server [(''AIDEA_PERM_MASK'', ''1'')]) None (agent_state_new core_config_default Map.empty) =
        Inr (principal_from_mask ''single'' ''admin'' 1)"
proof -
  have "base64_laws open_jwt" using demo_base64 by (simp add: base64_laws_def open_jwt_def)
  moreover have "jw_read open_jwt (jw_write open_jwt (claims_json root_claims)) = Inr (claims_json root_claims)"
    by (simp add: open_jwt_def)
  ultimately show ?thesis
    using empty_secret_forgeable [of "duo_lib\<lparr>al_jwt := open_jwt\<rparr>" root_claims "''Bearer '' @ forged"
        "''Bearer '' @ forged" sso_env "''true''" "[(''AIDEA_PERM_MASK'', ''1'')]" duo_http "\<lambda>_ _. Inl []"
        cli_host "agent_state_new core_config_default Map.empty" None]
      forged_bearer
    by (simp add: duo_lib_def forged_def sso_env_map mask_env_map parse_mask_one pinned_def)
qed

end
