(* ===== verification/Admin.thy ===== *)
theory Admin
  imports Agent
begin

text \<open>
  The admin listener (crates/core/src/admin.rs) and the gRPC health probe (health.rs): the routes,
  the console snapshot, and the answer to one connection as a function of the bytes of its first
  read.  Sockets and serde's text of a JSON value are not modelled; the latter is the parameter
  \<open>json_text\<close>.
\<close>

section \<open>Bytes as text\<close>

text \<open>
  \<open>String::from_utf8_lossy\<close>: every longest prefix of an ill-formed character becomes one U+FFFD.
\<close>

definition byte_in :: "nat \<Rightarrow> nat \<Rightarrow> char \<Rightarrow> bool" where
  "byte_in lo hi c \<longleftrightarrow> lo \<le> of_char c \<and> of_char c \<le> hi"

definition replacement :: str where
  "replacement = [CHR 0xEF, CHR 0xBF, CHR 0xBD]"

text \<open>Which second byte may follow the first byte of a character of three or four bytes.\<close>

definition second_ok :: "char \<Rightarrow> char \<Rightarrow> bool" where
  "second_ok b c \<longleftrightarrow>
     (if b = CHR 0xE0 then byte_in 160 191 c
      else if b = CHR 0xED then byte_in 128 159 c
      else if b = CHR 0xF0 then byte_in 144 191 c
      else if b = CHR 0xF4 then byte_in 128 143 c
      else byte_in 128 191 c)"

text \<open>What comes out for the bytes at a position, and how many bytes after the first are consumed.\<close>

definition utf8_step :: "char \<Rightarrow> str \<Rightarrow> str \<times> nat" where
  "utf8_step b bs =
     (if byte_in 0 127 b then ([b], 0)
      else if byte_in 194 223 b then
        (case bs of c # _ \<Rightarrow> if byte_in 128 191 c then ([b, c], 1) else (replacement, 0)
         | [] \<Rightarrow> (replacement, 0))
      else if byte_in 224 239 b then
        (case bs of
           [] \<Rightarrow> (replacement, 0)
         | c # r \<Rightarrow> if \<not> second_ok b c then (replacement, 0)
             else (case r of d # _ \<Rightarrow> if byte_in 128 191 d then ([b, c, d], 2) else (replacement, 1)
                   | [] \<Rightarrow> (replacement, 1)))
      else if byte_in 240 244 b then
        (case bs of
           [] \<Rightarrow> (replacement, 0)
         | c # r \<Rightarrow> if \<not> second_ok b c then (replacement, 0)
             else (case r of
                 [] \<Rightarrow> (replacement, 1)
               | d # q \<Rightarrow> if \<not> byte_in 128 191 d then (replacement, 1)
                   else (case q of e # _ \<Rightarrow> if byte_in 128 191 e then ([b, c, d, e], 3) else (replacement, 2)
                         | [] \<Rightarrow> (replacement, 2))))
      else (replacement, 0))"

function from_utf8_lossy :: "str \<Rightarrow> str" where
  "from_utf8_lossy [] = []"
| "from_utf8_lossy (b # bs) = fst (utf8_step b bs) @ from_utf8_lossy (drop (snd (utf8_step b bs)) bs)"
  by pat_completeness auto

termination
  by (relation "measure length") auto

section \<open>Routes\<close>

datatype admin_route = AR_Metrics | AR_Healthz | AR_Console | AR_NotFound

definition route_admin :: "str \<Rightarrow> admin_route" where
  "route_admin path0 =
     (let path = hd (split_by (\<lambda>c. c = CHR ''?'' \<or> c = CHR ''#'') path0) in
      if path = ''/metrics'' then AR_Metrics
      else if path = ''/healthz'' then AR_Healthz
      else if path = ''/console'' then AR_Console
      else AR_NotFound)"

definition render_admin :: "admin_route \<Rightarrow> metrics \<Rightarrow> nat \<times> str" where
  "render_admin route m = (case route of
       AR_Metrics \<Rightarrow> (200, render_prometheus m)
     | AR_Healthz \<Rightarrow> (200, ''ok'' @ [CHR 0x0A])
     | AR_Console \<Rightarrow> (200, [])
     | AR_NotFound \<Rightarrow> (404, ''not found'' @ [CHR 0x0A]))"

section \<open>The console\<close>

record console_status_r =
  co_tenant_id :: str
  co_user_id :: str
  co_perm_mask :: "32 word"
  co_audit_events :: u64
  co_requests :: u64
  co_tool_calls :: u64
  co_llm_calls :: u64
  co_completions :: u64
  co_denials :: u64
  co_request_p95_ms :: rat

text \<open>\<open>{:.1}\<close>: the nearest tenth, the even one when two are nearest.\<close>

definition show_tenths :: "rat \<Rightarrow> str" where
  "show_tenths x =
     (let y = x * 10; k = \<lfloor>y\<rfloor>; d = y - of_int k;
          n = (if d < 1 / 2 \<or> d = 1 / 2 \<and> even k then k else k + 1)
      in show_nat (nat n div 10) @ ''.'' @ show_nat (nat n mod 10))"

definition u64_json :: "u64 \<Rightarrow> json" where
  "u64_json n = JNum (int (unat n))"

text \<open>\<open>serde_json\<close> keeps the fields of \<open>json!\<close> objects in alphabetical order.\<close>

definition console_json :: "console_status_r \<Rightarrow> json" where
  "console_json st = JObj [
     (''audit_events'', u64_json (co_audit_events st)),
     (''metrics'', JObj [
        (''completions'', u64_json (co_completions st)),
        (''denials'', u64_json (co_denials st)),
        (''llm_calls'', u64_json (co_llm_calls st)),
        (''request_p95_ms'', JReal (co_request_p95_ms st)),
        (''requests'', u64_json (co_requests st)),
        (''tool_calls'', u64_json (co_tool_calls st))]),
     (''perm_mask'', JNum (int (unat (co_perm_mask st)))),
     (''permissions'', JStr (join_with '', '' (ps_labels (ps_from_mask (co_perm_mask st))))),
     (''tenant_id'', JStr (co_tenant_id st)),
     (''user_id'', JStr (co_user_id st))]"

definition console_line :: "str \<Rightarrow> str \<Rightarrow> str" where
  "console_line name v = name @ v @ [CHR 0x0A]"

definition render_console :: "(json \<Rightarrow> str) \<Rightarrow> console_status_r \<Rightarrow> str" where
  "render_console json_text st =
     console_line ''=== Agentic IDE Enterprise Console ==='' [] @
     console_line ''tenant:        '' (co_tenant_id st) @
     console_line ''user:          '' (co_user_id st) @
     console_line ''perm_mask:     '' (show_nat (unat (co_perm_mask st)) @ '' ('' @
       join_with '', '' (ps_labels (ps_from_mask (co_perm_mask st))) @ '')'') @
     console_line ''audit_events:  '' (show_nat (unat (co_audit_events st))) @
     console_line ''requests:      '' (show_nat (unat (co_requests st))) @
     console_line ''tool_calls:    '' (show_nat (unat (co_tool_calls st))) @
     console_line ''llm_calls:     '' (show_nat (unat (co_llm_calls st))) @
     console_line ''completions:   '' (show_nat (unat (co_completions st))) @
     console_line ''denials:       '' (show_nat (unat (co_denials st))) @
     console_line ''request_p95:   '' (show_tenths (co_request_p95_ms st) @ '' ms'') @
     console_line ''--- json ---'' [] @
     console_line (json_text (console_json st)) []"

record admin_console =
  ac_principal :: principal
  ac_metrics :: metrics

definition console_status :: "admin_console \<Rightarrow> console_status_r" where
  "console_status con = \<lparr>
     co_tenant_id = tenant_id (ac_principal con),
     co_user_id = user_id (ac_principal con),
     co_perm_mask = perm_mask (ac_principal con),
     co_audit_events = audit_events_total (ac_metrics con),
     co_requests = requests_total (ac_metrics con),
     co_tool_calls = tool_calls_total (ac_metrics con),
     co_llm_calls = llm_calls_total (ac_metrics con),
     co_completions = completions_total (ac_metrics con),
     co_denials = denials_total (ac_metrics con),
     co_request_p95_ms = p95_ms (request_latency (ac_metrics con))\<rparr>"

text \<open>The console of a server: its own principal and the live counters (server.rs).\<close>

definition server_console :: "'w agent_server \<Rightarrow> 'w agent_state \<Rightarrow> admin_console" where
  "server_console sv s = \<lparr>ac_principal = as_principal sv, ac_metrics = w_metrics (ag_world s)\<rparr>"

section \<open>Connections\<close>

definition crlf :: str where
  "crlf = [CHR 0x0D, CHR 0x0A]"

definition http_head :: "str \<Rightarrow> nat \<Rightarrow> str" where
  "http_head status n = ''HTTP/1.1 '' @ status @ crlf @ ''Content-Type: text/plain; charset=utf-8'' @ crlf @
     ''Content-Length: '' @ show_nat n @ crlf @ ''Connection: close'' @ crlf @ crlf"

definition http_response :: "admin_route \<Rightarrow> metrics \<Rightarrow> str" where
  "http_response route m =
     (case render_admin route m of (status, body) \<Rightarrow>
        http_head (show_nat status @ '' '' @ (if status = 200 then ''OK'' else ''Not Found'')) (length body) @ body)"

definition http_response_console :: "(json \<Rightarrow> str) \<Rightarrow> console_status_r \<Rightarrow> str" where
  "http_response_console json_text st =
     (let body = render_console json_text st in http_head ''200 OK'' (length body) @ body)"

definition requested_path :: "str \<Rightarrow> str" where
  "requested_path req =
     (case str_lines req of
        [] \<Rightarrow> ''/''
      | line # _ \<Rightarrow> (case split_whitespace line of _ # p # _ \<Rightarrow> p | _ \<Rightarrow> ''/''))"

text \<open>
  One connection: the first read fails, or gives at most 2048 bytes, none at the end of the
  stream.  The result is what is written back, if anything.
\<close>

definition handle_conn :: "(json \<Rightarrow> str) \<Rightarrow> admin_console \<Rightarrow> str + str \<Rightarrow> str + str option" where
  "handle_conn json_text con received =
     (case received of
        Inl e \<Rightarrow> Inl e
      | Inr sent \<Rightarrow>
          let buf = take 2048 sent in
          if buf = [] then Inr None
          else
            let route = route_admin (requested_path (from_utf8_lossy buf)) in
            Inr (Some (if route = AR_Console then http_response_console json_text (console_status con)
                       else http_response route (ac_metrics con))))"

section \<open>The health probe (health.rs)\<close>

record health_response =
  hr_status :: str
  hr_detail :: str

definition health_check :: health_response where
  "health_check = \<lparr>hr_status = ''SERVING'', hr_detail = ''ok''\<rparr>"

section \<open>Reading a request line\<close>

definition visible :: "char \<Rightarrow> bool" where
  "visible c \<longleftrightarrow> byte_in 33 126 c"

lemma ascii_not_cont: "byte_in 0 127 c \<Longrightarrow> \<not> is_cont c"
  by (cases c) (auto simp: byte_in_def is_cont_def of_char_def split: if_splits)

lemma visible_ascii: "visible c \<Longrightarrow> byte_in 0 127 c"
  by (simp add: visible_def byte_in_def)

lemma lossy_ascii: "list_all (byte_in 0 127) a \<Longrightarrow> from_utf8_lossy (a @ b) = a @ from_utf8_lossy b"
  by (induction a) (simp_all add: utf8_step_def)

lemma chars_ascii: "list_all (byte_in 0 127) a \<Longrightarrow> chars a = map (\<lambda>c. [c]) a"
proof (induction a)
  case (Cons c cs)
  have "takeWhile is_cont cs = [] \<and> dropWhile is_cont cs = cs"
    using Cons.prems by (cases cs) (auto dest: ascii_not_cont)
  with Cons show ?case by simp
qed simp

lemma visible_no_ws: "visible c \<Longrightarrow> \<not> is_whitespace [c]"
  by (auto simp: visible_def byte_in_def is_whitespace_def white_space_def)

lemma space_ws: "is_whitespace [CHR '' '']"
  by (simp add: is_whitespace_def white_space_def)

lemma ws_words_visible:
  assumes "list_all visible w" and "w \<noteq> []"
  shows "ws_words (map (\<lambda>c. [c]) w @ [CHR '' ''] # cs) = w # ws_words cs"
    and "ws_words (map (\<lambda>c. [c]) w) = [w]"
proof -
  obtain c u where w: "w = c # u" using assms(2) by (cases w) auto
  have u: "list_all (\<lambda>x. \<not> is_whitespace x) (map (\<lambda>c. [c]) u)" and c: "\<not> is_whitespace [c]"
    using assms(1) visible_no_ws by (auto simp: w list_all_iff)
  have flat: "concat (map (\<lambda>c. [c]) u) = u" by (induction u) auto
  have "takeWhile (\<lambda>x. \<not> is_whitespace x) (map (\<lambda>c. [c]) u @ [CHR '' ''] # cs) = map (\<lambda>c. [c]) u"
    "dropWhile (\<lambda>x. \<not> is_whitespace x) (map (\<lambda>c. [c]) u @ [CHR '' ''] # cs) = [CHR '' ''] # cs"
    by (subst takeWhile_append2 dropWhile_append2; use u space_ws in \<open>auto simp: list_all_iff\<close>)+
  then show "ws_words (map (\<lambda>c. [c]) w @ [CHR '' ''] # cs) = w # ws_words cs"
    using c by (simp add: w space_ws flat)
  show "ws_words (map (\<lambda>c. [c]) w) = [w]"
    using u c by (simp add: w list_all_iff takeWhile_eq_all_conv [THEN iffD2] dropWhile_eq_Nil_conv [THEN iffD2] flat)
qed

lemma split_whitespace_line:
  assumes "list_all visible m" "m \<noteq> []" "list_all visible p" "p \<noteq> []" "list_all visible v" "v \<noteq> []"
  shows "split_whitespace (m @ '' '' @ p @ '' '' @ v) = [m, p, v]"
proof -
  have "list_all (byte_in 0 127) (m @ '' '' @ p @ '' '' @ v)"
    using assms visible_ascii by (auto simp: list_all_iff byte_in_def)
  then show ?thesis
    using ws_words_visible [OF assms(1,2)] ws_words_visible [OF assms(3,4)] ws_words_visible [OF assms(5,6)]
    by (simp add: split_whitespace_def chars_ascii)
qed

lemma split_inclusive_line:
  "c \<notin> set l \<Longrightarrow> split_inclusive c (l @ c # r) = (l @ [c]) # split_inclusive c r"
  by (induction l) auto

lemma chomp_crlf: "chomp (l @ [CHR 0x0D, CHR 0x0A]) = l"
  by (simp add: chomp_def strip_suffix_def ends_with_def starts_with_def)

lemma str_lines_crlf:
  assumes "CHR 0x0A \<notin> set l"
  shows "str_lines (l @ crlf @ r) = l # str_lines r"
  using split_inclusive_line [of "CHR 0x0A" "l @ [CHR 0x0D]" r] assms chomp_crlf [of l]
  by (simp add: str_lines_def crlf_def)

lemma hd_split_by: "hd (split_by P s) = takeWhile (\<lambda>c. \<not> P c) s"
  by (induction s) (auto split: list.splits)

definition route_of :: "str \<Rightarrow> str" where
  "route_of path = takeWhile (\<lambda>c. c \<noteq> CHR ''?'' \<and> c \<noteq> CHR ''#'') path"

lemma requested_path_line:
  assumes "list_all visible m" "m \<noteq> []" "list_all visible p" "p \<noteq> []"
    and "length (m @ '' '' @ p @ '' HTTP/1.1'' @ crlf) \<le> 2048"
  shows "requested_path (from_utf8_lossy (take 2048 (m @ '' '' @ p @ '' HTTP/1.1'' @ crlf @ rest))) = p"
proof -
  let ?l = "m @ '' '' @ p @ '' '' @ ''HTTP/1.1''"
  have v: "list_all visible ''HTTP/1.1''" by code_simp
  have ascii: "list_all (byte_in 0 127) (?l @ crlf)"
    using assms(1,3) visible_ascii by (auto simp: list_all_iff byte_in_def crlf_def)
  have nl: "CHR 0x0A \<notin> set ?l"
    using assms(1,3) by (auto simp: list_all_iff visible_def byte_in_def)
  have "take 2048 ((?l @ crlf) @ rest) = (?l @ crlf) @ take (2048 - length (?l @ crlf)) rest"
    using assms(5) by (simp only: take_append) simp
  then have "from_utf8_lossy (take 2048 ((?l @ crlf) @ rest)) =
      ?l @ crlf @ from_utf8_lossy (take (2048 - length (?l @ crlf)) rest)"
    using lossy_ascii [OF ascii] by simp
  then have "str_lines (from_utf8_lossy (take 2048 ((?l @ crlf) @ rest))) =
      ?l # str_lines (from_utf8_lossy (take (2048 - length (?l @ crlf)) rest))"
    using str_lines_crlf [OF nl] by simp
  then show ?thesis
    using split_whitespace_line [OF assms(1-4) v] by (simp add: requested_path_def)
qed

text \<open>
  The admin listener answers by the path alone: to any request whose first line is a method, a
  target and the protocol, in the first 2048 bytes, whatever follows, it sends the metrics, the
  liveness text or the console for exactly these three paths, a query or fragment being ignored,
  and 404 for every other path; each answer announces the exact length of its body.
\<close>

theorem admin_serves:
  assumes "list_all visible m" "m \<noteq> []" "list_all visible p" "p \<noteq> []"
    and "length (m @ '' '' @ p @ '' HTTP/1.1'' @ crlf) \<le> 2048"
  shows "handle_conn jt con (Inr (m @ '' '' @ p @ '' HTTP/1.1'' @ crlf @ rest)) =
    Inr (Some (let body = (if route_of p = ''/metrics'' then render_prometheus (ac_metrics con)
                   else if route_of p = ''/healthz'' then ''ok'' @ [CHR 0x0A]
                   else if route_of p = ''/console'' then render_console jt (console_status con)
                   else ''not found'' @ [CHR 0x0A])
      in http_head (if route_of p \<in> {''/metrics'', ''/healthz'', ''/console''} then ''200 OK'' else ''404 Not Found'')
           (length body) @ body))"
proof -
  have ne: "take 2048 (m @ '' '' @ p @ '' HTTP/1.1'' @ crlf @ rest) \<noteq> []"
    using assms(2) by (cases m) auto
  have n: "show_nat 200 = ''200''" "show_nat 404 = ''404''" by code_simp+
  have r: "hd (split_by (\<lambda>c. c = CHR ''?'' \<or> c = CHR ''#'') p) = route_of p"
    by (simp add: hd_split_by route_of_def)
  show ?thesis
    unfolding handle_conn_def sum.case Let_def requested_path_line [OF assms] route_admin_def r
    using ne by (simp add: http_response_def http_response_console_def render_admin_def n Let_def)
qed

theorem admin_serves_witness:
  "handle_conn (\<lambda>_. []) \<lparr>ac_principal = principal_all ''single'' ''core'', ac_metrics = metrics_new\<rparr>
     (Inr (''GET /healthz?x=1 HTTP/1.1'' @ crlf @ ''Host: a'')) =
   Inr (Some (http_head ''200 OK'' 3 @ ''ok'' @ [CHR 0x0A]))"
proof -
  have "list_all visible ''GET''" "list_all visible ''/healthz?x=1''" by code_simp+
  from admin_serves [OF this(1) _ this(2), of "\<lambda>_. []" "\<lparr>ac_principal = principal_all ''single'' ''core'', ac_metrics = metrics_new\<rparr>" "''Host: a''"]
  show ?thesis by (simp add: route_of_def crlf_def eval_nat_numeral)
qed

section \<open>What the console shows\<close>

lemma configured_principal:
  "tenant_id (as_principal (from_config L H connect host cfg)) = cf_tenant_id cfg"
  "user_id (as_principal (from_config L H connect host cfg)) = cf_user_id cfg"
  by (simp_all add: from_config_def Let_def config_principal_def principal_from_mask_def principal_new_def)

text \<open>
  Over every history of a configured server the console shows the counters of the work done:
  all requests handled, all audit records made, all tools run, and the principal of the
  configuration; but the request latency it shows is always zero, since nothing ever records one.
\<close>

theorem console_shows:
  "let sv = from_config L H connect host cfg;
       s = fold (serve_rpc L sv) rpcs (agent_state_new cfg w);
       st = console_status (server_console sv s)
   in co_requests st = of_nat (length (filter is_request rpcs)) \<and>
      co_audit_events st = of_nat (length (filter is_audit (trail (ag_world s)))) \<and>
      co_tool_calls st = of_nat (length (filter is_tool (trail (ag_world s)))) \<and>
      co_tenant_id st = cf_tenant_id cfg \<and> co_user_id st = cf_user_id cfg \<and>
      co_request_p95_ms st = 0"
  using server_history [of rpcs L H connect host cfg w] unfolding server_inv_def
  by (auto simp: Let_def console_status_def server_console_def tally_def p95_ms_def
      histogram_new_def configured_principal)

end
