(* ===== verification/Ckg.thy ===== *)
theory Ckg
  imports Complex_Main Context_Manager "HOL-Library.List_Lexorder" "HOL-Library.Word" "HOL-Library.Multiset"
begin

text \<open>
  The code knowledge graph (crates/core/src/ckg.rs), the retrieval over it (retrieval.rs) and the
  enrichment of a context by it (context_manager.rs).  Which non-ASCII characters are alphanumeric
  is Unicode's table, here the parameter \<open>uni\<close>; the embedding and the similarity are parameters of
  the ranking, and the theory Embedding has the ones of the code.
\<close>

section \<open>The graph\<close>

datatype symbol_kind = SK_Mod | SK_Fn | SK_Struct | SK_Impl | SK_Trait

primrec symbol_kind_str :: "symbol_kind \<Rightarrow> str" where
  "symbol_kind_str SK_Mod = ''Mod''"
| "symbol_kind_str SK_Fn = ''Fn''"
| "symbol_kind_str SK_Struct = ''Struct''"
| "symbol_kind_str SK_Impl = ''Impl''"
| "symbol_kind_str SK_Trait = ''Trait''"

record symbol =
  sy_kind :: symbol_kind
  sy_name :: str
  sy_file :: str
  sy_line :: nat
  sy_doc :: str

datatype edge_kind = EK_Calls | EK_Defines | EK_Imports | EK_Contains

primrec edge_kind_str :: "edge_kind \<Rightarrow> str" where
  "edge_kind_str EK_Calls = ''Calls''"
| "edge_kind_str EK_Defines = ''Defines''"
| "edge_kind_str EK_Imports = ''Imports''"
| "edge_kind_str EK_Contains = ''Contains''"

record edge =
  ed_from :: str
  ed_to :: str
  ed_kind :: edge_kind
  ed_file :: str
  ed_line :: nat

record related_symbol =
  rs_symbol :: symbol
  rs_relation :: edge_kind
  rs_file :: str
  rs_line :: nat

section \<open>Scanning a line\<close>

definition is_ident_start :: "char \<Rightarrow> bool" where
  "is_ident_start b \<longleftrightarrow> CHR ''a'' \<le> b \<and> b \<le> CHR ''z'' \<or> CHR ''A'' \<le> b \<and> b \<le> CHR ''Z'' \<or> b = CHR ''_''"

definition is_ident_continue :: "char \<Rightarrow> bool" where
  "is_ident_continue b \<longleftrightarrow> is_ident_start b \<or> is_digit b"

text \<open>\<open>c.is_alphanumeric() || c == '_'\<close>\<close>

definition ident_char :: "(str \<Rightarrow> bool) \<Rightarrow> str \<Rightarrow> bool" where
  "ident_char uni c = (case c of [b] \<Rightarrow> is_ident_continue b | _ \<Rightarrow> uni c)"

definition ident_prefix :: "(str \<Rightarrow> bool) \<Rightarrow> str \<Rightarrow> str" where
  "ident_prefix uni s = concat (takeWhile (ident_char uni) (chars s))"

definition before_ok :: "char \<Rightarrow> bool" where
  "before_ok c \<longleftrightarrow> c = CHR '' '' \<or> c = CHR 0x09 \<or> c = CHR ''('' \<or> c = CHR 0x0A"

definition after_ok :: "char \<Rightarrow> bool" where
  "after_ok c \<longleftrightarrow> c = CHR '' '' \<or> c = CHR 0x09 \<or> c = CHR ''<'' \<or> c = CHR ''(''"

lemma starts_with_length: "starts_with s p \<Longrightarrow> length p \<le> length s"
  unfolding starts_with_def by (metis length_take min.cobounded1)

lemma find_str_bound: "find_str p s = Some i \<Longrightarrow> i + length p \<le> length s"
  by (induction p s arbitrary: i rule: find_str.induct)
    (auto split: if_splits dest: starts_with_length)

lemma search_advances:
  assumes "find_str kw (drop pos line) = Some p" and "kw \<noteq> []"
  shows "length line - (pos + p + length kw) < length line - pos"
proof -
  have "p + length kw \<le> length line - pos" "0 < length kw"
    using find_str_bound [OF assms(1)] assms(2) by auto
  then show ?thesis by linarith
qed

text \<open>The loop of \<open>decl_name\<close> from the position \<open>pos\<close>; a keyword is not empty.\<close>

function decl_name_at :: "(str \<Rightarrow> bool) \<Rightarrow> str \<Rightarrow> str \<Rightarrow> nat \<Rightarrow> str option" where
  "decl_name_at uni line kw pos =
     (case find_str kw (drop pos line) of
        None \<Rightarrow> None
      | Some p \<Rightarrow>
          if kw = [] then None
          else if 0 < pos + p \<and> \<not> before_ok (line ! (pos + p - 1))
          then decl_name_at uni line kw (pos + p + length kw)
          else if pos + p + length kw < length line \<and> \<not> after_ok (line ! (pos + p + length kw))
          then decl_name_at uni line kw (pos + p + length kw)
          else
            let rest = drop (pos + p + length kw) line;
                rest = (case strip_prefix ''<'' rest of Some r \<Rightarrow> r | None \<Rightarrow> rest);
                ident = ident_prefix uni (trim_start rest)
            in if ident = [] then None else Some ident)"
  by pat_completeness auto

termination
  by (relation "measure (\<lambda>(uni, line, kw, pos). length line - pos)")
    (auto dest: search_advances)

declare decl_name_at.simps [simp del]

definition decl_name :: "(str \<Rightarrow> bool) \<Rightarrow> str \<Rightarrow> str \<Rightarrow> str option" where
  "decl_name uni line kw = decl_name_at uni line kw 0"

definition is_keyword :: "str \<Rightarrow> bool" where
  "is_keyword w \<longleftrightarrow> w \<in> set [''if'', ''for'', ''while'', ''loop'', ''match'', ''return'', ''let'', ''fn'',
     ''struct'', ''impl'', ''trait'', ''mod'', ''use'', ''const'', ''static'', ''async'', ''await'', ''move'',
     ''ref'', ''where'', ''as'', ''unsafe'', ''mut'', ''pub'', ''self'', ''Self'', ''crate'', ''super'', ''dyn'',
     ''enum'', ''type'', ''in'', ''do'', ''else'', ''break'', ''continue'', ''true'', ''false'']"

function collect_calls :: "str \<Rightarrow> str list" where
  "collect_calls [] = []"
| "collect_calls (b # bs) =
     (if is_ident_start b then
        let rest = dropWhile is_ident_continue bs in
        (case dropWhile (\<lambda>c. c = CHR '' '' \<or> c = CHR 0x09) rest of
           [] \<Rightarrow> []
         | c # _ \<Rightarrow> if c = CHR ''('' then [b # takeWhile is_ident_continue bs] else []) @
        collect_calls rest
      else collect_calls bs)"
  by pat_completeness auto

termination
  by (relation "measure length") (auto simp: le_imp_less_Suc length_dropWhile_le)

definition after_first :: "char \<Rightarrow> str \<Rightarrow> str option" where
  "after_first c s = (case dropWhile (\<lambda>x. x \<noteq> c) s of [] \<Rightarrow> None | _ # r \<Rightarrow> Some r)"

text \<open>\<open>rsplit("::").next()\<close>: the text after the last occurrence.\<close>

fun last_segment :: "str \<Rightarrow> str \<Rightarrow> str" where
  "last_segment best [] = best"
| "last_segment best (c # cs) =
     last_segment (if starts_with (c # cs) ''::'' then drop 2 (c # cs) else best) cs"

definition use_name :: "str \<Rightarrow> str option" where
  "use_name part =
     (let p = trim part in
      if p = [] then None
      else let name = trim (case split_whitespace p of [] \<Rightarrow> p | w # _ \<Rightarrow> w) in
           if name = [] then None else Some name)"

definition parse_use_targets :: "str \<Rightarrow> str list" where
  "parse_use_targets line =
     (let body = (case strip_prefix ''use '' (trim line) of Some b \<Rightarrow> b | None \<Rightarrow> trim line);
          body = trim (case strip_suffix '';'' body of Some b \<Rightarrow> b | None \<Rightarrow> body)
      in case after_first (CHR ''{'') body of
           Some r \<Rightarrow>
             List.map_filter use_name (split_on (CHR '','') (takeWhile (\<lambda>c. c \<noteq> CHR ''}'') r))
         | None \<Rightarrow> (let seg = trim (last_segment body body) in if seg = [] then [] else [seg]))"

section \<open>Parsing a file\<close>

text \<open>The variables of the loop of \<open>parse_source\<close>.\<close>

record parse_state =
  ps_symbols :: "symbol list"
  ps_edges :: "edge list"
  ps_doc :: str
  ps_fn :: "str option"
  ps_impl :: "str option"

definition impl_name :: "str \<Rightarrow> str" where
  "impl_name t = ''impl '' @ t"

text \<open>The type and the trait of an \<open>impl\<close> line.\<close>

definition impl_header :: "(str \<Rightarrow> bool) \<Rightarrow> str \<Rightarrow> str \<times> str" where
  "impl_header uni raw =
     (case find_str '' for '' raw of
        Some pos \<Rightarrow>
          (ident_prefix uni (trim_start (drop (pos + 5) raw)),
           ident_prefix uni (trim_start
             (case strip_prefix ''impl'' (trim_start (take pos raw)) of Some r \<Rightarrow> r | None \<Rightarrow> [])))
      | None \<Rightarrow> (case decl_name uni raw ''impl'' of Some t \<Rightarrow> t | None \<Rightarrow> [], []))"

definition type_decl :: "(str \<Rightarrow> bool) \<Rightarrow> str \<Rightarrow> (symbol_kind \<times> str) option" where
  "type_decl uni raw =
     (case decl_name uni raw ''struct'' of
        Some n \<Rightarrow> Some (SK_Struct, n)
      | None \<Rightarrow> (case decl_name uni raw ''trait'' of
            Some n \<Rightarrow> Some (SK_Trait, n)
          | None \<Rightarrow> map_option (Pair SK_Mod) (decl_name uni raw ''mod'')))"

definition from_impl :: "parse_state \<Rightarrow> str \<Rightarrow> edge_kind \<Rightarrow> str \<Rightarrow> nat \<Rightarrow> edge list" where
  "from_impl ps name k file lineno = (case ps_impl ps of
       None \<Rightarrow> []
     | Some t \<Rightarrow> [\<lparr>ed_from = impl_name t, ed_to = name, ed_kind = k, ed_file = file, ed_line = lineno\<rparr>])"

definition take_symbol :: "parse_state \<Rightarrow> symbol_kind \<Rightarrow> str \<Rightarrow> str \<Rightarrow> nat \<Rightarrow> symbol list" where
  "take_symbol ps k name file lineno = ps_symbols ps @
     [\<lparr>sy_kind = k, sy_name = name, sy_file = file, sy_line = lineno, sy_doc = ps_doc ps\<rparr>]"

definition parse_doc :: "str \<Rightarrow> parse_state \<Rightarrow> parse_state" where
  "parse_doc d ps = ps\<lparr>ps_doc := ps_doc ps @ (if ps_doc ps = [] then [] else '' '') @ trim d\<rparr>"

definition parse_impl :: "str \<Rightarrow> nat \<Rightarrow> str \<Rightarrow> str \<Rightarrow> parse_state \<Rightarrow> parse_state" where
  "parse_impl file lineno t tr ps = ps\<lparr>
     ps_symbols := take_symbol ps SK_Impl (impl_name t) file lineno, ps_doc := [],
     ps_edges := ps_edges ps @ (if tr = [] then [] else
       [\<lparr>ed_from = impl_name t, ed_to = tr, ed_kind = EK_Defines, ed_file = file, ed_line = lineno\<rparr>]),
     ps_impl := Some t, ps_fn := None\<rparr>"

definition parse_type :: "str \<Rightarrow> nat \<Rightarrow> symbol_kind \<Rightarrow> str \<Rightarrow> parse_state \<Rightarrow> parse_state" where
  "parse_type file lineno k name ps = ps\<lparr>
     ps_symbols := take_symbol ps k name file lineno, ps_doc := [],
     ps_edges := ps_edges ps @ from_impl ps name EK_Defines file lineno, ps_fn := None\<rparr>"

definition parse_fn :: "str \<Rightarrow> nat \<Rightarrow> str \<Rightarrow> parse_state \<Rightarrow> parse_state" where
  "parse_fn file lineno name ps = ps\<lparr>
     ps_symbols := take_symbol ps SK_Fn name file lineno, ps_doc := [],
     ps_edges := ps_edges ps @ from_impl ps name EK_Contains file lineno, ps_fn := Some name\<rparr>"

definition parse_use :: "str \<Rightarrow> nat \<Rightarrow> str \<Rightarrow> parse_state \<Rightarrow> parse_state" where
  "parse_use file lineno raw ps = ps\<lparr>ps_edges := ps_edges ps @
     map (\<lambda>target. \<lparr>ed_from = file, ed_to = target, ed_kind = EK_Imports, ed_file = file, ed_line = lineno\<rparr>)
       (parse_use_targets raw)\<rparr>"

definition parse_calls :: "str \<Rightarrow> nat \<Rightarrow> str \<Rightarrow> parse_state \<Rightarrow> parse_state" where
  "parse_calls file lineno raw ps = (case ps_fn ps of
       None \<Rightarrow> ps
     | Some f \<Rightarrow> ps\<lparr>ps_edges := ps_edges ps @
         map (\<lambda>callee. \<lparr>ed_from = f, ed_to = callee, ed_kind = EK_Calls, ed_file = file, ed_line = lineno\<rparr>)
           (filter (\<lambda>c. \<not> is_keyword c) (collect_calls raw))\<rparr>)"

definition parse_line :: "(str \<Rightarrow> bool) \<Rightarrow> str \<Rightarrow> nat \<Rightarrow> str \<Rightarrow> parse_state \<Rightarrow> parse_state" where
  "parse_line uni file lineno raw ps =
     (case strip_prefix ''///'' (trim_start raw) of
        Some d \<Rightarrow> parse_doc d ps
      | None \<Rightarrow>
          let (t, tr) = impl_header uni raw in
          if starts_with (trim_start raw) ''impl'' \<and> t \<noteq> [] then parse_impl file lineno t tr ps
          else (case type_decl uni raw of
              Some (k, name) \<Rightarrow> parse_type file lineno k name ps
            | None \<Rightarrow> (case decl_name uni raw ''fn'' of
                Some name \<Rightarrow> parse_fn file lineno name ps
              | None \<Rightarrow>
                  if starts_with (trim_start raw) ''use '' then parse_use file lineno raw ps
                  else parse_calls file lineno raw ps)))"

fun parse_lines_from :: "(str \<Rightarrow> bool) \<Rightarrow> str \<Rightarrow> nat \<Rightarrow> str list \<Rightarrow> parse_state \<Rightarrow> parse_state" where
  "parse_lines_from uni file n [] ps = ps"
| "parse_lines_from uni file n (raw # lines) ps =
     parse_lines_from uni file (n + 1) lines (parse_line uni file (n + 1) raw ps)"

definition parse_start :: parse_state where
  "parse_start = \<lparr>ps_symbols = [], ps_edges = [], ps_doc = [], ps_fn = None, ps_impl = None\<rparr>"

definition parse_source :: "(str \<Rightarrow> bool) \<Rightarrow> str \<Rightarrow> str \<Rightarrow> symbol list \<times> edge list" where
  "parse_source uni file content =
     (let ps = parse_lines_from uni file 0 (str_lines content) parse_start
      in (ps_symbols ps, ps_edges ps))"

section \<open>The in-memory graph\<close>

record in_memory_ckg =
  ck_symbols :: "symbol list"
  ck_edges :: "edge list"

definition ckg_new :: in_memory_ckg where
  "ckg_new = \<lparr>ck_symbols = [], ck_edges = []\<rparr>"

definition ingest_file :: "(str \<Rightarrow> bool) \<Rightarrow> str \<Rightarrow> str \<Rightarrow> in_memory_ckg \<Rightarrow> in_memory_ckg" where
  "ingest_file uni file content g = (case parse_source uni file content of (syms, edges) \<Rightarrow>
     g\<lparr>ck_symbols := ck_symbols g @ syms, ck_edges := ck_edges g @ edges\<rparr>)"

definition from_files :: "(str \<Rightarrow> bool) \<Rightarrow> (str \<times> str) list \<Rightarrow> in_memory_ckg" where
  "from_files uni files = fold (\<lambda>(f, c). ingest_file uni f c) files ckg_new"

definition symbol_by_name :: "in_memory_ckg \<Rightarrow> str \<Rightarrow> symbol option" where
  "symbol_by_name g name = List.find (\<lambda>s. sy_name s = name) (ck_symbols g)"

definition related_by :: "in_memory_ckg \<Rightarrow> symbol \<Rightarrow> edge \<Rightarrow> related_symbol option" where
  "related_by g seed e =
     (if ed_kind e \<notin> {EK_Calls, EK_Defines, EK_Contains} then None
      else
        case (if ed_from e = sy_name seed then symbol_by_name g (ed_to e)
              else if ed_to e = sy_name seed then symbol_by_name g (ed_from e)
              else None) of
          None \<Rightarrow> None
        | Some other \<Rightarrow>
            if sy_name other = sy_name seed then None
            else Some \<lparr>rs_symbol = other, rs_relation = ed_kind e, rs_file = sy_file other, rs_line = sy_line other\<rparr>)"

definition related_le :: "related_symbol \<Rightarrow> related_symbol \<Rightarrow> bool" where
  "related_le a b \<longleftrightarrow>
     (if rs_file a \<noteq> rs_file b then rs_file a < rs_file b
      else if rs_line a \<noteq> rs_line b then rs_line a < rs_line b
      else sy_name (rs_symbol a) \<le> sy_name (rs_symbol b))"

definition same_related :: "related_symbol \<Rightarrow> related_symbol \<Rightarrow> bool" where
  "same_related a b \<longleftrightarrow> rs_file a = rs_file b \<and> rs_line a = rs_line b \<and>
     sy_name (rs_symbol a) = sy_name (rs_symbol b) \<and> rs_relation a = rs_relation b"

text \<open>\<open>dedup_by\<close>: an element goes when it is the same as the last one kept.\<close>

fun dedup_by :: "('a \<Rightarrow> 'a \<Rightarrow> bool) \<Rightarrow> 'a list \<Rightarrow> 'a list" where
  "dedup_by eq (x # y # ys) = (if eq y x then dedup_by eq (x # ys) else x # dedup_by eq (y # ys))"
| "dedup_by eq xs = xs"

definition ckg_query :: "in_memory_ckg \<Rightarrow> str \<Rightarrow> related_symbol list" where
  "ckg_query g symbol_or_name =
     (let needle = trim symbol_or_name;
          seeds = filter (\<lambda>s. contains_str (sy_name s) needle) (ck_symbols g);
          out = concat (map (\<lambda>seed. List.map_filter (related_by g seed) (ck_edges g)) seeds)
      in dedup_by same_related (sort_by related_le out))"

section \<open>The Postgres store\<close>

text \<open>
  The store answers from its mirror.  \<open>pk_client\<close> tells whether there is a connection; the tables
  are lists of rows by tenant, and which statements the database refuses for reasons of its own is a
  parameter.  The driver binds and reads an \<open>i64\<close> only where the column is a BIGINT, and
  refuses the statement or the row otherwise; the \<open>line\<close> columns are INTEGER (migrations/0004_v15.sql).
\<close>

record pg_ckg_store =
  pk_mirror :: in_memory_ckg
  pk_client :: bool
  pk_tenant :: str

record symbol_row =
  sr_kind :: str
  sr_name :: str
  sr_file :: str
  sr_line :: int
  sr_doc :: str

record edge_row =
  er_from :: str
  er_to :: str
  er_kind :: str
  er_file :: str
  er_line :: int

record ckg_tables =
  tb_symbols :: "(str \<times> symbol_row) list"
  tb_edges :: "(str \<times> edge_row) list"

definition pg_ckg_new :: pg_ckg_store where
  "pg_ckg_new = \<lparr>pk_mirror = ckg_new, pk_client = False, pk_tenant = []\<rparr>"

text \<open>\<open>s.line as i64\<close>, and back \<open>line as usize\<close>\<close>

definition as_i64 :: "nat \<Rightarrow> int" where
  "as_i64 n = sint (of_nat n :: 64 word)"

definition as_usize :: "int \<Rightarrow> nat" where
  "as_usize i = nat (i mod 2 ^ 64)"

definition symbol_to_row :: "symbol \<Rightarrow> symbol_row" where
  "symbol_to_row s = \<lparr>sr_kind = symbol_kind_str (sy_kind s), sr_name = sy_name s, sr_file = sy_file s,
     sr_line = as_i64 (sy_line s), sr_doc = sy_doc s\<rparr>"

definition edge_to_row :: "edge \<Rightarrow> edge_row" where
  "edge_to_row e = \<lparr>er_from = ed_from e, er_to = ed_to e, er_kind = edge_kind_str (ed_kind e),
     er_file = ed_file e, er_line = as_i64 (ed_line e)\<rparr>"

definition parse_symbol_kind :: "str \<Rightarrow> symbol_kind" where
  "parse_symbol_kind k = (if k = ''Mod'' then SK_Mod else if k = ''Fn'' then SK_Fn
     else if k = ''Struct'' then SK_Struct else if k = ''Impl'' then SK_Impl
     else if k = ''Trait'' then SK_Trait else SK_Fn)"

definition parse_edge_kind :: "str \<Rightarrow> edge_kind" where
  "parse_edge_kind k = (if k = ''Calls'' then EK_Calls else if k = ''Defines'' then EK_Defines
     else if k = ''Imports'' then EK_Imports else if k = ''Contains'' then EK_Contains else EK_Calls)"

definition symbol_of_row :: "symbol_row \<Rightarrow> symbol" where
  "symbol_of_row r = \<lparr>sy_kind = parse_symbol_kind (sr_kind r), sy_name = sr_name r, sy_file = sr_file r,
     sy_line = as_usize (sr_line r), sy_doc = sr_doc r\<rparr>"

definition edge_of_row :: "edge_row \<Rightarrow> edge" where
  "edge_of_row r = \<lparr>ed_from = er_from r, ed_to = er_to r, ed_kind = parse_edge_kind (er_kind r),
     ed_file = er_file r, ed_line = as_usize (er_line r)\<rparr>"

datatype pg_int = PG_Smallint | PG_Integer | PG_Bigint

definition i64_column :: "pg_int \<Rightarrow> bool" where
  "i64_column ty = (case ty of PG_Bigint \<Rightarrow> True | _ \<Rightarrow> False)"

definition line_column :: pg_int where
  "line_column = PG_Integer"

text \<open>What the database refuses; a refused insert is logged and the next one tried.\<close>

record ckg_faults =
  ckf_symbol :: "symbol \<Rightarrow> bool"
  ckf_edge :: "edge \<Rightarrow> bool"

definition pg_ingest_file ::
  "(str \<Rightarrow> bool) \<Rightarrow> ckg_faults \<Rightarrow> str \<Rightarrow> str \<Rightarrow> pg_ckg_store \<times> ckg_tables \<Rightarrow> pg_ckg_store \<times> ckg_tables" where
  "pg_ingest_file uni flt file content = (\<lambda>(st, db).
     case parse_source uni file content of (syms, edges) \<Rightarrow>
       (st\<lparr>pk_mirror := (pk_mirror st)\<lparr>ck_symbols := ck_symbols (pk_mirror st) @ syms,
            ck_edges := ck_edges (pk_mirror st) @ edges\<rparr>\<rparr>,
        if pk_client st
        then db\<lparr>tb_symbols := tb_symbols db @
                 map (\<lambda>s. (pk_tenant st, symbol_to_row s)) (filter (\<lambda>s. i64_column line_column \<and> \<not> ckf_symbol flt s) syms),
                tb_edges := tb_edges db @
                 map (\<lambda>e. (pk_tenant st, edge_to_row e)) (filter (\<lambda>e. i64_column line_column \<and> \<not> ckf_edge flt e) edges)\<rparr>
        else db))"

text \<open>The two row loops of \<open>load\<close>: a row that does not decode ends it, what came before stays.\<close>

definition wrong_type :: str where
  "wrong_type = ''cannot convert between the Rust type i64 and the Postgres type int4''"

fun load_symbols :: "symbol_row list \<Rightarrow> in_memory_ckg \<Rightarrow> (str + unit) \<times> in_memory_ckg" where
  "load_symbols [] m = (Inr (), m)"
| "load_symbols (r # rows) m =
     (if i64_column line_column then load_symbols rows (m\<lparr>ck_symbols := ck_symbols m @ [symbol_of_row r]\<rparr>)
      else (Inl wrong_type, m))"

fun load_edges :: "edge_row list \<Rightarrow> in_memory_ckg \<Rightarrow> (str + unit) \<times> in_memory_ckg" where
  "load_edges [] m = (Inr (), m)"
| "load_edges (r # rows) m =
     (if i64_column line_column then load_edges rows (m\<lparr>ck_edges := ck_edges m @ [edge_of_row r]\<rparr>)
      else (Inl wrong_type, m))"

text \<open>\<open>srows\<close> and \<open>erows\<close> are the answers to the two selects: an error, or the rows the session may see.\<close>

definition pg_load :: "str + symbol_row list \<Rightarrow> str + edge_row list \<Rightarrow> pg_ckg_store \<Rightarrow> (str + unit) \<times> pg_ckg_store"
where
  "pg_load srows erows st =
     (if \<not> pk_client st then (Inr (), st)
      else case srows of
        Inl e \<Rightarrow> (Inl e, st)
      | Inr rows \<Rightarrow> (case load_symbols rows (pk_mirror st) of
          (Inl e, m) \<Rightarrow> (Inl e, st\<lparr>pk_mirror := m\<rparr>)
        | (Inr _, m) \<Rightarrow> (case erows of
            Inl e \<Rightarrow> (Inl e, st\<lparr>pk_mirror := m\<rparr>)
          | Inr rows' \<Rightarrow> (case load_edges rows' m of (r, m') \<Rightarrow> (r, st\<lparr>pk_mirror := m'\<rparr>)))))"

text \<open>\<open>attempt\<close> is what the connection attempt gives; a failed load is logged.\<close>

definition pg_connect ::
  "str + unit \<Rightarrow> str + symbol_row list \<Rightarrow> str + edge_row list \<Rightarrow> str \<Rightarrow> pg_ckg_store" where
  "pg_connect attempt srows erows tenant =
     (let st = pg_ckg_new\<lparr>pk_tenant := tenant\<rparr> in
      case attempt of Inl _ \<Rightarrow> st | Inr _ \<Rightarrow> snd (pg_load srows erows (st\<lparr>pk_client := True\<rparr>)))"

definition pg_ckg_query :: "pg_ckg_store \<Rightarrow> str \<Rightarrow> related_symbol list" where
  "pg_ckg_query st q = ckg_query (pk_mirror st) q"

section \<open>Retrieval (retrieval.rs)\<close>

text \<open>The embedding \<open>emb\<close> and the similarity \<open>cosine\<close> of two embeddings are parameters here; the theory
  Embedding gives the ones of the code.\<close>

record retrieved_chunk =
  rc_chunk :: context_chunk
  rc_score :: rat

definition better :: "retrieved_chunk \<Rightarrow> retrieved_chunk \<Rightarrow> bool" where
  "better a b \<longleftrightarrow> rc_score b \<le> rc_score a"

definition retriever_build :: "(str \<Rightarrow> 'v) \<Rightarrow> context_chunk list \<Rightarrow> (context_chunk \<times> 'v) list" where
  "retriever_build emb corpus = map (\<lambda>c. (c, emb (cc_content c))) corpus"

definition retriever_add ::
  "(str \<Rightarrow> 'v) \<Rightarrow> context_chunk \<Rightarrow> (context_chunk \<times> 'v) list \<Rightarrow> (context_chunk \<times> 'v) list" where
  "retriever_add emb c indexed = indexed @ [(c, emb (cc_content c))]"

definition rank_chunks ::
  "(str \<Rightarrow> 'v) \<Rightarrow> ('v \<Rightarrow> 'v \<Rightarrow> rat) \<Rightarrow> str \<Rightarrow> (context_chunk \<times> 'v) list \<Rightarrow> nat \<Rightarrow> retrieved_chunk list" where
  "rank_chunks emb cosine query indexed k =
     take (max k 1) (sort_by better
       (map (\<lambda>(c, e). \<lparr>rc_chunk = c, rc_score = cosine (emb query) e\<rparr>) indexed))"

definition rank_raw ::
  "(str \<Rightarrow> 'v) \<Rightarrow> ('v \<Rightarrow> 'v \<Rightarrow> rat) \<Rightarrow> str \<Rightarrow> context_chunk list \<Rightarrow> nat \<Rightarrow> retrieved_chunk list" where
  "rank_raw emb cosine query candidates k =
     take (max k 1) (sort_by better
       (map (\<lambda>c. \<lparr>rc_chunk = c, rc_score = cosine (emb query) (emb (cc_content c))\<rparr>) candidates))"

definition neighbour_chunk :: "related_symbol \<Rightarrow> context_chunk" where
  "neighbour_chunk r = context_chunk_new Symbol (rs_file r)
     (symbol_kind_str (sy_kind (rs_symbol r)) @ '' '' @ sy_name (rs_symbol r) @ '' (relation: '' @
      edge_kind_str (rs_relation r) @ '', line '' @ show_nat (sy_line (rs_symbol r)) @ '')'') Medium"

definition retrieve_with_ckg ::
  "(str \<Rightarrow> 'v) \<Rightarrow> ('v \<Rightarrow> 'v \<Rightarrow> rat) \<Rightarrow> str \<Rightarrow> context_chunk list \<Rightarrow> nat \<Rightarrow> (str \<Rightarrow> related_symbol list) \<Rightarrow>
   retrieved_chunk list" where
  "retrieve_with_ckg emb cosine query corpus k index =
     rank_raw emb cosine query corpus k @
     map (\<lambda>r. \<lparr>rc_chunk = neighbour_chunk r, rc_score = 0\<rparr>) (index query)"

definition cm_retrieve ::
  "(str \<Rightarrow> 'v) \<Rightarrow> ('v \<Rightarrow> 'v \<Rightarrow> rat) \<Rightarrow> str \<Rightarrow> nat \<Rightarrow> context_manager \<Rightarrow> retrieved_chunk list" where
  "cm_retrieve emb cosine query k cm = rank_raw emb cosine query (cm_chunks cm) k"

definition enrich_from_ckg :: "str \<Rightarrow> (str \<Rightarrow> related_symbol list) \<Rightarrow> context_manager \<Rightarrow> context_manager" where
  "enrich_from_ckg s index cm = fold (\<lambda>r. add_chunk (neighbour_chunk r)) (index s) cm"

section \<open>What a parsed file holds\<close>

lemma decl_name_at_ne: "decl_name_at uni line kw pos = Some n \<Longrightarrow> n \<noteq> []"
proof (induction uni line kw pos rule: decl_name_at.induct)
  case (1 uni line kw pos)
  from "1.prems" "1.IH" show ?case
    by (subst (asm) decl_name_at.simps) (auto simp: Let_def split: option.splits if_splits)
qed

lemma decl_name_ne: "decl_name uni line kw = Some n \<Longrightarrow> n \<noteq> []"
  by (auto simp: decl_name_def dest: decl_name_at_ne)

lemma type_decl_ne: "type_decl uni raw = Some (k, n) \<Longrightarrow> n \<noteq> []"
  by (auto simp: type_decl_def dest: decl_name_ne split: option.splits)

definition edge_ok :: "str \<Rightarrow> symbol list \<Rightarrow> edge \<Rightarrow> bool" where
  "edge_ok file syms e \<longleftrightarrow> (case ed_kind e of
       EK_Imports \<Rightarrow> ed_from e = file
     | EK_Calls \<Rightarrow> \<not> is_keyword (ed_to e) \<and>
         list_ex (\<lambda>s. sy_kind s = SK_Fn \<and> sy_name s = ed_from e \<and> sy_line s < ed_line e) syms
     | _ \<Rightarrow> list_ex (\<lambda>s. sy_kind s = SK_Impl \<and> sy_name s = ed_from e \<and> sy_line s \<le> ed_line e) syms)"

definition on_lines :: "nat \<Rightarrow> nat \<Rightarrow> bool" where
  "on_lines n l \<longleftrightarrow> 1 \<le> l \<and> l \<le> n"

definition declared :: "symbol_kind \<Rightarrow> str option \<Rightarrow> symbol list \<Rightarrow> bool" where
  "declared k name syms \<longleftrightarrow> (case name of None \<Rightarrow> True | Some x \<Rightarrow>
     list_ex (\<lambda>s. sy_kind s = k \<and> sy_name s = x) syms)"

lemma declared_simps [simp]:
  "declared k None syms"
  "declared k (Some x) syms \<longleftrightarrow> list_ex (\<lambda>s. sy_kind s = k \<and> sy_name s = x) syms"
  by (simp_all add: declared_def)

lemma declared_snoc: "declared k name syms \<Longrightarrow> declared k name (syms @ [s])"
  by (cases name) auto

definition parse_inv :: "str \<Rightarrow> nat \<Rightarrow> parse_state \<Rightarrow> bool" where
  "parse_inv file n ps \<longleftrightarrow>
     list_all (\<lambda>s. sy_file s = file \<and> on_lines n (sy_line s) \<and> sy_name s \<noteq> []) (ps_symbols ps) \<and>
     sorted_wrt (\<lambda>s t. sy_line s < sy_line t) (ps_symbols ps) \<and>
     list_all (\<lambda>e. ed_file e = file \<and> on_lines n (ed_line e) \<and> edge_ok file (ps_symbols ps) e) (ps_edges ps) \<and>
     declared SK_Fn (ps_fn ps) (ps_symbols ps) \<and>
     declared SK_Impl (map_option impl_name (ps_impl ps)) (ps_symbols ps)"

lemma edge_ok_snoc: "edge_ok file syms e \<Longrightarrow> edge_ok file (syms @ [s]) e"
  by (auto simp: edge_ok_def split: edge_kind.splits)

lemma on_lines_Suc: "on_lines n l \<Longrightarrow> on_lines (Suc n) l"
  by (simp add: on_lines_def)

lemma parse_inv_start: "parse_inv file 0 parse_start"
  by (simp add: parse_inv_def parse_start_def)

lemma parse_inv_later:
  assumes "parse_inv file n ps"
  shows "list_all (\<lambda>s. sy_file s = file \<and> on_lines (Suc n) (sy_line s) \<and> sy_name s \<noteq> []) (ps_symbols ps)"
    and "list_all (\<lambda>e. ed_file e = file \<and> on_lines (Suc n) (ed_line e) \<and> edge_ok file (ps_symbols ps) e) (ps_edges ps)"
    and "list_all (\<lambda>s. sy_line s < Suc n) (ps_symbols ps)"
  using assms by (auto simp: parse_inv_def list_all_iff on_lines_def)

text \<open>A new symbol on the next line, with edges of it.\<close>

lemma parse_inv_add:
  assumes inv: "parse_inv file n ps"
    and new: "sy_file s = file" "sy_line s = Suc n" "sy_name s \<noteq> []"
    and edges: "list_all (\<lambda>e. ed_file e = file \<and> ed_line e = Suc n \<and> edge_ok file (ps_symbols ps @ [s]) e) es"
    and fn: "declared SK_Fn f [s]"
    and im: "i = ps_impl ps \<or> declared SK_Impl (map_option impl_name i) [s]"
  shows "parse_inv file (Suc n) (ps\<lparr>ps_symbols := ps_symbols ps @ [s], ps_doc := d,
    ps_edges := ps_edges ps @ es, ps_impl := i, ps_fn := f\<rparr>)"
proof -
  note later = parse_inv_later [OF inv]
  have "list_all (\<lambda>e. ed_file e = file \<and> on_lines (Suc n) (ed_line e) \<and> edge_ok file (ps_symbols ps @ [s]) e)
      (ps_edges ps @ es)"
    using later(2) edges by (auto simp: list_all_iff on_lines_def intro: edge_ok_snoc)
  moreover have "sorted_wrt (\<lambda>s t. sy_line s < sy_line t) (ps_symbols ps @ [s])"
    using inv later(3) new(2) by (auto simp: parse_inv_def sorted_wrt_append list_all_iff)
  moreover have "list_all (\<lambda>s. sy_file s = file \<and> on_lines (Suc n) (sy_line s) \<and> sy_name s \<noteq> []) (ps_symbols ps @ [s])"
    using later(1) new by (auto simp: list_all_iff on_lines_def)
  moreover have "declared SK_Impl (map_option impl_name i) (ps_symbols ps @ [s])"
    using im
  proof
    assume "i = ps_impl ps"
    with inv show ?thesis by (simp add: parse_inv_def declared_snoc)
  qed (cases i; auto)
  moreover have "declared SK_Fn f (ps_symbols ps @ [s])"
    using fn by (cases f) auto
  ultimately show ?thesis by (simp add: parse_inv_def)
qed

lemma parse_inv_same:
  assumes inv: "parse_inv file n ps"
    and edges: "list_all (\<lambda>e. ed_file e = file \<and> ed_line e = Suc n \<and> edge_ok file (ps_symbols ps) e) es"
  shows "parse_inv file (Suc n) (ps\<lparr>ps_doc := d, ps_edges := ps_edges ps @ es\<rparr>)"
proof -
  note later = parse_inv_later [OF inv]
  have "list_all (\<lambda>e. ed_file e = file \<and> on_lines (Suc n) (ed_line e) \<and> edge_ok file (ps_symbols ps) e)
      (ps_edges ps @ es)"
    using later(2) edges by (auto simp: list_all_iff on_lines_def)
  with later(1) inv show ?thesis by (simp add: parse_inv_def)
qed

lemma from_impl_ok:
  assumes "parse_inv file n ps" and "k = EK_Defines \<or> k = EK_Contains"
  shows "list_all (\<lambda>e. ed_file e = file \<and> ed_line e = Suc n \<and> edge_ok file (ps_symbols ps @ [s]) e)
    (from_impl ps name k file (Suc n))"
proof (cases "ps_impl ps")
  case (Some t)
  then obtain i where "i \<in> set (ps_symbols ps)" "sy_kind i = SK_Impl" "sy_name i = impl_name t" "sy_line i \<le> Suc n"
    using assms(1) by (force simp: parse_inv_def list_ex_iff list_all_iff on_lines_def)
  then show ?thesis using assms(2) Some by (auto simp: from_impl_def edge_ok_def list_ex_iff)
qed (simp add: from_impl_def)

lemma parse_impl_inv:
  assumes "parse_inv file n ps" and "t \<noteq> []"
  shows "parse_inv file (Suc n) (parse_impl file (Suc n) t tr ps)"
  unfolding parse_impl_def take_symbol_def
  by (rule parse_inv_add [OF assms(1)]) (simp_all add: impl_name_def edge_ok_def list_ex_iff)

lemma parse_decl_inv:
  assumes "parse_inv file n ps" and "name \<noteq> []" and "ek = EK_Defines \<or> ek = EK_Contains"
    and "declared SK_Fn f [\<lparr>sy_kind = k, sy_name = name, sy_file = file, sy_line = Suc n, sy_doc = ps_doc ps\<rparr>]"
  shows "parse_inv file (Suc n) (ps\<lparr>ps_symbols := take_symbol ps k name file (Suc n), ps_doc := [],
     ps_edges := ps_edges ps @ from_impl ps name ek file (Suc n), ps_fn := f\<rparr>)"
proof -
  let ?s = "\<lparr>sy_kind = k, sy_name = name, sy_file = file, sy_line = Suc n, sy_doc = ps_doc ps\<rparr>"
  have "parse_inv file (Suc n) (ps\<lparr>ps_symbols := ps_symbols ps @ [?s], ps_doc := [],
    ps_edges := ps_edges ps @ from_impl ps name ek file (Suc n), ps_impl := ps_impl ps, ps_fn := f\<rparr>)"
    by (rule parse_inv_add [OF assms(1) _ _ _ from_impl_ok [OF assms(1,3)] assms(4)])
      (use assms(2) in simp_all)
  then show ?thesis by (simp add: take_symbol_def)
qed

lemma parse_type_inv:
  "parse_inv file n ps \<Longrightarrow> name \<noteq> [] \<Longrightarrow> parse_inv file (Suc n) (parse_type file (Suc n) k name ps)"
  unfolding parse_type_def by (rule parse_decl_inv) simp_all

lemma parse_fn_inv:
  "parse_inv file n ps \<Longrightarrow> name \<noteq> [] \<Longrightarrow> parse_inv file (Suc n) (parse_fn file (Suc n) name ps)"
  unfolding parse_fn_def by (rule parse_decl_inv) simp_all

lemma parse_use_inv:
  assumes "parse_inv file n ps"
  shows "parse_inv file (Suc n) (parse_use file (Suc n) raw ps)"
proof -
  have "parse_use file (Suc n) raw ps = ps\<lparr>ps_doc := ps_doc ps, ps_edges := ps_edges ps @ map (\<lambda>target.
     \<lparr>ed_from = file, ed_to = target, ed_kind = EK_Imports, ed_file = file, ed_line = Suc n\<rparr>) (parse_use_targets raw)\<rparr>"
    by (simp add: parse_use_def)
  then show ?thesis
    by (simp only:) (rule parse_inv_same [OF assms], simp add: list_all_iff edge_ok_def)
qed

lemma parse_calls_inv:
  assumes "parse_inv file n ps"
  shows "parse_inv file (Suc n) (parse_calls file (Suc n) raw ps)"
proof (cases "ps_fn ps")
  case None
  then show ?thesis using parse_inv_same [OF assms, of "[]" "ps_doc ps"] by (simp add: parse_calls_def)
next
  case (Some f)
  let ?es = "map (\<lambda>callee. \<lparr>ed_from = f, ed_to = callee, ed_kind = EK_Calls, ed_file = file, ed_line = Suc n\<rparr>)
       (filter (\<lambda>c. \<not> is_keyword c) (collect_calls raw))"
  obtain s where "s \<in> set (ps_symbols ps)" "sy_kind s = SK_Fn" "sy_name s = f" "sy_line s < Suc n"
    using assms Some parse_inv_later(3) [OF assms] by (force simp: parse_inv_def list_ex_iff list_all_iff)
  then have "list_all (\<lambda>e. ed_file e = file \<and> ed_line e = Suc n \<and> edge_ok file (ps_symbols ps) e) ?es"
    by (auto simp: list_all_iff edge_ok_def list_ex_iff)
  from parse_inv_same [OF assms this, of "ps_doc ps"] Some show ?thesis by (simp add: parse_calls_def)
qed

lemma parse_doc_inv: "parse_inv file n ps \<Longrightarrow> parse_inv file (Suc n) (parse_doc d ps)"
  using parse_inv_same [of "file" n ps "[]"] by (simp add: parse_doc_def)

lemmas parse_step_inv = parse_impl_inv parse_type_inv parse_fn_inv parse_use_inv parse_calls_inv parse_doc_inv

lemma parse_line_inv:
  "parse_inv file n ps \<Longrightarrow> parse_inv file (Suc n) (parse_line uni file (Suc n) raw ps)"
  by (auto simp: parse_line_def split: option.splits prod.splits
      intro: parse_step_inv dest: type_decl_ne decl_name_ne)

lemma parse_lines_inv:
  "parse_inv file n ps \<Longrightarrow> parse_inv file (n + length lines) (parse_lines_from uni file n lines ps)"
  by (induction uni "file" n lines ps rule: parse_lines_from.induct) (auto dest: parse_line_inv)

text \<open>
  C22: what the scanner makes of any text is a well-formed graph of it: one symbol per line at most, in
  the order of the lines, named and placed within the file; and every edge lies on a line of the file
  and starts at something there: an import at the file, a call at a function declared above (and
  never to a keyword), a definition or containment at an \<open>impl\<close> not below it.
\<close>

theorem parse_source_well_formed:
  "case parse_source uni file content of (syms, edges) \<Rightarrow>
     list_all (\<lambda>s. sy_file s = file \<and> 1 \<le> sy_line s \<and> sy_line s \<le> length (str_lines content) \<and> sy_name s \<noteq> []) syms \<and>
     sorted_wrt (\<lambda>s t. sy_line s < sy_line t) syms \<and>
     list_all (\<lambda>e. ed_file e = file \<and> 1 \<le> ed_line e \<and> ed_line e \<le> length (str_lines content) \<and>
       (case ed_kind e of
          EK_Imports \<Rightarrow> ed_from e = file
        | EK_Calls \<Rightarrow> \<not> is_keyword (ed_to e) \<and>
            list_ex (\<lambda>s. sy_kind s = SK_Fn \<and> sy_name s = ed_from e \<and> sy_line s < ed_line e) syms
        | _ \<Rightarrow> list_ex (\<lambda>s. sy_kind s = SK_Impl \<and> sy_name s = ed_from e \<and> sy_line s \<le> ed_line e) syms)) edges"
  using parse_lines_inv [OF parse_inv_start, of "file" "str_lines content" uni]
  by (simp add: parse_source_def Let_def parse_inv_def on_lines_def edge_ok_def conj_assoc)

section \<open>The end of an impl block goes unnoticed\<close>

definition contained :: "symbol list \<Rightarrow> edge list \<Rightarrow> symbol \<Rightarrow> bool" where
  "contained syms edges t \<longleftrightarrow> (\<exists>u e. u \<in> set syms \<and> sy_kind u = SK_Impl \<and> sy_line u \<le> sy_line t \<and>
     e \<in> set edges \<and> ed_kind e = EK_Contains \<and> ed_from e = sy_name u \<and> ed_to e = sy_name t \<and>
     ed_line e = sy_line t)"

definition swallows :: "parse_state \<Rightarrow> bool" where
  "swallows ps \<longleftrightarrow>
     (ps_impl ps = None \<longrightarrow> (\<forall>s\<in>set (ps_symbols ps). sy_kind s \<noteq> SK_Impl)) \<and>
     (\<forall>s t. s \<in> set (ps_symbols ps) \<and> t \<in> set (ps_symbols ps) \<and> sy_kind s = SK_Impl \<and> sy_kind t = SK_Fn \<and>
        sy_line s < sy_line t \<longrightarrow> contained (ps_symbols ps) (ps_edges ps) t)"

lemma contained_mono:
  "contained syms edges t \<Longrightarrow> set syms \<subseteq> set syms' \<Longrightarrow> set edges \<subseteq> set edges' \<Longrightarrow> contained syms' edges' t"
  unfolding contained_def by blast

lemma swallows_edges: "swallows ps \<Longrightarrow> swallows (ps\<lparr>ps_doc := d, ps_edges := ps_edges ps @ es\<rparr>)"
  using contained_mono [of "ps_symbols ps" "ps_edges ps" _ "ps_symbols ps" "ps_edges ps @ es"]
  unfolding swallows_def by auto

lemma swallows_add:
  assumes sw: "swallows ps" and inv: "parse_inv file n ps" and line: "sy_line s = Suc n"
    and keep: "sy_kind s = SK_Impl \<longrightarrow> i \<noteq> None" "sy_kind s \<noteq> SK_Impl \<longrightarrow> i = ps_impl ps"
    and fn: "sy_kind s = SK_Fn \<Longrightarrow> ps_impl ps \<noteq> None \<Longrightarrow> contained (ps_symbols ps @ [s]) (ps_edges ps @ es) s"
  shows "swallows (ps\<lparr>ps_symbols := ps_symbols ps @ [s], ps_doc := d, ps_edges := ps_edges ps @ es,
    ps_impl := i, ps_fn := f\<rparr>)"
proof -
  have old: "sy_line x < Suc n" if "x \<in> set (ps_symbols ps)" for x
    using parse_inv_later(3) [OF inv] that by (simp add: list_all_iff)
  have "contained (ps_symbols ps @ [s]) (ps_edges ps @ es) t"
    if x: "x \<in> set (ps_symbols ps @ [s])" "t \<in> set (ps_symbols ps @ [s])" "sy_kind x = SK_Impl"
      "sy_kind t = SK_Fn" "sy_line x < sy_line t" for x t
  proof (cases "t = s")
    case True
    with x have "x \<in> set (ps_symbols ps)" using line by auto
    with sw x(3) have "ps_impl ps \<noteq> None" by (auto simp: swallows_def)
    with fn x(4) True show ?thesis by simp
  next
    case False
    with x line have "t \<in> set (ps_symbols ps)" "x \<in> set (ps_symbols ps)" using old [of t] by auto
    with sw x have "contained (ps_symbols ps) (ps_edges ps) t" unfolding swallows_def by blast
    then show ?thesis by (rule contained_mono) auto
  qed
  moreover have "i = None \<longrightarrow> (\<forall>x\<in>set (ps_symbols ps @ [s]). sy_kind x \<noteq> SK_Impl)"
    using keep sw by (auto simp: swallows_def)
  ultimately show ?thesis unfolding swallows_def by (simp, blast)
qed

lemma parse_line_swallows:
  assumes "parse_inv file n ps" and "swallows ps"
  shows "swallows (parse_line uni file (Suc n) raw ps)"
proof -
  note add = swallows_add [OF assms(2,1)]
  have im: "swallows (parse_impl file (Suc n) t tr ps)" for t tr
    unfolding parse_impl_def take_symbol_def by (rule add) simp_all
  have same: "swallows (ps\<lparr>ps_doc := d\<rparr>)" "swallows (ps\<lparr>ps_edges := ps_edges ps @ es\<rparr>)" for d es
    using swallows_edges [OF assms(2), where es = "[]" and d = d]
      swallows_edges [OF assms(2), where es = es and d = "ps_doc ps"] by simp_all
  have ty: "swallows (parse_type file (Suc n) k name ps)" if "k \<noteq> SK_Impl" "k \<noteq> SK_Fn" for k name
    using add [where s = "\<lparr>sy_kind = k, sy_name = name, sy_file = file, sy_line = Suc n, sy_doc = ps_doc ps\<rparr>"
        and i = "ps_impl ps" and es = "from_impl ps name EK_Defines file (Suc n)" and d = "[]" and f = None] that
    by (simp add: parse_type_def take_symbol_def)
  have fn: "swallows (parse_fn file (Suc n) name ps)" for name
  proof -
    let ?s = "\<lparr>sy_kind = SK_Fn, sy_name = name, sy_file = file, sy_line = Suc n, sy_doc = ps_doc ps\<rparr>"
    have "contained (ps_symbols ps @ [?s]) (ps_edges ps @ from_impl ps name EK_Contains file (Suc n)) ?s"
      if t: "ps_impl ps = Some t" for t
    proof -
      obtain i where "i \<in> set (ps_symbols ps)" "sy_kind i = SK_Impl" "sy_name i = impl_name t" "sy_line i \<le> Suc n"
        using assms(1) t by (force simp: parse_inv_def list_ex_iff list_all_iff on_lines_def)
      then show ?thesis unfolding contained_def
        by (intro exI [of _ i] exI [of _ "\<lparr>ed_from = impl_name t, ed_to = name, ed_kind = EK_Contains,
              ed_file = file, ed_line = Suc n\<rparr>"]) (simp add: t from_impl_def)
    qed
    then show ?thesis
      using add [where s = ?s and i = "ps_impl ps" and es = "from_impl ps name EK_Contains file (Suc n)"
        and d = "[]" and f = "Some name"]
      by (auto simp: parse_fn_def take_symbol_def)
  qed
  have kind: "type_decl uni raw = Some (k, name) \<Longrightarrow> k \<noteq> SK_Impl \<and> k \<noteq> SK_Fn" for k name
    by (auto simp: type_decl_def split: option.splits)
  show ?thesis
    using assms(2) kind
    by (auto simp: parse_line_def parse_doc_def parse_use_def parse_calls_def
        split: option.splits prod.splits intro: im same ty fn)
qed

lemma parse_lines_swallow:
  "parse_inv file n ps \<Longrightarrow> swallows ps \<Longrightarrow> swallows (parse_lines_from uni file n lines ps)"
  by (induction uni "file" n lines ps rule: parse_lines_from.induct)
    (auto dest: parse_line_inv parse_line_swallows)

text \<open>
  The scanner does not see where an \<open>impl\<close> block ends: in any text every function declared
  anywhere below an \<open>impl\<close> line, a free function after the block included, is recorded as
  contained in an \<open>impl\<close> above it.
\<close>

theorem functions_after_impl_contained:
  assumes "parse_source uni file content = (syms, edges)"
    and "s \<in> set syms" "sy_kind s = SK_Impl" and "t \<in> set syms" "sy_kind t = SK_Fn"
    and "sy_line s < sy_line t"
  shows "\<exists>u e. u \<in> set syms \<and> sy_kind u = SK_Impl \<and> sy_line u \<le> sy_line t \<and>
     e \<in> set edges \<and> ed_kind e = EK_Contains \<and> ed_from e = sy_name u \<and> ed_to e = sy_name t \<and>
     ed_line e = sy_line t"
proof -
  have "swallows (parse_lines_from uni file 0 (str_lines content) parse_start)"
    by (rule parse_lines_swallow [OF parse_inv_start]) (simp add: swallows_def parse_start_def)
  then have "contained syms edges t"
    using assms by (auto simp: swallows_def parse_source_def Let_def)
  then show ?thesis by (simp add: contained_def)
qed

definition free_fn_source :: str where
  "free_fn_source = ''impl A {'' @ [CHR 0x0A] @ ''}'' @ [CHR 0x0A] @ ''fn free() {}''"

lemma free_fn_parsed:
  "parse_source (\<lambda>_. False) ''a.rs'' free_fn_source =
    ([\<lparr>sy_kind = SK_Impl, sy_name = ''impl A'', sy_file = ''a.rs'', sy_line = 1, sy_doc = []\<rparr>,
      \<lparr>sy_kind = SK_Fn, sy_name = ''free'', sy_file = ''a.rs'', sy_line = 3, sy_doc = []\<rparr>],
     [\<lparr>ed_from = ''impl A'', ed_to = ''free'', ed_kind = EK_Contains, ed_file = ''a.rs'', ed_line = 3\<rparr>])"
  by code_simp

theorem functions_after_impl_contained_witness:
  "\<exists>u e. u \<in> set (fst (parse_source (\<lambda>_. False) ''a.rs'' free_fn_source)) \<and> sy_kind u = SK_Impl \<and>
     e \<in> set (snd (parse_source (\<lambda>_. False) ''a.rs'' free_fn_source)) \<and> ed_kind e = EK_Contains \<and>
     ed_from e = sy_name u \<and> ed_to e = ''free''"
  using functions_after_impl_contained [OF free_fn_parsed,
      of "\<lparr>sy_kind = SK_Impl, sy_name = ''impl A'', sy_file = ''a.rs'', sy_line = 1, sy_doc = []\<rparr>"
         "\<lparr>sy_kind = SK_Fn, sy_name = ''free'', sy_file = ''a.rs'', sy_line = 3, sy_doc = []\<rparr>"]
  unfolding free_fn_parsed by auto

text \<open>
  Three inputs the comments of the scanner promise otherwise: the \<open>impl\<close> of a generic type is named
  after the type parameter; an alias stays in the imported name; the comment of an item that is
  not a symbol goes to the next one that is.
\<close>

lemma generic_impl_misnamed:
  "fst (parse_source (\<lambda>_. False) ''a.rs'' ''impl<T> Stack<T> {'') =
     [\<lparr>sy_kind = SK_Impl, sy_name = ''impl T'', sy_file = ''a.rs'', sy_line = 1, sy_doc = []\<rparr>]"
  by code_simp

lemma use_alias_kept: "parse_use_targets ''use a::B as X;'' = [''B as X'']"
  by code_simp

lemma doc_of_enum_moves:
  "fst (parse_source (\<lambda>_. False) ''a.rs''
      (''/// colours'' @ [CHR 0x0A] @ ''enum C { R }'' @ [CHR 0x0A] @ ''fn f() {}'')) =
     [\<lparr>sy_kind = SK_Fn, sy_name = ''f'', sy_file = ''a.rs'', sy_line = 3, sy_doc = ''colours''\<rparr>]"
  by code_simp

section \<open>What a query answers\<close>

interpretation neighbourhood: comparator related_le
  by unfold_locales (auto simp: related_le_def split: if_splits)

lemma set_map_filter: "y \<in> set (List.map_filter f xs) \<longleftrightarrow> (\<exists>x\<in>set xs. f x = Some y)"
  by (force simp: List.map_filter_def image_iff)

lemma set_dedup_by: "set (dedup_by eq xs) \<subseteq> set xs"
  by (induction eq xs rule: dedup_by.induct) auto

lemma sorted_dedup_by: "sorted_wrt le xs \<Longrightarrow> sorted_wrt le (dedup_by eq xs)"
  by (induction eq xs rule: dedup_by.induct) (use set_dedup_by in \<open>fastforce+\<close>)

text \<open>Nothing is lost when the elements that are dropped equal one that stays.\<close>

lemma set_dedup_by_eq:
  "(\<And>x y. x \<in> set xs \<Longrightarrow> y \<in> set xs \<Longrightarrow> eq x y \<Longrightarrow> x = y) \<Longrightarrow> set (dedup_by eq xs) = set xs"
proof (induction eq xs rule: dedup_by.induct)
  case (1 eq x y ys)
  show ?case
  proof (cases "eq y x")
    case True
    then have "y = x" by (intro "1.prems") simp_all
    moreover have "set (dedup_by eq (x # ys)) = set (x # ys)"
      by (rule "1.IH"(1) [OF True]) (rule "1.prems", auto)
    ultimately show ?thesis using True by simp
  next
    case False
    have "set (dedup_by eq (y # ys)) = set (y # ys)"
      by (rule "1.IH"(2) [OF False]) (rule "1.prems", simp_all)
    with False show ?thesis by simp
  qed
qed auto

lemma symbol_by_name_found:
  "symbol_by_name g n = Some y \<Longrightarrow> sy_name y = n \<and> y \<in> set (ck_symbols g)"
  unfolding symbol_by_name_def find_Some_iff by (metis nth_mem)

definition related_to :: "edge \<Rightarrow> symbol \<Rightarrow> related_symbol" where
  "related_to e y = \<lparr>rs_symbol = y, rs_relation = ed_kind e, rs_file = sy_file y, rs_line = sy_line y\<rparr>"

lemma related_by_iff:
  "related_by g seed e = Some r \<longleftrightarrow>
     ed_kind e \<in> {EK_Calls, EK_Defines, EK_Contains} \<and>
     (\<exists>y. (ed_from e = sy_name seed \<and> symbol_by_name g (ed_to e) = Some y \<or>
           ed_to e = sy_name seed \<and> symbol_by_name g (ed_from e) = Some y) \<and>
          sy_name y \<noteq> sy_name seed \<and> r = related_to e y)"
  using symbol_by_name_found [of g "ed_to e"] symbol_by_name_found [of g "ed_from e"]
  by (cases "symbol_by_name g (ed_to e)"; cases "symbol_by_name g (ed_from e)")
    (auto simp: related_by_def related_to_def)

lemma related_by_found:
  "related_by g seed e = Some r \<Longrightarrow> \<exists>y. symbol_by_name g (sy_name y) = Some y \<and> r = related_to e y"
  using symbol_by_name_found unfolding related_by_iff by metis

definition ckg_hits :: "in_memory_ckg \<Rightarrow> str \<Rightarrow> related_symbol list" where
  "ckg_hits g needle = concat (map (\<lambda>seed. List.map_filter (related_by g seed) (ck_edges g))
     (filter (\<lambda>s. contains_str (sy_name s) needle) (ck_symbols g)))"

lemma ckg_query_hits: "ckg_query g s = dedup_by same_related (sort_by related_le (ckg_hits g (trim s)))"
  by (simp add: ckg_query_def ckg_hits_def)

lemma ckg_hits_iff:
  "r \<in> set (ckg_hits g needle) \<longleftrightarrow>
     (\<exists>seed e. seed \<in> set (ck_symbols g) \<and> contains_str (sy_name seed) needle \<and> e \<in> set (ck_edges g) \<and>
        related_by g seed e = Some r)"
  by (auto simp: ckg_hits_def set_map_filter)

lemma same_related_to:
  "same_related (related_to e y) (related_to e' y') \<Longrightarrow> sy_name y = sy_name y' \<and> ed_kind e = ed_kind e'"
  unfolding same_related_def related_to_def related_symbol.simps by blast

lemma ckg_hits_same:
  "r \<in> set (ckg_hits g n) \<Longrightarrow> r' \<in> set (ckg_hits g n) \<Longrightarrow> same_related r r' \<Longrightarrow> r = r'"
proof -
  assume "r \<in> set (ckg_hits g n)" "r' \<in> set (ckg_hits g n)" and same: "same_related r r'"
  then obtain e y e' y' where found: "symbol_by_name g (sy_name y) = Some y" "symbol_by_name g (sy_name y') = Some y'"
    and r: "r = related_to e y" "r' = related_to e' y'"
    unfolding ckg_hits_iff using related_by_found by meson
  have name: "sy_name y = sy_name y'" and kind: "ed_kind e = ed_kind e'"
    using same_related_to [OF same [unfolded r]] by blast+
  have "Some y = Some y'" using found unfolding name by (rule trans [OF sym])
  then have "y = y'" by (rule option.inject [THEN iffD1])
  with kind show ?thesis unfolding r related_to_def by blast
qed

text \<open>
  C23: a query answers with exactly the symbols joined by a call, definition or containment, in
  either direction, to a symbol whose name contains the trimmed query (never with a symbol of the
  same name), each as the first symbol of its name in the graph, ordered by file, line and name.
\<close>

theorem ckg_query_spec:
  "sorted_wrt related_le (ckg_query g s) \<and>
   (r \<in> set (ckg_query g s) \<longleftrightarrow>
     (\<exists>seed e. seed \<in> set (ck_symbols g) \<and> contains_str (sy_name seed) (trim s) \<and> e \<in> set (ck_edges g) \<and>
        ed_kind e \<in> {EK_Calls, EK_Defines, EK_Contains} \<and>
        (\<exists>y. (ed_from e = sy_name seed \<and> symbol_by_name g (ed_to e) = Some y \<or>
              ed_to e = sy_name seed \<and> symbol_by_name g (ed_from e) = Some y) \<and>
             sy_name y \<noteq> sy_name seed \<and> r = related_to e y)))"
proof
  show "sorted_wrt related_le (ckg_query g s)"
    unfolding ckg_query_hits by (rule sorted_dedup_by [OF neighbourhood.sorted_sort])
  have "set (ckg_query g s) = set (ckg_hits g (trim s))"
    unfolding ckg_query_hits by (subst set_dedup_by_eq) (simp_all add: ckg_hits_same)
  then show "r \<in> set (ckg_query g s) \<longleftrightarrow>
     (\<exists>seed e. seed \<in> set (ck_symbols g) \<and> contains_str (sy_name seed) (trim s) \<and> e \<in> set (ck_edges g) \<and>
        ed_kind e \<in> {EK_Calls, EK_Defines, EK_Contains} \<and>
        (\<exists>y. (ed_from e = sy_name seed \<and> symbol_by_name g (ed_to e) = Some y \<or>
              ed_to e = sy_name seed \<and> symbol_by_name g (ed_from e) = Some y) \<and>
             sy_name y \<noteq> sy_name seed \<and> r = related_to e y))"
    by (simp only: ckg_hits_iff related_by_iff)
qed

text \<open>
  The relation is not part of the order, so equal answers need not be neighbours and the same one
  may be given twice: here \<open>f\<close> as called, as contained and again as called.
\<close>

definition twice_source :: str where
  "twice_source = ''fn g0() {'' @ [CHR 0x0A] @ ''f();'' @ [CHR 0x0A] @ ''impl g {'' @ [CHR 0x0A] @
     ''fn f() {'' @ [CHR 0x0A] @ ''fn g1() {'' @ [CHR 0x0A] @ ''f();''"

lemma query_answers_twice:
  "\<not> distinct (ckg_query (from_files (\<lambda>_. False) [(''a.rs'', twice_source)]) ''g'')"
  by code_simp

section \<open>Consumers of a graph\<close>

text \<open>What the retrieval relies on: an index answers with symbols of its graph.\<close>

locale ckg_index =
  fixes query :: "'g \<Rightarrow> str \<Rightarrow> related_symbol list"
    and graph :: "'g \<Rightarrow> symbol list"
  assumes answers: "r \<in> set (query g s) \<Longrightarrow> rs_symbol r \<in> set (graph g) \<and> rs_file r = sy_file (rs_symbol r)"
begin

lemma neighbours_cite:
  "list_all (\<lambda>c. cc_source c = Symbol \<and> cc_priority c = Medium \<and> list_ex (\<lambda>y. sy_file y = cc_uri c) (graph g))
     (map neighbour_chunk (query g s))"
  using answers [of _ g s]
  by (fastforce simp: list_all_iff list_ex_iff neighbour_chunk_def context_chunk_new_def)

lemma enrich_chunks: "cm_chunks (enrich_from_ckg s (query g) cm) = cm_chunks cm @ map neighbour_chunk (query g s)"
proof -
  have "cm_chunks (fold (\<lambda>r. add_chunk (neighbour_chunk r)) rs cm) = cm_chunks cm @ map neighbour_chunk rs" for rs
    by (induction rs arbitrary: cm) (simp_all add: add_chunk_def)
  then show ?thesis by (simp add: enrich_from_ckg_def)
qed

end

lemma ckg_query_answers:
  "r \<in> set (ckg_query g s) \<Longrightarrow> rs_symbol r \<in> set (ck_symbols g) \<and> rs_file r = sy_file (rs_symbol r)"
proof -
  assume "r \<in> set (ckg_query g s)"
  then have "r \<in> set (ckg_hits g (trim s))"
    unfolding ckg_query_hits using set_dedup_by by fastforce
  then obtain seed e where "related_by g seed e = Some r" by (auto simp: ckg_hits_iff)
  from related_by_found [OF this] show ?thesis
    by (auto simp: related_to_def dest: symbol_by_name_found)
qed

interpretation mem_index: ckg_index ckg_query ck_symbols
  by unfold_locales (rule ckg_query_answers)

interpretation pg_index: ckg_index pg_ckg_query "\<lambda>st. ck_symbols (pk_mirror st)"
  by unfold_locales (auto simp: pg_ckg_query_def dest: ckg_query_answers)

text \<open>
  Enriching a context from the store adds, after the chunks it had, one medium-priority symbol
  chunk per answer of the index, each citing a file of a symbol of the graph.
\<close>

theorem enrich_cites_graph:
  "cm_chunks (enrich_from_ckg s (pg_ckg_query st) cm) = cm_chunks cm @ map neighbour_chunk (pg_ckg_query st s) \<and>
   list_all (\<lambda>c. cc_source c = Symbol \<and> cc_priority c = Medium \<and>
       list_ex (\<lambda>y. sy_file y = cc_uri c) (ck_symbols (pk_mirror st))) (map neighbour_chunk (pg_ckg_query st s))"
  by (rule conjI, rule pg_index.enrich_chunks, rule pg_index.neighbours_cite)

section \<open>Ranking\<close>

interpretation scores: comparator better
  by unfold_locales (auto simp: better_def)

text \<open>The prebuilt index ranks as the chunks ranked on the fly.\<close>

theorem rank_index_agrees:
  "rank_chunks emb cosine q (fold (retriever_add emb) new (retriever_build emb corpus)) k =
   rank_raw emb cosine q (corpus @ new) k"
proof -
  have "fold (retriever_add emb) new ix = ix @ retriever_build emb new" for ix
    by (induction new arbitrary: ix) (simp_all add: retriever_build_def retriever_add_def)
  then show ?thesis by (simp add: rank_chunks_def rank_raw_def retriever_build_def comp_def)
qed

definition scored :: "(str \<Rightarrow> 'v) \<Rightarrow> ('v \<Rightarrow> 'v \<Rightarrow> rat) \<Rightarrow> str \<Rightarrow> context_chunk \<Rightarrow> retrieved_chunk" where
  "scored emb cosine q c = \<lparr>rc_chunk = c, rc_score = cosine (emb q) (emb (cc_content c))\<rparr>"

lemma rank_raw_scored:
  "rank_raw emb cosine q cands k = take (max k 1) (sort_by better (map (scored emb cosine q) cands))"
  by (simp add: rank_raw_def scored_def [abs_def])

lemma sorted_take_drop:
  "sorted_wrt le xs \<Longrightarrow> x \<in> set (drop n xs) \<Longrightarrow> y \<in> set (take n xs) \<Longrightarrow> le y x"
  by (metis append_take_drop_id sorted_wrt_append)

text \<open>
  Ranking returns the \<open>k\<close> candidates (one at least) most similar to the query, with their
  scores and in order of them: whatever it leaves out scores no better than anything it returns.
\<close>

theorem rank_raw_top:
  "case rank_raw emb cosine q cands k of out \<Rightarrow>
     length out = min (length cands) (max k 1) \<and>
     sorted_wrt (\<lambda>a b. rc_score b \<le> rc_score a) out \<and>
     list_all (\<lambda>r. rc_chunk r \<in> set cands \<and> rc_score r = cosine (emb q) (emb (cc_content (rc_chunk r)))) out \<and>
     list_all (\<lambda>c. list_ex (\<lambda>r. rc_chunk r = c) out \<or>
        list_all (\<lambda>r. cosine (emb q) (emb (cc_content c)) \<le> rc_score r) out) cands"
proof -
  let ?all = "sort_by better (map (scored emb cosine q) cands)"
  let ?out = "take (max k 1) ?all"
  note sorted = scores.sorted_sort [of "map (scored emb cosine q) cands"]
  have "sorted_wrt (\<lambda>a b. rc_score b \<le> rc_score a) ?out"
    using sorted_wrt_take [OF sorted] by (simp add: better_def [abs_def])
  moreover have "list_all (\<lambda>r. rc_chunk r \<in> set cands \<and> rc_score r = cosine (emb q) (emb (cc_content (rc_chunk r)))) ?out"
    by (auto simp: list_all_iff scored_def dest!: in_set_takeD)
  moreover have "list_ex (\<lambda>r. rc_chunk r = c) ?out \<or>
      list_all (\<lambda>r. cosine (emb q) (emb (cc_content c)) \<le> rc_score r) ?out" if "c \<in> set cands" for c
  proof -
    from that have "scored emb cosine q c \<in> set (?out @ drop (max k 1) ?all)"
      unfolding append_take_drop_id by simp
    then consider "scored emb cosine q c \<in> set ?out" | "scored emb cosine q c \<in> set (drop (max k 1) ?all)"
      unfolding set_append by blast
    then show ?thesis
    proof cases
      case 1
      then show ?thesis by (intro disjI1) (force simp: list_ex_iff scored_def)
    next
      case 2
      from sorted_take_drop [OF sorted 2] show ?thesis
        by (intro disjI2) (auto simp: list_all_iff better_def scored_def)
    qed
  qed
  ultimately show ?thesis unfolding rank_raw_scored by (simp add: list_all_iff)
qed

section \<open>The graph through the database\<close>

lemma symbol_kind_roundtrip: "parse_symbol_kind (symbol_kind_str k) = k"
  by (cases k) (simp_all add: parse_symbol_kind_def)

lemma edge_kind_roundtrip: "parse_edge_kind (edge_kind_str k) = k"
  by (cases k) (simp_all add: parse_edge_kind_def)

lemma line_roundtrip: "n < 2 ^ 63 \<Longrightarrow> as_usize (as_i64 n) = n"
  unfolding as_usize_def as_i64_def
  by (simp add: sint_uint uint_nat take_bit_nat_eq_self unsigned_of_nat signed_take_bit_int_eq_self)

lemma symbol_roundtrip: "sy_line s < 2 ^ 63 \<Longrightarrow> symbol_of_row (symbol_to_row s) = s"
  by (simp add: symbol_of_row_def symbol_to_row_def symbol_kind_roundtrip line_roundtrip)

lemma edge_roundtrip: "ed_line e < 2 ^ 63 \<Longrightarrow> edge_of_row (edge_to_row e) = e"
  by (simp add: edge_of_row_def edge_to_row_def edge_kind_roundtrip line_roundtrip)

text \<open>
  The conversions themselves lose nothing; but no row is ever converted.
\<close>

lemma line_refused [simp]: "\<not> i64_column line_column"
  by (simp add: i64_column_def line_column_def)

lemma load_keeps: "snd (load_symbols rows m) = m" "snd (load_edges rows' m) = m"
  by (cases rows; simp) (cases rows'; simp)

lemma pg_load_mirror: "pk_mirror (snd (pg_load srows erows st)) = pk_mirror st"
  using load_keeps(1) [of _ "pk_mirror st"] load_keeps(2) [of _ "pk_mirror st"]
  by (auto simp: pg_load_def split: sum.splits prod.splits) (metis snd_conv)+

lemma pg_connect_mirror: "pk_mirror (pg_connect attempt srows erows t) = ckg_new"
  by (simp add: pg_connect_def Let_def pg_load_mirror pg_ckg_new_def split: sum.split)

definition pg_ingest_all ::
  "(str \<Rightarrow> bool) \<Rightarrow> ckg_faults \<Rightarrow> (str \<times> str) list \<Rightarrow> pg_ckg_store \<times> ckg_tables \<Rightarrow> pg_ckg_store \<times> ckg_tables" where
  "pg_ingest_all uni flt files s = fold (\<lambda>(f, c). pg_ingest_file uni flt f c) files s"

lemma pg_ingest_file_effect:
  "pk_mirror (fst (pg_ingest_file uni flt f c s)) = ingest_file uni f c (pk_mirror (fst s))"
  "snd (pg_ingest_file uni flt f c s) = snd s"
  by (cases s; cases "parse_source uni f c"; simp add: pg_ingest_file_def ingest_file_def)+

lemma pg_ingest_all_effect:
  "pk_mirror (fst (pg_ingest_all uni flt files s)) = fold (\<lambda>(f, c). ingest_file uni f c) files (pk_mirror (fst s))"
  "snd (pg_ingest_all uni flt files s) = snd s"
  unfolding pg_ingest_all_def by (induction files arbitrary: s) (auto simp: pg_ingest_file_effect)

text \<open>
  C26: the graph is never in the database: whatever files a store ingests, with or without a connection,
  no row is written; whatever rows the tables hold, a new connection loads none; and so a store answers
  every query from the files its own process ingested, and starts empty after a restart.
\<close>

theorem graph_never_persists:
  "case pg_ingest_all uni flt files (pg_connect attempt srows erows t, db) of (st, db') \<Rightarrow>
     db' = db \<and> pg_ckg_query st q = ckg_query (from_files uni files) q \<and>
     pk_mirror (pg_connect attempt' srows' erows' t') = ckg_new"
proof -
  let ?s = "pg_ingest_all uni flt files (pg_connect attempt srows erows t, db)"
  have "pk_mirror (fst ?s) = from_files uni files" "snd ?s = db"
    by (simp_all add: pg_ingest_all_effect pg_connect_mirror from_files_def)
  then show ?thesis by (cases ?s) (simp add: pg_ckg_query_def pg_connect_mirror)
qed

end
