(* ===== verification/Latency.thy ===== *)
theory Latency
  imports Probe
begin

text \<open>
  The latency harness of the completion probe (crates/probe/src/completion.rs, \<open>speed_test\<close>), as
  \<open>aidea nes\<close> runs it.  The clock is a reading of the state in milliseconds; the 32-bit floats of
  the code are rationals.
\<close>

section \<open>Sampling\<close>

text \<open>\<open>Instant::elapsed\<close> saturates at zero.\<close>

definition elapsed_ms :: "rat \<Rightarrow> rat \<Rightarrow> rat" where
  "elapsed_ms start stop = max 0 (stop - start)"

primrec sample_latencies :: "('s \<Rightarrow> rat) \<Rightarrow> ('s, 'e, 'a) eff \<Rightarrow> nat \<Rightarrow> ('s, 'e, rat list) eff" where
  "sample_latencies clk m 0 = ret []"
| "sample_latencies clk m (Suc n) =
     bnd (gets clk) (\<lambda>start.
     bnd m (\<lambda>_.
     bnd (gets clk) (\<lambda>stop.
     bnd (sample_latencies clk m n) (\<lambda>ls. ret (elapsed_ms start stop # ls)))))"

text \<open>Indexing the empty list panics: \<open>None\<close>.\<close>

definition percentiles :: "rat list \<Rightarrow> (rat \<times> rat) option" where
  "percentiles ls =
     (let s = sort_by (\<le>) ls; n = length s in
      if n = 0 then None
      else Some (s ! (n div 2), s ! min (nat \<lfloor>of_nat n * (95 / 100 :: rat)\<rfloor>) (n - 1)))"

text \<open>So does \<open>Vec::with_capacity\<close> of more than \<open>isize::MAX\<close> bytes of \<open>f32\<close>.\<close>

definition capacity_overflow :: "nat \<Rightarrow> bool" where
  "capacity_overflow n \<longleftrightarrow> 2 ^ 63 \<le> 4 * n"

definition speed_test ::
  "('s \<Rightarrow> rat) \<Rightarrow> (str \<Rightarrow> str \<Rightarrow> str \<Rightarrow> ('s, 'e, 'a) eff) \<Rightarrow> nat \<Rightarrow> ('s, 'e, (rat \<times> rat) option) eff" where
  "speed_test clk backend samples =
     (if capacity_overflow samples then ret None
      else bnd (sample_latencies clk (backend ''fn main('' ''}'' ''rust'') samples) (\<lambda>ls. ret (percentiles ls)))"

section \<open>What the two numbers say\<close>

interpretation latencies: comparator "(\<le>) :: rat \<Rightarrow> rat \<Rightarrow> bool"
  by unfold_locales auto

lemma length_filter_sort: "length (filter P (sort_by le xs)) = length (filter P xs)"
proof -
  have "length (filter P (insert_by le x ys)) = length (filter P (x # ys))" for x ys
    by (induction ys) auto
  then show ?thesis by (induction xs) auto
qed

lemma sorted_upto:
  assumes "sorted_wrt (\<le>) s" and "i < length s"
  shows "Suc i \<le> length (filter (\<lambda>x. x \<le> s ! i) (s :: rat list))"
proof -
  have "x \<le> s ! i" if "x \<in> set (take (Suc i) s)" for x
    using that assms by (auto simp: in_set_conv_nth sorted_wrt_iff_nth_less less_Suc_eq_le dest!: le_neq_implies_less)
  then have "filter (\<lambda>x. x \<le> s ! i) (take (Suc i) s) = take (Suc i) s" by (simp add: filter_id_conv)
  moreover have "length (filter (\<lambda>x. x \<le> s ! i) (take (Suc i) s)) \<le> length (filter (\<lambda>x. x \<le> s ! i) s)"
    by (subst (2) append_take_drop_id [of "Suc i" s, symmetric]) (simp del: append_take_drop_id)
  ultimately show ?thesis using assms(2) by simp
qed

lemma rank_95:
  assumes "0 < n"
  shows "95 * n \<le> 100 * Suc (min (nat \<lfloor>of_nat n * (95 / 100 :: rat)\<rfloor>) (n - 1))"
    and "n div 2 \<le> min (nat \<lfloor>of_nat n * (95 / 100 :: rat)\<rfloor>) (n - 1)"
proof -
  have floor: "nat \<lfloor>of_nat n * (95 / 100 :: rat)\<rfloor> = 95 * n div 100"
  proof -
    have "of_nat n * (95 / 100 :: rat) = of_int (int (95 * n)) / of_int (int 100)" by simp
    then show ?thesis unfolding floor_divide_of_int_eq
      by (simp only: floor_divide_of_int_eq zdiv_int [symmetric] nat_int)
  qed
  have "95 * n < 100 * Suc (95 * n div 100)"
    using dividend_less_times_div [of 100 "95 * n"] by simp
  moreover have "n div 2 \<le> 95 * n div 100"
  proof -
    have "n div 2 = 50 * n div 100" using div_mult_mult1 [of "50 :: nat" n 2] by simp
    also have "\<dots> \<le> 95 * n div 100" by (rule div_le_mono) simp
    finally show ?thesis .
  qed
  ultimately have "95 * n \<le> 100 * Suc (min (95 * n div 100) (n - 1)) \<and> n div 2 \<le> min (95 * n div 100) (n - 1)"
    using assms by (auto simp: min_def)
  then show "95 * n \<le> 100 * Suc (min (nat \<lfloor>of_nat n * (95 / 100 :: rat)\<rfloor>) (n - 1))"
    and "n div 2 \<le> min (nat \<lfloor>of_nat n * (95 / 100 :: rat)\<rfloor>) (n - 1)"
    unfolding floor by blast+
qed

lemma percentiles_spec:
  assumes "percentiles ls = Some (p50, p95)"
  shows "p50 \<in> set ls \<and> p95 \<in> set ls \<and> p50 \<le> p95 \<and>
     length ls \<le> 2 * length (filter (\<lambda>x. x \<le> p50) ls) \<and>
     95 * length ls \<le> 100 * length (filter (\<lambda>x. x \<le> p95) ls)"
proof -
  let ?s = "sort_by (\<le>) ls" and ?n = "length ls"
  let ?i = "?n div 2" and ?j = "min (nat \<lfloor>of_nat ?n * (95 / 100 :: rat)\<rfloor>) (?n - 1)"
  have n: "0 < ?n" and p: "p50 = ?s ! ?i" "p95 = ?s ! ?j"
    using assms by (auto simp: percentiles_def Let_def split: if_splits)
  note sorted = latencies.sorted_sort [of ls]
  have bounds: "?i < length ?s" "?j < length ?s" using n by (simp_all add: min_less_iff_disj)
  have "p50 \<le> p95"
  proof (cases "?i = ?j")
    case False
    with rank_95(2) [OF n] have "?i < ?j" by linarith
    with sorted bounds(2) show ?thesis unfolding p sorted_wrt_iff_nth_less by blast
  qed (simp add: p)
  moreover have "p50 \<in> set ls" "p95 \<in> set ls"
    unfolding p using nth_mem [OF bounds(1)] nth_mem [OF bounds(2)] by simp_all
  moreover have "Suc ?i \<le> length (filter (\<lambda>x. x \<le> p50) ls)" "Suc ?j \<le> length (filter (\<lambda>x. x \<le> p95) ls)"
    using sorted_upto [OF sorted bounds(1)] sorted_upto [OF sorted bounds(2)]
    unfolding p length_filter_sort by simp_all
  ultimately show ?thesis using rank_95(1) [OF n] by linarith
qed

lemma sample_latencies_length:
  "sample_latencies clk m n s = (Inr ls, s') \<Longrightarrow> length ls = n \<and> list_all ((\<le>) 0) ls"
  by (induction n arbitrary: s ls s')
    (auto simp: eff_simps elapsed_ms_def split: prod.splits sum.splits)

lemma percentiles_None: "percentiles ls = None \<longleftrightarrow> ls = []"
proof -
  have "sort_by (\<le>) ls = [] \<longleftrightarrow> ls = []" by (metis length_sort_by length_0_conv)
  then show ?thesis by (simp add: percentiles_def Let_def)
qed

lemma speed_test_answer: "speed_test clk backend n s = (Inr x, s') \<Longrightarrow> (x = None) = (n = 0 \<or> capacity_overflow n)"
  by (auto simp: speed_test_def eff_simps percentiles_None split: prod.splits sum.splits if_splits
      dest: sample_latencies_length)

lemma speed_test_empty: "n = 0 \<or> capacity_overflow n \<Longrightarrow> speed_test clk backend n s = (Inr None, s)"
  by (auto simp: speed_test_def eff_simps percentiles_None)

text \<open>
  A speed test of some samples gives two of the measured latencies, at least half of which are
  within the first and 95 in 100 within the second; without samples, or with more than a vector
  holds, it panics, and it fails only with an error of the backend.
\<close>

theorem speed_test_spec:
  "case speed_test clk backend n s of
     (Inl e, s') \<Rightarrow> sample_latencies clk (backend ''fn main('' ''}'' ''rust'') n s = (Inl e, s')
   | (Inr None, _) \<Rightarrow> n = 0 \<or> capacity_overflow n
   | (Inr (Some (p50, p95)), s') \<Rightarrow>
       (case sample_latencies clk (backend ''fn main('' ''}'' ''rust'') n s of
          (Inl _, _) \<Rightarrow> False
        | (Inr ls, _) \<Rightarrow> 0 < n \<and> length ls = n \<and> p50 \<in> set ls \<and> p95 \<in> set ls \<and> 0 \<le> p50 \<and> p50 \<le> p95 \<and>
            n \<le> 2 * length (filter (\<lambda>x. x \<le> p50) ls) \<and> 95 * n \<le> 100 * length (filter (\<lambda>x. x \<le> p95) ls))"
proof (cases "capacity_overflow n")
  case True
  then show ?thesis by (simp add: speed_test_def)
next
  case False
  then have test: "speed_test clk backend n = bnd (sample_latencies clk (backend ''fn main('' ''}'' ''rust'') n)
      (\<lambda>ls. ret (percentiles ls))"
    by (simp add: speed_test_def)
  show ?thesis
  proof (cases "sample_latencies clk (backend ''fn main('' ''}'' ''rust'') n s")
    case (Pair r s')
    show ?thesis
    proof (cases r)
      case (Inl e)
      with Pair show ?thesis unfolding test by (simp add: eff_simps)
    next
      case (Inr ls)
      note len = sample_latencies_length [OF Pair [unfolded Inr]]
      show ?thesis
      proof (cases "percentiles ls")
        case None
        then have "n = 0" using len by (simp add: percentiles_None)
        with None Pair Inr show ?thesis unfolding test by (simp add: eff_simps)
      next
        case (Some q)
        obtain p50 p95 where q: "q = (p50, p95)" by fastforce
        note spec = percentiles_spec [OF Some [unfolded q]]
        then have "0 < n" "0 \<le> p50" using len by (auto simp: list_all_iff)
        with spec len Pair Inr Some q show ?thesis unfolding test by (simp add: eff_simps)
      qed
    qed
  qed
qed

end
