(* ===== verification/Secrets.thy ===== *)
theory Secrets
  imports Collab
begin

text \<open>
  The secret store (crates/core/src/security.rs) and the SQL functions it calls (set_secret and
  get_secret of migrations/0005_v20.sql).  pgcrypto is a parameter: encryption draws a session key,
  and decryption with the wrong key is an error.  The store never gets as far as calling them: its
  transactions begin with \<open>SET LOCAL app.tenant_id = $1\<close>, and PostgreSQL takes no bind parameters in
  SET, so the server refuses to prepare it.
\<close>

section \<open>The table\<close>

record pgcrypto =
  pgp_sym_encrypt :: "nat \<Rightarrow> str \<Rightarrow> str \<Rightarrow> str"
  pgp_sym_decrypt :: "str \<Rightarrow> str \<Rightarrow> str option"

record secret_row =
  se_tenant :: str
  se_name :: str
  se_value_encrypted :: str

definition secret_key_of :: "secret_row \<Rightarrow> str \<times> str" where
  "secret_key_of r = (se_tenant r, se_name r)"

text \<open>\<open>INSERT ... ON CONFLICT (tenant_id, name) DO UPDATE\<close>\<close>

definition set_secret ::
  "pgcrypto \<Rightarrow> nat \<Rightarrow> str \<Rightarrow> str \<Rightarrow> str \<Rightarrow> str \<Rightarrow> secret_row list \<Rightarrow> secret_row list" where
  "set_secret pc draw tenant name v key tab =
     (if list_ex (\<lambda>r. secret_key_of r = (tenant, name)) tab
      then map (\<lambda>r. if secret_key_of r = (tenant, name)
                    then r\<lparr>se_value_encrypted := pgp_sym_encrypt pc draw v key\<rparr> else r) tab
      else tab @ [\<lparr>se_tenant = tenant, se_name = name, se_value_encrypted = pgp_sym_encrypt pc draw v key\<rparr>])"

text \<open>The function returns NULL for a name without a row, and raises for a key that does not fit.\<close>

definition get_secret :: "pgcrypto \<Rightarrow> str \<Rightarrow> str \<Rightarrow> str \<Rightarrow> secret_row list \<Rightarrow> str + str option" where
  "get_secret pc tenant name key tab =
     (case List.find (\<lambda>r. secret_key_of r = (tenant, name)) tab of
        None \<Rightarrow> Inr None
      | Some r \<Rightarrow> (case pgp_sym_decrypt pc (se_value_encrypted r) key of
            None \<Rightarrow> Inl ''Wrong key or corrupt data''
          | Some v \<Rightarrow> Inr (Some v)))"

section \<open>The store\<close>

text \<open>
  The transaction of the store: whatever else goes wrong, setting the tenant fails, with the
  connection's own error or with the server's refusal.
\<close>

definition refusal :: str where
  "refusal = ''syntax error at or near $1''"

definition set_refused :: "tx_faults \<Rightarrow> tx_faults" where
  "set_refused flt = flt\<lparr>tx_set_tenant := Some (case tx_set_tenant flt of Some e \<Rightarrow> e | None \<Rightarrow> refusal)\<rparr>"

definition pg_secret_set ::
  "tx_faults \<Rightarrow> pgcrypto \<Rightarrow> nat \<Rightarrow> str \<Rightarrow> str \<Rightarrow> str \<Rightarrow> str \<Rightarrow> secret_row list \<Rightarrow>
   (str + unit) \<times> secret_row list" where
  "pg_secret_set flt pc draw tenant name v key tab =
     with_tenant (set_refused flt) (\<lambda>tab. (Inr (), set_secret pc draw tenant name v key tab)) tab"

definition pg_secret_get ::
  "tx_faults \<Rightarrow> pgcrypto \<Rightarrow> str \<Rightarrow> str \<Rightarrow> str \<Rightarrow> secret_row list \<Rightarrow> (str + str option) \<times> secret_row list" where
  "pg_secret_get flt pc tenant name key tab =
     with_tenant (set_refused flt) (\<lambda>tab. (get_secret pc tenant name key tab, tab)) tab"

text \<open>The error every operation ends with.\<close>

definition secret_error :: "tx_faults \<Rightarrow> str" where
  "secret_error flt = (case tx_begin flt of Some e \<Rightarrow> e | None \<Rightarrow>
     (case tx_set_tenant flt of Some e \<Rightarrow> e | None \<Rightarrow> refusal))"

lemma pg_secret_refused [simp]:
  "pg_secret_set flt pc draw tenant name v key tab = (Inl (secret_error flt), tab)"
  "pg_secret_get flt pc tenant name key tab = (Inl (secret_error flt), tab)"
  by (simp_all add: pg_secret_set_def pg_secret_get_def with_tenant_def set_refused_def secret_error_def
      split: option.split)

section \<open>The table as a map\<close>

definition secret_map :: "secret_row list \<Rightarrow> (str \<times> str) \<Rightarrow> str option" where
  "secret_map tab = map_of (map (\<lambda>r. (secret_key_of r, se_value_encrypted r)) tab)"

definition unique_secrets :: "secret_row list \<Rightarrow> bool" where
  "unique_secrets tab \<longleftrightarrow> distinct (map secret_key_of tab)"

lemma secret_key_simps [simp]:
  "secret_key_of (r\<lparr>se_value_encrypted := x\<rparr>) = secret_key_of r"
  "secret_key_of \<lparr>se_tenant = t, se_name = n, se_value_encrypted = x\<rparr> = (t, n)"
  by (simp_all add: secret_key_of_def)

lemma secret_map_Nil [simp]: "secret_map [] k = None"
  by (simp add: secret_map_def)

lemma secret_map_Cons [simp]:
  "secret_map (r # tab) k = (if secret_key_of r = k then Some (se_value_encrypted r) else secret_map tab k)"
  by (simp add: secret_map_def)

lemma get_secret_map:
  "get_secret pc tenant name key tab = (case secret_map tab (tenant, name) of
       None \<Rightarrow> Inr None
     | Some c \<Rightarrow> (case pgp_sym_decrypt pc c key of
          None \<Rightarrow> Inl ''Wrong key or corrupt data'' | Some v \<Rightarrow> Inr (Some v)))"
  by (induction tab) (simp_all add: get_secret_def)

lemma secret_map_update:
  "secret_map (map (\<lambda>r. if secret_key_of r = k then r\<lparr>se_value_encrypted := x\<rparr> else r) tab) k' =
     (if k' = k \<and> list_ex (\<lambda>r. secret_key_of r = k) tab then Some x else secret_map tab k')"
  by (induction tab) auto

lemma secret_map_snoc:
  "secret_map (tab @ [r]) k = (case secret_map tab k of
     None \<Rightarrow> if secret_key_of r = k then Some (se_value_encrypted r) else None | Some x \<Rightarrow> Some x)"
  by (induction tab) auto

lemma secret_map_absent: "\<not> list_ex (\<lambda>r. secret_key_of r = k) tab \<Longrightarrow> secret_map tab k = None"
  by (induction tab) auto

lemma set_secret_map:
  "secret_map (set_secret pc draw tenant name v key tab) =
     (secret_map tab)((tenant, name) \<mapsto> pgp_sym_encrypt pc draw v key)"
  by (rule ext)
    (auto simp: set_secret_def secret_map_update secret_map_snoc secret_map_absent split: option.splits)

lemma set_secret_unique: "unique_secrets tab \<Longrightarrow> unique_secrets (set_secret pc draw tenant name v key tab)"
proof -
  assume uniq: "unique_secrets tab"
  have keys: "secret_key_of \<circ> (\<lambda>r. if secret_key_of r = k then r\<lparr>se_value_encrypted := x\<rparr> else r) = secret_key_of"
    for k x by (rule ext) simp
  show ?thesis
  proof (cases "list_ex (\<lambda>r. secret_key_of r = (tenant, name)) tab")
    case True
    with uniq show ?thesis by (simp add: unique_secrets_def set_secret_def keys)
  next
    case False
    with uniq show ?thesis by (auto simp: unique_secrets_def set_secret_def list_ex_iff)
  qed
qed

text \<open>
  The SQL functions themselves (what the store would do if it reached them) refine a map: setting a
  secret sets exactly the ciphertext of its tenant and name, it is read back under its key, every
  other secret stays as it was, and a name stays unique within its tenant.
\<close>

theorem secrets_refine_map:
  assumes "\<And>draw v key. pgp_sym_decrypt pc (pgp_sym_encrypt pc draw v key) key = Some v"
    and "unique_secrets tab"
  shows "case set_secret pc draw tenant name v key tab of tab' \<Rightarrow>
     secret_map tab' = (secret_map tab)((tenant, name) \<mapsto> pgp_sym_encrypt pc draw v key) \<and>
     unique_secrets tab' \<and> get_secret pc tenant name key tab' = Inr (Some v)"
  using assms by (simp add: set_secret_map set_secret_unique get_secret_map)

text \<open>A cipher that keeps its key beside the text, for the witness.\<close>

definition demo_crypto :: pgcrypto where
  "demo_crypto = \<lparr>pgp_sym_encrypt = \<lambda>_ v key. show_nat (length key) @ '':'' @ key @ v,
     pgp_sym_decrypt = \<lambda>c key.
       (if take (length (show_nat (length key) @ '':'' @ key)) c = show_nat (length key) @ '':'' @ key
        then Some (drop (length (show_nat (length key) @ '':'' @ key)) c) else None)\<rparr>"

lemma demo_crypto_law: "pgp_sym_decrypt demo_crypto (pgp_sym_encrypt demo_crypto draw v key) key = Some v"
  by (simp add: demo_crypto_def)

theorem secrets_refine_map_witness:
  "get_secret demo_crypto ''t'' ''n'' ''k'' (set_secret demo_crypto 0 ''t'' ''n'' ''v'' ''k'' []) = Inr (Some ''v'')"
proof -
  have "unique_secrets []" by (simp add: unique_secrets_def)
  from secrets_refine_map [OF demo_crypto_law this] show ?thesis by blast
qed

end
