(* ===== verification/Cli.thy ===== *)
theory Cli
  imports Admin Craft Latency Secrets
begin

text \<open>
  The command line (crates/cli/src/lib.rs): the commands of \<open>aidea\<close> after clap has parsed them, each
  one a process of its own that shares nothing with the next but the database and the network.  The
  lines of the CLI host on stdout and the messages on stderr are not modelled.  \<open>println!\<close> panics
  when stdout cannot be written; a stdout is taken to be so from the start or never.
\<close>

section \<open>Commands\<close>

datatype comment_cmd = Comment_List str | Comment_Add str nat str | Comment_Resolve str

datatype lock_cmd = Lock_Acquire str | Lock_Release str | Lock_Show str

datatype secret_cmd = Secret_Set str str | Secret_Get str

record craft_args =
  ca_file :: str
  ca_old :: str
  ca_new :: str
  ca_kind :: str
  ca_yes :: bool
  ca_rationale :: str

datatype command =
    Cmd_Chat str str "str list"
  | Cmd_Craft craft_args
  | Cmd_Nes nat "str option"
  | Cmd_Serve str
  | Cmd_Version
  | Cmd_Console
  | Cmd_Quest str
  | Cmd_Comment comment_cmd
  | Cmd_Lock lock_cmd
  | Cmd_Secret secret_cmd

section \<open>Processes\<close>

text \<open>What outlives a process: the databases by their URL, and the network behind \<open>'n\<close>.\<close>

record database =
  db_comments :: "comment list"
  db_secrets :: "secret_row list"

record 'n machine =
  mh_db :: "str \<Rightarrow> database"
  mh_net :: 'n

record 'n process =
  pr_out :: str
  pr_machine :: "'n machine"
  pr_stdout :: bool

datatype cli_error = Failed str | Panicked

type_synonym ('n, 'a) cli_run = "('n process, cli_error, 'a) eff"

text \<open>
  What the handlers take from libraries and the Core's transport: HTTP, clocks, pgcrypto, the
  collation of the database, serde's text of a value, and the gRPC server itself.
\<close>

record 'n cli_lib =
  cl_http :: "'n agent_http"
  cl_clock :: "'n \<Rightarrow> int"
  cl_instant :: "'n \<Rightarrow> rat"
  cl_crypto :: pgcrypto
  cl_collation :: "str \<Rightarrow> str \<Rightarrow> bool"
  cl_json_text :: "json \<Rightarrow> str"
  cl_serve :: "str \<Rightarrow> core_config \<Rightarrow> ('n, str, unit) eff"

text \<open>
  One invocation: the configuration, the line on stdin, whether stdout can be written, how the
  connection to the database and the statements on it fail, the time of the database, and the session
  key pgcrypto draws.
\<close>

record invocation =
  iv_config :: core_config
  iv_stdin :: str
  iv_stdout :: bool
  iv_connect :: "str option"
  iv_faults :: tx_faults
  iv_pg_now :: int
  iv_draw :: nat

definition say :: "str \<Rightarrow> ('n, unit) cli_run" where
  "say line p = (if pr_stdout p then (Inr (), p\<lparr>pr_out := pr_out p @ line @ [CHR 0x0A]\<rparr>) else (Inl Panicked, p))"

primrec say_all :: "str list \<Rightarrow> ('n, unit) cli_run" where
  "say_all [] = ret ()"
| "say_all (l # ls) = bnd (say l) (\<lambda>_. say_all ls)"

text \<open>\<open>print!\<close> of a line without its end is buffered, and an error of \<open>flush\<close> is ignored.\<close>

definition prompt :: "str \<Rightarrow> ('n, unit) cli_run" where
  "prompt t = modify (\<lambda>p. if pr_stdout p then p\<lparr>pr_out := pr_out p @ t\<rparr> else p)"

definition fallible :: "str + 'a \<Rightarrow> cli_error + 'a" where
  "fallible r = (case r of Inl e \<Rightarrow> Inl (Failed e) | Inr x \<Rightarrow> Inr x)"

definition net_of :: "'n process \<Rightarrow> 'n" where
  "net_of p = mh_net (pr_machine p)"

definition set_net :: "'n \<Rightarrow> 'n process \<Rightarrow> 'n process" where
  "set_net n p = p\<lparr>pr_machine := (pr_machine p)\<lparr>mh_net := n\<rparr>\<rparr>"

text \<open>A computation of the network, and one of the Core in a fresh world with an in-memory host.\<close>

definition on_net :: "('n, str, 'a) eff \<Rightarrow> ('n, 'a) cli_run" where
  "on_net m p = (case m (net_of p) of (r, n) \<Rightarrow> (fallible r, set_net n p))"

definition on_fst :: "('a, 'e, 'x) eff \<Rightarrow> ('a \<times> 'b, 'e, 'x) eff" where
  "on_fst m = (\<lambda>(a, b). case m a of (r, a') \<Rightarrow> (r, (a', b)))"

definition on_snd :: "('b, 'e, 'x) eff \<Rightarrow> ('a \<times> 'b, 'e, 'x) eff" where
  "on_snd m = (\<lambda>(a, b). case m b of (r, b') \<Rightarrow> (r, (a, b')))"

definition process_host :: "(docs \<times> 'n) host_provider" where
  "process_host = \<lparr>hp_apply_edit = (\<lambda>e. on_fst (hp_apply_edit cli_host e)),
     hp_read_document = (\<lambda>u. on_fst (hp_read_document cli_host u)),
     hp_show_ghost = (\<lambda>g. on_fst (hp_show_ghost cli_host g)),
     hp_request_approval = (\<lambda>a. on_fst (hp_request_approval cli_host a)),
     hp_emit_event = (\<lambda>ev (d, n). (hp_emit_event cli_host ev d, n))\<rparr>"

definition process_llm :: "'n llm \<Rightarrow> (docs \<times> 'n) llm" where
  "process_llm l = \<lparr>llm_think = (\<lambda>c. on_snd (llm_think l c)),
     llm_plan_action = (\<lambda>t. on_snd (llm_plan_action l t))\<rparr>"

definition in_core :: "docs \<Rightarrow> (docs \<times> 'n, str, 'a) run \<Rightarrow> ('n, 'a \<times> docs) cli_run" where
  "in_core docs m p = (case m (world0 (docs, net_of p)) of
     (r, w) \<Rightarrow> (fallible (map_sum id (\<lambda>x. (x, fst (env w))) r), set_net (snd (env w)) p))"

text \<open>One transaction on the database of the configuration.\<close>

definition on_comments :: "str \<Rightarrow> (comment list \<Rightarrow> (str + 'a) \<times> comment list) \<Rightarrow> ('n, 'a) cli_run" where
  "on_comments url m p = (let mh = pr_machine p; db = mh_db mh url in
     case m (db_comments db) of (r, tab) \<Rightarrow>
       (fallible r, p\<lparr>pr_machine := mh\<lparr>mh_db := (mh_db mh)(url := db\<lparr>db_comments := tab\<rparr>)\<rparr>\<rparr>))"

definition on_secrets :: "str \<Rightarrow> (secret_row list \<Rightarrow> (str + 'a) \<times> secret_row list) \<Rightarrow> ('n, 'a) cli_run" where
  "on_secrets url m p = (let mh = pr_machine p; db = mh_db mh url in
     case m (db_secrets db) of (r, tab) \<Rightarrow>
       (fallible r, p\<lparr>pr_machine := mh\<lparr>mh_db := (mh_db mh)(url := db\<lparr>db_secrets := tab\<rparr>)\<rparr>\<rparr>))"

section \<open>Chat, craft, quest\<close>

definition em_dash :: str where
  "em_dash = [CHR 0xE2, CHR 0x80, CHR 0x94]"

definition cmd_chat :: "'n cli_lib \<Rightarrow> core_config \<Rightarrow> str \<Rightarrow> str \<Rightarrow> str list \<Rightarrow> ('n, unit) cli_run" where
  "cmd_chat L cfg message session_id attachments =
     (let engine = chat_engine_new (process_llm (build_llm (cl_http L) cfg)) ps_all (\<lambda>e. cl_clock L (snd e)) in
      bnd (in_core (\<lambda>_. None) (reply engine (chat_session_new 2048 16) message (parse_attachments attachments)))
        (\<lambda>((answer, _), _).
      bnd (say (''[chat:'' @ session_id @ ''] '' @ cr_content answer @ [CHR 0x0A])) (\<lambda>_.
      if cr_suggestions answer = [] then ret ()
      else bnd (say ''suggested tools:'') (\<lambda>_.
        say_all (map (\<lambda>s. ''  - '' @ ts_tool s @ '' ('' @ ts_argument s @ '') '' @ em_dash @ '' '' @ ts_rationale s)
          (cr_suggestions answer))))))"

definition parse_edit_kind :: "str \<Rightarrow> edit_kind" where
  "parse_edit_kind k = (if to_ascii_lowercase k = ''command'' then K_RunCommand
     else if to_ascii_lowercase k = ''commit'' then K_Commit else K_FileEdit)"

primrec craft_state_str :: "craft_state \<Rightarrow> str" where
  "craft_state_str CS_Suggestion = ''Suggestion''"
| "craft_state_str CS_PendingConfirm = ''PendingConfirm''"
| "craft_state_str CS_Applied = ''Applied''"
| "craft_state_str CS_Rejected = ''Rejected''"

definition confirmed_by :: "str \<Rightarrow> bool" where
  "confirmed_by line = (to_ascii_lowercase (trim line) \<in> {''y'', ''yes''})"

definition confirm_run :: "'w craft_engine \<Rightarrow> craft_proposal \<Rightarrow> ('w, str, craft_state) run" where
  "confirm_run e p w = (case confirm e p w of ((r, _), w') \<Rightarrow> (r, w'))"

definition cmd_craft :: "'n cli_lib \<Rightarrow> str \<Rightarrow> craft_args \<Rightarrow> ('n, unit) cli_run" where
  "cmd_craft L stdin a =
     (let docs = cli_seed (ca_file a) (ca_old a) (\<lambda>_. None);
          engine = craft_engine_new process_host ps_all (\<lambda>e. cl_clock L (snd e));
          kind = parse_edit_kind (ca_kind a);
          p = fst (propose (ca_file a) (ca_old a) (ca_new a) (ca_rationale a) kind 0)
      in bnd (say_all [''Proposed edit ('' @ craft_state_str (cp_state p) @ ''):'',
             ''  file:    '' @ ca_file a, ''  - '' @ ca_old a, ''  + '' @ ca_new a,
             ''  rationale: '' @ ca_rationale a]) (\<lambda>_.
         bnd (if ca_yes a then ret True
              else bnd (prompt ''Apply this edit? [y/N] '') (\<lambda>_. ret (confirmed_by stdin))) (\<lambda>confirmed.
         if confirmed then
           bnd (in_core docs (confirm_run engine p)) (\<lambda>(state, docs').
           bnd (say (''Applied. state = '' @ craft_state_str state)) (\<lambda>_.
           if kind = K_FileEdit
           then say (''document now: '' @ (case docs' (ca_file a) of Some d \<Rightarrow> d | None \<Rightarrow> []))
           else ret ()))
         else say ''Aborted; no file changed.'')))"

definition pad_left :: "nat \<Rightarrow> str \<Rightarrow> str" where
  "pad_left n s = replicate (n - length s) (CHR '' '') @ s"

definition cmd_quest :: "'n cli_lib \<Rightarrow> core_config \<Rightarrow> str \<Rightarrow> ('n, unit) cli_run" where
  "cmd_quest L cfg goal =
     (let llm = process_llm (build_llm (cl_http L) cfg);
          q = quest_new (llm_decompose llm) llm basic_run (basic_validate (cf_quest_max_steps cfg)) process_host
                (config_quest cfg) (\<lambda>e. cl_clock L (snd e))
      in bnd (say (''[quest] goal = '' @ goal @ ''  (auto_commit = '' @ show_bool (cf_quest_auto_commit cfg) @ '')'')) (\<lambda>_.
         bnd (in_core (\<lambda>_. None) (quest_run q goal)) (\<lambda>(report, _).
         bnd (say (''[quest] subtasks = '' @ show_nat (length (rp_subtasks report)))) (\<lambda>_.
         bnd (say_all (map (\<lambda>st. ''  - ['' @ pad_left 8 (status_str (st_status st)) @ ''] '' @ st_description st)
                (rp_subtasks report))) (\<lambda>_.
         say (''[quest] successes = '' @ show_nat (rp_successes report) @ ''  failures = '' @
           show_nat (rp_failures report) @ ''  pending_approvals = '' @ show_nat (length (rp_pending report))))))))"

section \<open>The other commands\<close>

primrec nes_backend_str :: "nes_backend \<Rightarrow> str" where
  "nes_backend_str Nes_Mock = ''Mock''"
| "nes_backend_str Nes_Ollama = ''Ollama''"
| "nes_backend_str Nes_OpenAi = ''OpenAi''"
| "nes_backend_str Nes_Local = ''Local''"

primrec llm_backend_str :: "llm_backend \<Rightarrow> str" where
  "llm_backend_str Llm_Mock = ''Mock''"
| "llm_backend_str Llm_Ollama = ''Ollama''"
| "llm_backend_str Llm_OpenAi = ''OpenAi''"
| "llm_backend_str Llm_Local = ''Local''"

definition cmd_nes :: "'n cli_lib \<Rightarrow> core_config \<Rightarrow> nat \<Rightarrow> str option \<Rightarrow> ('n, unit) cli_run" where
  "cmd_nes L cfg0 samples backend_override =
     (let cfg = (case backend_override of Some b \<Rightarrow> cfg0\<lparr>cf_nes_backend := nes_parse b\<rparr> | None \<Rightarrow> cfg0) in
      bnd (say (''[nes] backend = '' @ nes_backend_str (cf_nes_backend cfg) @ '', samples = '' @ show_nat samples)) (\<lambda>_.
      bnd (\<lambda>p. case speed_test (\<lambda>s. cl_instant L (fst s)) (default_nes_backend (cl_http L) cfg) samples
                     (net_of p, nes_new (nes_config cfg)) of
                (r, s) \<Rightarrow> (fallible r, set_net (fst s) p)) (\<lambda>times.
      case times of
        None \<Rightarrow> throw Panicked
      | Some (p50, p95) \<Rightarrow>
          bnd (say (''L0 Tab latency: p50='' @ show_tenths p50 @ ''ms p95='' @ show_tenths p95 @ ''ms'')) (\<lambda>_.
          if p95 < 300 then say (''[nes] OK '' @ em_dash @ '' within L0 budget (<300ms).'')
          else say (''[nes] WARN '' @ em_dash @ '' p95 '' @ show_tenths p95 @ ''ms exceeds L0 budget 300ms.'')))))"

definition cmd_serve :: "'n cli_lib \<Rightarrow> core_config \<Rightarrow> str \<Rightarrow> ('n, unit) cli_run" where
  "cmd_serve L cfg addr =
     bnd (say (''[aidea] starting Core gRPC on '' @ addr @ '' (single_tenant='' @ show_bool (cf_single_tenant cfg) @
       '', tenant='' @ cf_tenant_id cfg @ '')'')) (\<lambda>_. on_net (cl_serve L addr cfg))"

definition cmd_version :: "core_config \<Rightarrow> ('n, unit) cli_run" where
  "cmd_version cfg = say_all [''aidea 1.0.0'',
     ''config: grpc_addr='' @ cf_grpc_addr cfg @ '' nes_backend='' @ nes_backend_str (cf_nes_backend cfg) @
     '' llm_backend='' @ llm_backend_str (cf_llm_backend cfg) @ '' model='' @ cf_model_name cfg @ ''@'' @
     cf_model_endpoint cfg @ '' single_tenant='' @ show_bool (cf_single_tenant cfg) @ '' tenant='' @
     cf_tenant_id cfg @ '' sso_enabled='' @ show_bool (cf_sso_enabled cfg)]"

definition cmd_console :: "'n cli_lib \<Rightarrow> core_config \<Rightarrow> ('n, unit) cli_run" where
  "cmd_console L cfg = say_all
     [render_console (cl_json_text L) (console_status \<lparr>ac_principal = config_principal cfg, ac_metrics = metrics_new\<rparr>),
      if cf_sso_enabled cfg
      then ''[console] SSO enabled '' @ em_dash @ '' principals are derived per-request from HS256 bearer tokens.''
      else ''[console] SSO disabled (Noop) '' @ em_dash @ '' using the configured principal.'',
      ''[console] For live metrics/audit counts, query: GET http://'' @ cf_admin_addr cfg @ ''/console'']"

text \<open>The comment store: Postgres when it can be reached, else one in memory for this process.\<close>

definition comment_store_run ::
  "invocation \<Rightarrow> (mem_comments \<Rightarrow> (str + 'a) \<times> mem_comments) \<Rightarrow> (comment list \<Rightarrow> (str + 'a) \<times> comment list) \<Rightarrow>
   ('n, 'a) cli_run" where
  "comment_store_run iv mem pg =
     (case iv_connect iv of
        None \<Rightarrow> on_comments (cf_database_url (iv_config iv)) pg
      | Some _ \<Rightarrow> (\<lambda>p. (fallible (fst (mem mem_comments_new)), p)))"

definition comment_row :: "comment \<Rightarrow> str" where
  "comment_row c = ''#'' @ co_id c @ '' ['' @ (if co_resolved c then ''resolved'' else ''open'') @ ''] '' @ co_file c @
     '':'' @ show_nat (co_line_start c) @ '' '' @ co_author c @ '' '' @ em_dash @ '' '' @ co_body c"

definition cmd_comment :: "'n cli_lib \<Rightarrow> invocation \<Rightarrow> comment_cmd \<Rightarrow> ('n, unit) cli_run" where
  "cmd_comment L iv cmd =
     (let cfg = iv_config iv; tenant = cf_tenant_id cfg in
      case cmd of
        Comment_List f \<Rightarrow>
          bnd (comment_store_run iv (mem_list_for_file tenant f)
                 (pg_list_for_file (iv_faults iv) (cl_collation L) tenant f)) (\<lambda>cs.
          bnd (if cs = [] then say (''[comment] no comments on '' @ f @ '' (tenant='' @ tenant @ '')'') else ret ()) (\<lambda>_.
          say_all (map comment_row cs)))
      | Comment_Add f line t \<Rightarrow>
          bnd (gets (\<lambda>p. comment_new (cl_clock L (net_of p)) tenant f line line (cf_user_id cfg) t)) (\<lambda>c.
          bnd (comment_store_run iv (mem_add c) (pg_add (iv_faults iv) (iv_pg_now iv) c)) (\<lambda>i.
          say (''[comment] added #'' @ i @ '' on '' @ f @ '':'' @ show_nat line @ '' (tenant='' @ tenant @ '')'')))
      | Comment_Resolve i \<Rightarrow>
          bnd (comment_store_run iv (mem_resolve tenant i) (pg_resolve (iv_faults iv) tenant i)) (\<lambda>ok.
          say (''[comment] resolve #'' @ i @ '' -> '' @ (if ok then ''ok'' else ''not found''))))"

text \<open>A lock command on a store; \<open>cmd_lock\<close> makes a new one for every process.\<close>

definition lock_on :: "'n cli_lib \<Rightarrow> core_config \<Rightarrow> lock_cmd \<Rightarrow> mem_locks \<Rightarrow> ('n, mem_locks) cli_run" where
  "lock_on L cfg cmd store =
     (let tenant = cf_tenant_id cfg; owner = cf_user_id cfg in
      case cmd of
        Lock_Acquire f \<Rightarrow>
          bnd (gets (\<lambda>p. lock_acquire (lock_new (cl_clock L (net_of p)) tenant f owner) store)) (\<lambda>store'.
          bnd (say (''[lock] '' @ owner @ '' is now editing '' @ f @ '' (tenant='' @ tenant @ '')'')) (\<lambda>_. ret store'))
      | Lock_Release f \<Rightarrow>
          bnd (say (''[lock] released '' @ f @ '' (tenant='' @ tenant @ '')'')) (\<lambda>_. ret (lock_release tenant f store))
      | Lock_Show f \<Rightarrow>
          bnd (say (case lock_get tenant f store of
                 Some l \<Rightarrow> ''[lock] '' @ f @ '' is being edited by '' @ lk_owner l @ '' (since '' @
                   show_int (lk_acquired_at l) @ '')''
               | None \<Rightarrow> ''[lock] '' @ f @ '' is free (tenant='' @ tenant @ '')'')) (\<lambda>_. ret store))"

definition cmd_lock :: "'n cli_lib \<Rightarrow> core_config \<Rightarrow> lock_cmd \<Rightarrow> ('n, unit) cli_run" where
  "cmd_lock L cfg cmd = bnd (lock_on L cfg cmd []) (\<lambda>_. ret ())"

definition cmd_secret :: "'n cli_lib \<Rightarrow> invocation \<Rightarrow> secret_cmd \<Rightarrow> ('n, unit) cli_run" where
  "cmd_secret L iv cmd =
     (let cfg = iv_config iv; tenant = cf_tenant_id cfg; key = cf_enc_key cfg in
      case iv_connect iv of
        Some e \<Rightarrow> throw (Failed e)
      | None \<Rightarrow> (case cmd of
            Secret_Set name v \<Rightarrow>
              bnd (on_secrets (cf_database_url cfg)
                     (pg_secret_set (iv_faults iv) (cl_crypto L) (iv_draw iv) tenant name v key)) (\<lambda>_.
              say (''[secret] stored '' @ [CHR 0x27] @ name @ [CHR 0x27] @ '' encrypted at rest (tenant='' @ tenant @ '')''))
          | Secret_Get name \<Rightarrow>
              bnd (on_secrets (cf_database_url cfg) (pg_secret_get (iv_faults iv) (cl_crypto L) tenant name key)) (\<lambda>v.
              say (case v of
                  Some v \<Rightarrow> ''[secret] '' @ name @ '' = '' @ v
                | None \<Rightarrow> ''[secret] '' @ [CHR 0x27] @ name @ [CHR 0x27] @ '' not found (tenant='' @ tenant @ '')''))))"

definition dispatch_with :: "'n cli_lib \<Rightarrow> invocation \<Rightarrow> command \<Rightarrow> ('n, unit) cli_run" where
  "dispatch_with L iv cmd =
     (let cfg = iv_config iv in
      case cmd of
        Cmd_Chat message session_id attachments \<Rightarrow> cmd_chat L cfg message session_id attachments
      | Cmd_Craft a \<Rightarrow> cmd_craft L (iv_stdin iv) a
      | Cmd_Nes samples b \<Rightarrow> cmd_nes L cfg samples b
      | Cmd_Serve addr \<Rightarrow> cmd_serve L cfg addr
      | Cmd_Version \<Rightarrow> cmd_version cfg
      | Cmd_Console \<Rightarrow> cmd_console L cfg
      | Cmd_Quest goal \<Rightarrow> cmd_quest L cfg goal
      | Cmd_Comment c \<Rightarrow> cmd_comment L iv c
      | Cmd_Lock c \<Rightarrow> cmd_lock L cfg c
      | Cmd_Secret c \<Rightarrow> cmd_secret L iv c)"

text \<open>A whole invocation: what it ends with, what it prints, and the machine it leaves.\<close>

definition aidea :: "'n cli_lib \<Rightarrow> invocation \<times> command \<Rightarrow> 'n machine \<Rightarrow> (cli_error + unit) \<times> str \<times> 'n machine" where
  "aidea L = (\<lambda>(iv, cmd) mh. case dispatch_with L iv cmd \<lparr>pr_out = [], pr_machine = mh, pr_stdout = iv_stdout iv\<rparr> of
     (r, p) \<Rightarrow> (r, pr_out p, pr_machine p))"

definition after :: "'n cli_lib \<Rightarrow> (invocation \<times> command) list \<Rightarrow> 'n machine \<Rightarrow> 'n machine" where
  "after L hist mh = fold (\<lambda>i mh. snd (snd (aidea L i mh))) hist mh"

section \<open>What is printed\<close>

definition lines_out :: "str list \<Rightarrow> str" where
  "lines_out ls = concat (map (\<lambda>l. l @ [CHR 0x0A]) ls)"

lemma lines_out_simps [simp]:
  "lines_out [] = []" "lines_out (l # ls) = l @ CHR 0x0A # lines_out ls"
  by (simp_all add: lines_out_def)

lemma say_app [eff_simps]: "pr_stdout p \<Longrightarrow> say l p = (Inr (), p\<lparr>pr_out := pr_out p @ l @ [CHR 0x0A]\<rparr>)"
  by (simp add: say_def)

lemma prompt_app [eff_simps]: "pr_stdout p \<Longrightarrow> prompt t p = (Inr (), p\<lparr>pr_out := pr_out p @ t\<rparr>)"
  by (simp add: prompt_def)

lemma say_all_app [eff_simps]: "pr_stdout p \<Longrightarrow> say_all ls p = (Inr (), p\<lparr>pr_out := pr_out p @ lines_out ls\<rparr>)"
  by (induction ls arbitrary: p) (simp_all add: eff_simps)

lemma fallible_simps [simp]: "fallible (Inl e) = Inl (Failed e)" "fallible (Inr x) = Inr x"
  by (simp_all add: fallible_def)

lemma fallible_no_panic: "fallible r \<noteq> Inl Panicked"
  by (cases r) simp_all

section \<open>Locks\<close>

text \<open>
  The lock store of the command line lives as long as one command: whatever was locked before,
  by anyone, showing a lock prints that the file is free.
\<close>

theorem cli_locks_vanish:
  "iv_stdout iv \<Longrightarrow> aidea L (iv, Cmd_Lock (Lock_Show f)) (after L hist mh) =
     (Inr (), ''[lock] '' @ f @ '' is free (tenant='' @ cf_tenant_id (iv_config iv) @ '')'' @ [CHR 0x0A], after L hist mh)"
  by (simp add: aidea_def dispatch_with_def cmd_lock_def lock_on_def lock_get_def eff_simps)

section \<open>Craft\<close>

text \<open>The seeded host always has the text to replace: an edit of a document that is the old text.\<close>

lemma replace_whole: "contains_str old old \<and> replace_first old new old = new"
proof -
  have "find_str old old = Some 0" by (cases old) (simp_all add: starts_with_def)
  then show ?thesis by (simp add: contains_str_def replace_first_def)
qed

lemma apply_seeded:
  assumes "env w = (cli_seed f old (\<lambda>_. None), n)" and "cp_uri p = f" "cp_old p = old" "cp_new p = new"
  shows "\<exists>w'. apply_proposal (craft_engine_new process_host ps clk) p w = (Inr (), w') \<and>
     env w' = (cli_seed f (if cp_kind p = K_FileEdit then new else old) (\<lambda>_. None), n)"
  using assms replace_whole [of old new]
  by (cases "cp_kind p")
    (simp_all add: apply_proposal_def craft_engine_new_def bridge_apply_edit_def bridge_emit_event_def process_host_def
      cli_host_def on_fst_def cli_apply_edit_def cli_seed_def proposal_edit_def mark_def count_metric_def
      external_def eff_simps)

lemma cli_seed_same [simp]: "cli_seed f d docs f = Some d"
  by (simp add: cli_seed_def)

lemma craft_confirmed:
  assumes "p = fst (propose f old new r k 0)"
  shows "in_core (cli_seed f old (\<lambda>_. None)) (confirm_run (craft_engine_new process_host ps_all clk) p) s =
     (Inr (CS_Applied, cli_seed f (if k = K_FileEdit then new else old) (\<lambda>_. None)), s)"
proof -
  have p: "cp_uri p = f" "cp_old p = old" "cp_new p = new" "cp_kind p = k"
    using assms by (simp_all add: propose_def proposal_new_def)
  let ?e = "craft_engine_new process_host ps_all clk" and ?w = "world0 (cli_seed f old (\<lambda>_. None), net_of s)"
  obtain w1 where audit: "craft_audit ?e (from_permission (kind_permission (cp_kind p))) True
      (JObj [(''kind'', JStr (kind_str (cp_kind p))), (''uri'', JStr (cp_uri p))]) ?w = (Inr (), w1)"
    and w1: "env w1 = (cli_seed f old (\<lambda>_. None), net_of s)"
    by (simp add: craft_audit_quiet world0_def)
  obtain w2 where "apply_proposal ?e p w1 = (Inr (), w2)"
    and w2: "env w2 = (cli_seed f (if k = K_FileEdit then new else old) (\<lambda>_. None), net_of s)"
    using apply_seeded [OF w1 p(1-3)] p(4) by blast
  with audit have "confirm_effects ?e p ?w = (Inr (), w2)"
    by (simp add: confirm_effects_def craft_allowed eff_simps Let_def)
  with w2 show ?thesis
    by (simp add: in_core_def confirm_run_def confirm_def set_net_def net_of_def)
qed

definition craft_header :: "craft_args \<Rightarrow> str" where
  "craft_header a = lines_out [''Proposed edit (Suggestion):'', ''  file:    '' @ ca_file a,
     ''  - '' @ ca_old a, ''  + '' @ ca_new a, ''  rationale: '' @ ca_rationale a]"

lemma craft_run:
  "iv_stdout iv \<Longrightarrow> aidea L (iv, Cmd_Craft a) mh =
     (Inr (), craft_header a @ (if ca_yes a then [] else ''Apply this edit? [y/N] '') @
        (if ca_yes a \<or> confirmed_by (iv_stdin iv)
         then lines_out (''Applied. state = Applied'' #
           (if parse_edit_kind (ca_kind a) = K_FileEdit then [''document now: '' @ ca_new a] else []))
         else lines_out [''Aborted; no file changed.'']), mh)"
proof -
  assume "iv_stdout iv"
  moreover have "cp_state (fst (propose (ca_file a) (ca_old a) (ca_new a) (ca_rationale a) k 0)) = CS_Suggestion" for k
    by (simp add: propose_def proposal_new_def)
  ultimately show ?thesis
    by (simp add: aidea_def dispatch_with_def cmd_craft_def Let_def eff_simps craft_confirmed [OF refl]
        craft_header_def)
qed

text \<open>
  With a stdout that can be written a craft command never fails and changes nothing beyond its process: confirmed by the flag or
  by the answer it reports the edit as applied, and for a file edit the document as the new text;
  otherwise it says that nothing was changed.
\<close>

theorem cli_craft_outcome:
  "iv_stdout iv \<Longrightarrow> aidea L (iv, Cmd_Craft a) mh =
     (Inr (), craft_header a @ (if ca_yes a then [] else ''Apply this edit? [y/N] '') @
        (if ca_yes a \<or> confirmed_by (iv_stdin iv)
         then lines_out (''Applied. state = Applied'' #
           (if parse_edit_kind (ca_kind a) = K_FileEdit then [''document now: '' @ ca_new a] else []))
         else lines_out [''Aborted; no file changed.'']), mh)"
  by (rule craft_run)

section \<open>How commands end\<close>

text \<open>On a stdout that can be written a computation ends well; on one that cannot it panics at once,
  or does not end well.\<close>

definition ends_well :: "('n, 'a) cli_run \<Rightarrow> bool" where
  "ends_well m \<longleftrightarrow> (\<forall>p. pr_stdout p \<longrightarrow> (\<exists>x t. m p = (Inr x, t) \<and> pr_stdout t))"

definition panics_at_once :: "('n, 'a) cli_run \<Rightarrow> bool" where
  "panics_at_once m \<longleftrightarrow> (\<forall>p. \<not> pr_stdout p \<longrightarrow> m p = (Inl Panicked, p))"

definition ends_badly :: "('n, 'a) cli_run \<Rightarrow> bool" where
  "ends_badly m \<longleftrightarrow> (\<forall>p x t. \<not> pr_stdout p \<longrightarrow> m p \<noteq> (Inr x, t))"

definition keeps_stdout :: "('n, 'a) cli_run \<Rightarrow> bool" where
  "keeps_stdout m \<longleftrightarrow> (\<forall>p. pr_stdout (snd (m p)) = pr_stdout p)"

lemma ends_well_bnd: "ends_well m \<Longrightarrow> (\<And>x. ends_well (f x)) \<Longrightarrow> ends_well (bnd m f)"
  unfolding ends_well_def by (metis bnd_Inr)

lemma ends_well_prim:
  "ends_well (ret x)" "ends_well (say l)" "ends_well (say_all ls)" "ends_well (prompt t)" "ends_well (gets h)"
  by (simp_all add: ends_well_def eff_simps)

lemma ends_well_pair: "(\<And>a b. ends_well (f a b)) \<Longrightarrow> ends_well (case x of (a, b) \<Rightarrow> f a b)"
  by (cases x) simp

lemma ends_well_quest: "ends_well (in_core docs (quest_run q goal))"
  by (auto simp: ends_well_def in_core_def set_net_def quest_run_def split: prod.split)

lemma ends_well_memory:
  "iv_connect iv = Some e \<Longrightarrow> (\<And>s. \<exists>x s'. mem s = (Inr x, s')) \<Longrightarrow> ends_well (comment_store_run iv mem pg)"
  by (auto simp: ends_well_def comment_store_run_def) (metis fst_conv fallible_simps(2))

lemmas ends_well_intros = ends_well_bnd ends_well_prim ends_well_pair ends_well_quest

lemma ends_well_commands:
  "ends_well (cmd_version cfg)" "ends_well (cmd_console L cfg)" "ends_well (cmd_lock L cfg c)"
  "ends_well (cmd_quest L cfg goal)"
  by (auto simp: cmd_version_def cmd_console_def cmd_lock_def lock_on_def cmd_quest_def Let_def
      intro!: ends_well_intros split: lock_cmd.split)

lemma ends_well_comment:
  assumes "iv_connect iv = Some e"
  shows "ends_well (cmd_comment L iv c)"
  by (auto simp: cmd_comment_def Let_def mem_list_for_file_def mem_add_def mem_resolve_def split: comment_cmd.split prod.split
      intro!: ends_well_intros ends_well_memory [OF assms])

lemma panics_say: "panics_at_once (say l)" "ls \<noteq> [] \<Longrightarrow> panics_at_once (say_all ls)"
  by (auto simp: panics_at_once_def say_def bnd_app neq_Nil_conv)

lemma panics_bnd: "panics_at_once m \<Longrightarrow> panics_at_once (bnd m f)"
  by (simp add: panics_at_once_def bnd_app)

lemma panics_commands:
  "panics_at_once (cmd_version cfg)" "panics_at_once (cmd_console L cfg)"
  "panics_at_once (cmd_quest L cfg goal)" "panics_at_once (cmd_craft L stdin a)"
  "panics_at_once (cmd_nes L cfg samples b)" "panics_at_once (cmd_serve L cfg addr)"
  by (simp_all only: cmd_version_def cmd_console_def cmd_quest_def cmd_craft_def cmd_nes_def cmd_serve_def Let_def)
    (auto intro: panics_bnd panics_say)

lemma panics_lock: "panics_at_once (cmd_lock L cfg c)"
  by (cases c)
    (auto simp: panics_at_once_def cmd_lock_def lock_on_def Let_def bnd_app gets_app say_def)

lemma ends_badly_panics: "panics_at_once m \<Longrightarrow> ends_badly m"
  by (simp add: panics_at_once_def ends_badly_def)

lemma ends_badly_bnd: "ends_badly m \<Longrightarrow> ends_badly (bnd m f)"
  by (auto simp: ends_badly_def bnd_app split: prod.splits sum.splits)

lemma ends_badly_after: "keeps_stdout m \<Longrightarrow> (\<And>x. ends_badly (f x)) \<Longrightarrow> ends_badly (bnd m f)"
  by (auto simp: ends_badly_def keeps_stdout_def bnd_app split: prod.splits sum.splits)

lemma ends_badly_pair: "(\<And>a b. ends_badly (f a b)) \<Longrightarrow> ends_badly (case x of (a, b) \<Rightarrow> f a b)"
  by (cases x) simp

lemma ends_badly_say: "ends_badly (say l)" "ls \<noteq> [] \<Longrightarrow> ends_badly (say_all ls)"
  by (simp_all add: ends_badly_panics panics_say)

lemma keeps_stdout_prim:
  "keeps_stdout (in_core docs c)" "keeps_stdout (comment_store_run iv mem pg)" "keeps_stdout (gets h)"
  "keeps_stdout (ret x)"
  by (auto simp: keeps_stdout_def in_core_def set_net_def comment_store_run_def on_comments_def Let_def eff_simps
      split: prod.split option.split)

lemma ends_badly_listing:
  "ends_badly (bnd (if cs = [] then say l else ret ()) (\<lambda>_. say_all (map g cs)))"
  by (cases "cs = []") (auto intro: ends_badly_bnd ends_badly_after ends_badly_say keeps_stdout_prim)

lemma ends_badly_commands:
  "ends_badly (cmd_chat L cfg message sid atts)" "ends_badly (cmd_comment L iv c)"
proof -
  show "ends_badly (cmd_chat L cfg message sid atts)"
    unfolding cmd_chat_def Let_def
    by (rule ends_badly_after [OF keeps_stdout_prim(1)])
      (auto split: prod.split intro: ends_badly_bnd [OF ends_badly_say(1)])
  show "ends_badly (cmd_comment L iv c)"
  proof (cases c)
    case (Comment_List f)
    then show ?thesis unfolding cmd_comment_def Let_def comment_cmd.case
      by (simp only: comment_cmd.case) (intro ends_badly_after [OF keeps_stdout_prim(2)] ends_badly_listing)
  next
    case (Comment_Add f l t)
    then show ?thesis unfolding cmd_comment_def Let_def
      by (simp only: comment_cmd.case)
        (intro ends_badly_after [OF keeps_stdout_prim(3)] ends_badly_after [OF keeps_stdout_prim(2)] ends_badly_say)
  next
    case (Comment_Resolve i)
    then show ?thesis unfolding cmd_comment_def Let_def
      by (simp only: comment_cmd.case) (intro ends_badly_after [OF keeps_stdout_prim(2)] ends_badly_say)
  qed
qed

lemma nes_panics:
  assumes "pr_stdout p"
  shows "(fst (cmd_nes L cfg samples b p) = Inl Panicked) = (samples = 0 \<or> capacity_overflow samples)"
proof -
  let ?cfg = "case b of Some b \<Rightarrow> cfg\<lparr>cf_nes_backend := nes_parse b\<rparr> | None \<Rightarrow> cfg"
  let ?test = "speed_test (\<lambda>s. cl_instant L (fst s)) (default_nes_backend (cl_http L) ?cfg) samples
      (net_of p, nes_new (nes_config ?cfg))"
  obtain r s' where run: "?test = (r, s')" by (rule that [OF prod.collapse [symmetric]])
  show ?thesis
  proof (cases r)
    case (Inl e)
    have "\<not> (samples = 0 \<or> capacity_overflow samples)"
    proof
      assume "samples = 0 \<or> capacity_overflow samples"
      with run Inl show False by (simp add: speed_test_empty)
    qed
    with run Inl assms show ?thesis by (simp add: cmd_nes_def Let_def eff_simps net_of_def)
  next
    case (Inr times)
    with run have "(times = None) = (samples = 0 \<or> capacity_overflow samples)" by (simp add: speed_test_answer)
    with run Inr assms show ?thesis
      by (cases times) (auto simp: cmd_nes_def Let_def say_app bnd_app throw_app net_of_def set_net_def if_distribR
          split: if_splits)
  qed
qed

text \<open>How the model answers the chat of a command line.\<close>

definition cli_reply ::
  "'n cli_lib \<Rightarrow> core_config \<Rightarrow> str \<Rightarrow> str list \<Rightarrow> 'n \<Rightarrow> str + (chat_reply \<times> chat_session)" where
  "cli_reply L cfg message atts n =
     fst (reply (chat_engine_new (process_llm (build_llm (cl_http L) cfg)) ps_all (\<lambda>e. cl_clock L (snd e)))
       (chat_session_new 2048 16) message (parse_attachments atts) (world0 (\<lambda>_. None, n)))"

lemma chat_end:
  assumes "pr_stdout p"
  shows "fst (cmd_chat L cfg message sid atts p) =
     (case cli_reply L cfg message atts (net_of p) of Inl e \<Rightarrow> Inl (Failed e) | Inr _ \<Rightarrow> Inr ())"
proof -
  let ?m = "reply (chat_engine_new (process_llm (build_llm (cl_http L) cfg)) ps_all (\<lambda>e. cl_clock L (snd e)))
       (chat_session_new 2048 16) message (parse_attachments atts) (world0 (\<lambda>_. None, net_of p))"
  obtain r w where run: "?m = (r, w)" by (rule that [OF prod.collapse [symmetric]])
  show ?thesis
    using run assms
    by (cases r) (auto simp: cmd_chat_def cli_reply_def Let_def in_core_def bnd_app eff_simps set_net_def
        split: prod.splits)
qed


section \<open>Secrets\<close>

lemma secret_run:
  "cmd_secret L iv c p =
     (Inl (Failed (case iv_connect iv of Some e \<Rightarrow> e | None \<Rightarrow> secret_error (iv_faults iv))), p)"
  by (cases c) (auto simp: cmd_secret_def Let_def on_secrets_def bnd_app throw_app fun_upd_triv split: option.split)

text \<open>What the database at \<open>url\<close> keeps, and that a step leaves it.\<close>

definition same_secrets :: "str \<Rightarrow> 'n process \<Rightarrow> 'n process \<Rightarrow> bool" where
  "same_secrets url p p' \<longleftrightarrow> db_secrets (mh_db (pr_machine p') url) = db_secrets (mh_db (pr_machine p) url)"

interpretation secret_held: state_rel "same_secrets url" for url
  by unfold_locales (auto simp: same_secrets_def)

lemma same_secrets_prim:
  "rel_eff (same_secrets url) (say l)" "rel_eff (same_secrets url) (prompt t)" "rel_eff (same_secrets url) (on_net m)"
  "rel_eff (same_secrets url) (in_core docs c)"
  by (auto simp: rel_eff_def same_secrets_def say_def prompt_def eff_simps on_net_def in_core_def set_net_def
      split: prod.split)

lemma same_secrets_say_all: "rel_eff (same_secrets url) (say_all ls)"
  unfolding rel_eff_def same_secrets_def
  by (induction ls) (auto simp: say_def bnd_app split: prod.splits)

lemma same_secrets_comments: "rel_eff (same_secrets url) (comment_store_run iv mem pg)"
  by (auto simp: rel_eff_def same_secrets_def comment_store_run_def on_comments_def Let_def
      split: prod.split option.split)

lemma same_secrets_pair:
  "(\<And>a b. rel_eff (same_secrets url) (f a b)) \<Longrightarrow> rel_eff (same_secrets url) (case x of (a, b) \<Rightarrow> f a b)"
  by (cases x) simp

lemmas same_secrets_intros =
  secret_held.rel_intros same_secrets_prim same_secrets_say_all same_secrets_comments same_secrets_pair

lemma same_secrets_nes: "rel_eff (same_secrets url) (cmd_nes L cfg samples b)"
  unfolding cmd_nes_def Let_def
  by (intro same_secrets_intros)
    (auto simp: rel_eff_def same_secrets_def set_net_def say_def eff_simps split: prod.split option.split
      intro: same_secrets_intros)

lemma same_secrets_dispatch: "rel_eff (same_secrets url) (dispatch_with L iv cmd)"
proof (cases cmd)
  case (Cmd_Secret c)
  then show ?thesis by (simp add: dispatch_with_def rel_eff_def same_secrets_def secret_run)
qed (auto simp: dispatch_with_def same_secrets_nes cmd_chat_def cmd_craft_def cmd_serve_def cmd_version_def
      cmd_console_def cmd_quest_def cmd_comment_def cmd_lock_def lock_on_def Let_def
      intro!: same_secrets_intros split: comment_cmd.split lock_cmd.split)

lemma after_same_secrets: "db_secrets (mh_db (after L hist mh) url) = db_secrets (mh_db mh url)"
proof -
  have "db_secrets (mh_db (snd (snd (aidea L i mh))) url) = db_secrets (mh_db mh url)" for i and mh :: "'a machine"
  proof (cases i)
    case (Pair iv cmd)
    obtain r p where run: "dispatch_with L iv cmd \<lparr>pr_out = [], pr_machine = mh, pr_stdout = iv_stdout iv\<rparr> = (r, p)"
      by (metis prod.collapse)
    from rel_effD [OF same_secrets_dispatch run] Pair run show ?thesis
      by (simp add: same_secrets_def aidea_def)
  qed
  then show ?thesis unfolding after_def by (induction hist arbitrary: mh) simp_all
qed


end
