(* ===== verification/Fs_Host.thy ===== *)
theory Fs_Host
  imports Craft Admin
begin

text \<open>
  The file-system host of the desktop shell and the craft commands over it (src/gui/src-tauri/src,
  domain/fs_host.rs and domain/craft.rs).  The disk maps paths to bytes and knows its directories; two
  spellings of one path are two files.  The explanatory texts of its errors are Chinese and are given
  here by a word.
\<close>

section \<open>The disk\<close>

text \<open>
  A directory is given by the components of its path: whether it is absolute, and the names.  The
  operating system answers by four functions: which files cannot be read, which directories cannot be
  made, the error of opening a file for writing, and the number of bytes after which writing a file
  breaks off (a full disk, a quota) with its error.
\<close>

type_synonym dir = "bool \<times> str list"

record disk =
  dk_files :: "str \<Rightarrow> str option"
  dk_dirs :: "dir set"
  dk_unreadable :: "str \<Rightarrow> bool"
  dk_no_mkdir :: "dir \<Rightarrow> bool"
  dk_refused :: "str \<Rightarrow> str option"
  dk_breaks :: "str \<Rightarrow> (nat \<times> str) option"

text \<open>\<open>read_to_string\<close> fails on a missing or unreadable file and on bytes that are not UTF-8.\<close>

definition valid_utf8 :: "str \<Rightarrow> bool" where
  "valid_utf8 b \<longleftrightarrow> from_utf8_lossy b = b"

definition read_to_string :: "str \<Rightarrow> disk \<Rightarrow> str option" where
  "read_to_string path d = (case dk_files d path of
       None \<Rightarrow> None
     | Some b \<Rightarrow> if dk_unreadable d path \<or> \<not> valid_utf8 b then None else Some b)"

text \<open>
  \<open>Path::parent\<close>, by components: empty ones and dots do not count.  The root and the current
  directory are always there, and a path without a parent has nothing to make.
\<close>

definition path_components :: "str \<Rightarrow> str list" where
  "path_components path = filter (\<lambda>c. c \<noteq> [] \<and> c \<noteq> ''.'') (split_on CHR ''/'' path)"

definition parent_dir :: "str \<Rightarrow> dir" where
  "parent_dir path = (starts_with path ''/'', butlast (path_components path))"

definition dir_exists :: "disk \<Rightarrow> dir \<Rightarrow> bool" where
  "dir_exists d p \<longleftrightarrow> snd p = [] \<or> p \<in> dk_dirs d"

text \<open>
  \<open>create_dir_all\<close>: the missing directories from the top, up to the first one that cannot be made.
  Its result is not looked at.
\<close>

fun make_dirs :: "bool \<Rightarrow> str list \<Rightarrow> str list \<Rightarrow> disk \<Rightarrow> disk" where
  "make_dirs absolute up [] d = d"
| "make_dirs absolute up (c # cs) d =
     (let p = (absolute, up @ [c]) in
      if p \<in> dk_dirs d then make_dirs absolute (up @ [c]) cs d
      else if dk_no_mkdir d p then d
      else make_dirs absolute (up @ [c]) cs (d\<lparr>dk_dirs := insert p (dk_dirs d)\<rparr>))"

definition create_dir_all :: "dir \<Rightarrow> disk \<Rightarrow> disk" where
  "create_dir_all p = make_dirs (fst p) [] (snd p)"

text \<open>
  \<open>std::fs::write\<close>: the file is opened and truncated, which may be refused, then written, which may
  break off and leave the beginning of the content.
\<close>

definition write_file :: "str \<Rightarrow> str \<Rightarrow> (disk, str, unit) eff" where
  "write_file path content d =
     (if \<not> dir_exists d (parent_dir path) then (Inl ''no such directory'', d)
      else case dk_refused d path of
        Some e \<Rightarrow> (Inl e, d)
      | None \<Rightarrow>
          (case dk_breaks d path of
             Some (n, e) \<Rightarrow> if n < length content
               then (Inl e, d\<lparr>dk_files := (dk_files d)(path \<mapsto> take n content)\<rparr>)
               else (Inr (), d\<lparr>dk_files := (dk_files d)(path \<mapsto> content)\<rparr>)
           | None \<Rightarrow> (Inr (), d\<lparr>dk_files := (dk_files d)(path \<mapsto> content)\<rparr>)))"

section \<open>The host\<close>

definition fs_apply_edit :: "text_edit \<Rightarrow> (disk, host_error, unit) eff" where
  "fs_apply_edit edit d =
     (let path = document_uri edit;
          current = (case read_to_string path d of Some s \<Rightarrow> s | None \<Rightarrow> [])
      in if old_text edit \<noteq> [] \<and> \<not> contains_str current (old_text edit)
         then (Inl (EditRejected (''not found in '' @ path)), d)
         else
           let updated = (if old_text edit = [] then current @ new_text edit
                          else replace_first (old_text edit) (new_text edit) current)
           in case write_file path updated (create_dir_all (parent_dir path) d) of
                (Inl e, d') \<Rightarrow> (Inl (EditRejected (''cannot write '' @ path @ '': '' @ e)), d')
              | (Inr _, d') \<Rightarrow> (Inr (), d'))"

definition fs_read_document :: "str \<Rightarrow> (disk, host_error, str) eff" where
  "fs_read_document uri d = (case read_to_string uri d of
       None \<Rightarrow> (Inl (DocumentNotFound uri), d) | Some s \<Rightarrow> (Inr s, d))"

definition fs_host :: "disk host_provider" where
  "fs_host = \<lparr>hp_apply_edit = fs_apply_edit, hp_read_document = fs_read_document,
     hp_show_ghost = (\<lambda>_. ret ()), hp_request_approval = (\<lambda>_. ret True),
     hp_emit_event = (\<lambda>_ d. d)\<rparr>"

section \<open>The craft commands\<close>

record craft_request =
  cq_document_uri :: str
  cq_old_text :: str
  cq_new_text :: str
  cq_rationale :: str
  cq_kind :: str

record craft_action_request = craft_request +
  cq_id :: str

record craft_proposal_dto =
  cd_id :: str
  cd_document_uri :: str
  cd_old_text :: str
  cd_new_text :: str
  cd_rationale :: str
  cd_kind :: str
  cd_state :: craft_state

definition map_kind :: "str \<Rightarrow> edit_kind" where
  "map_kind k = (if to_ascii_lowercase k = ''runcommand'' then K_RunCommand
     else if to_ascii_lowercase k = ''commit'' then K_Commit else K_FileEdit)"

definition engine_with_fs :: "(disk \<Rightarrow> int) \<Rightarrow> disk craft_engine" where
  "engine_with_fs clk = craft_engine_new fs_host ps_all clk"

definition dto_of :: "craft_proposal \<Rightarrow> str \<Rightarrow> craft_state \<Rightarrow> craft_proposal_dto" where
  "dto_of p kind st = \<lparr>cd_id = cp_id p, cd_document_uri = cp_uri p, cd_old_text = cp_old p, cd_new_text = cp_new p,
     cd_rationale = cp_rationale p, cd_kind = kind, cd_state = st\<rparr>"

text \<open>The counter is the engine's static; the disk is not touched.\<close>

definition craft_propose :: "craft_request \<Rightarrow> u64 \<Rightarrow> craft_proposal_dto \<times> u64" where
  "craft_propose req counter =
     (case propose (cq_document_uri req) (cq_old_text req) (cq_new_text req) (cq_rationale req)
             (map_kind (cq_kind req)) counter of
        (p, counter') \<Rightarrow> (dto_of p (cq_kind req) (cp_state p), counter'))"

definition request_proposal :: "craft_action_request \<Rightarrow> craft_proposal" where
  "request_proposal req = proposal_new (cq_id req) (cq_document_uri req) (cq_old_text req) (cq_new_text req)
     (cq_rationale req) (map_kind (cq_kind req))"

definition craft_confirm ::
  "(disk \<Rightarrow> int) \<Rightarrow> craft_action_request \<Rightarrow> disk \<Rightarrow> (str + craft_proposal_dto) \<times> disk" where
  "craft_confirm clk req d =
     (case confirm (engine_with_fs clk) (request_proposal req) (world0 d) of
        ((Inl e, _), w) \<Rightarrow> (Inl e, env w)
      | ((Inr st, p), w) \<Rightarrow> (Inr (dto_of p (cq_kind req) st), env w))"

definition craft_reject :: "craft_action_request \<Rightarrow> craft_proposal_dto" where
  "craft_reject req = dto_of (request_proposal req) (cq_kind req) CS_Rejected"

section \<open>What a confirmation does to the disk\<close>

lemma make_dirs_keeps [simp]:
  "dk_files (make_dirs ab up cs d) = dk_files d" "dk_unreadable (make_dirs ab up cs d) = dk_unreadable d"
  "dk_no_mkdir (make_dirs ab up cs d) = dk_no_mkdir d" "dk_refused (make_dirs ab up cs d) = dk_refused d"
  "dk_breaks (make_dirs ab up cs d) = dk_breaks d"
  by (induction ab up cs d rule: make_dirs.induct) (simp_all add: Let_def)

lemma create_dir_all_keeps [simp]:
  "dk_files (create_dir_all p d) = dk_files d" "dk_unreadable (create_dir_all p d) = dk_unreadable d"
  "dk_no_mkdir (create_dir_all p d) = dk_no_mkdir d" "dk_refused (create_dir_all p d) = dk_refused d"
  "dk_breaks (create_dir_all p d) = dk_breaks d"
  by (simp_all add: create_dir_all_def)

text \<open>Which directories are made: those above the target, up to the first one that cannot be.\<close>

definition dirs_above :: "bool \<Rightarrow> str list \<Rightarrow> str list \<Rightarrow> dir list" where
  "dirs_above absolute up cs = map (\<lambda>n. (absolute, up @ take n cs)) [1..<length cs + 1]"

definition made_dirs :: "dir \<Rightarrow> disk \<Rightarrow> dir list" where
  "made_dirs p d = takeWhile (\<lambda>q. q \<in> dk_dirs d \<or> \<not> dk_no_mkdir d q) (dirs_above (fst p) [] (snd p))"

lemma dirs_above_Cons:
  "dirs_above ab up (c # cs) = (ab, up @ [c]) # dirs_above ab (up @ [c]) cs"
  by (simp add: dirs_above_def upt_conv_Cons map_Suc_upt [symmetric] o_def del: upt_Suc)

lemma longer_dirs:
  "q \<in> set (dirs_above ab up cs) \<Longrightarrow> length up < length (snd q)"
  by (auto simp: dirs_above_def)

lemma make_dirs_spec:
  "make_dirs ab up cs d = d\<lparr>dk_dirs := dk_dirs d \<union>
     set (takeWhile (\<lambda>q. q \<in> dk_dirs d \<or> \<not> dk_no_mkdir d q) (dirs_above ab up cs))\<rparr>"
proof (induction ab up cs d rule: make_dirs.induct)
  case (1 ab up d)
  then show ?case by (simp add: dirs_above_def)
next
  case (2 ab up c cs d)
  let ?p = "(ab, up @ [c])"
  have fresh: "takeWhile (\<lambda>q. q \<in> insert ?p (dk_dirs d) \<or> \<not> dk_no_mkdir d q) (dirs_above ab (up @ [c]) cs) =
      takeWhile (\<lambda>q. q \<in> dk_dirs d \<or> \<not> dk_no_mkdir d q) (dirs_above ab (up @ [c]) cs)"
    by (rule takeWhile_cong) (auto dest: longer_dirs)
  show ?case
  proof (cases "?p \<in> dk_dirs d")
    case True
    with 2 have "make_dirs ab up (c # cs) d = d\<lparr>dk_dirs := dk_dirs d \<union>
        set (takeWhile (\<lambda>q. q \<in> dk_dirs d \<or> \<not> dk_no_mkdir d q) (dirs_above ab (up @ [c]) cs))\<rparr>" by simp
    moreover have "insert ?p (dk_dirs d \<union> X) = dk_dirs d \<union> X" for X using True by blast
    ultimately show ?thesis using True by (simp add: dirs_above_Cons)
  next
    case False
    then show ?thesis using 2 fresh by (cases "dk_no_mkdir d ?p") (simp_all add: dirs_above_Cons Let_def)
  qed
qed

lemma create_dir_all_spec:
  "create_dir_all p d = d\<lparr>dk_dirs := dk_dirs d \<union> set (made_dirs p d)\<rparr>"
  by (simp add: create_dir_all_def make_dirs_spec made_dirs_def)

text \<open>The outcome of a write: its error, if any, and how much of the content the file then holds.\<close>

definition write_error :: "disk \<Rightarrow> str \<Rightarrow> str \<Rightarrow> str option" where
  "write_error d path content =
     (if \<not> dir_exists d (parent_dir path) then Some ''no such directory''
      else if dk_refused d path \<noteq> None then dk_refused d path
      else case dk_breaks d path of Some (n, e) \<Rightarrow> if n < length content then Some e else None | None \<Rightarrow> None)"

definition left_behind :: "disk \<Rightarrow> str \<Rightarrow> str \<Rightarrow> str option" where
  "left_behind d path content =
     (if \<not> dir_exists d (parent_dir path) \<or> dk_refused d path \<noteq> None then dk_files d path
      else case dk_breaks d path of Some (n, _) \<Rightarrow> Some (take n content) | None \<Rightarrow> Some content)"

lemma write_file_outcome:
  "write_file path content d =
     (case write_error d path content of Some e \<Rightarrow> Inl e | None \<Rightarrow> Inr (),
      d\<lparr>dk_files := (dk_files d)(path := left_behind d path content)\<rparr>)"
  by (auto simp: write_file_def write_error_def left_behind_def split: option.splits)

lemma fs_apply_edit_cases:
  "fs_apply_edit edit d =
     (case (case read_to_string (document_uri edit) d of Some s \<Rightarrow> s | None \<Rightarrow> []) of current \<Rightarrow>
        if old_text edit \<noteq> [] \<and> \<not> contains_str current (old_text edit)
        then (Inl (EditRejected (''not found in '' @ document_uri edit)), d)
        else case create_dir_all (parent_dir (document_uri edit)) d of d1 \<Rightarrow>
          case (if old_text edit = [] then current @ new_text edit
                else replace_first (old_text edit) (new_text edit) current) of updated \<Rightarrow>
          (case write_error d1 (document_uri edit) updated of
             Some e \<Rightarrow> Inl (EditRejected (''cannot write '' @ document_uri edit @ '': '' @ e))
           | None \<Rightarrow> Inr (),
           d1\<lparr>dk_files := (dk_files d)(document_uri edit := left_behind d1 (document_uri edit) updated)\<rparr>))"
  by (simp add: fs_apply_edit_def write_file_outcome Let_def split: option.splits)

text \<open>
  For an edit that names an old text, on a file whose writing does not break off, the disk is a document
  store like the other hosts.
\<close>

definition fs_edit_existing :: "text_edit \<Rightarrow> (disk, host_error, unit) eff" where
  "fs_edit_existing edit d = (if old_text edit = [] \<or> dk_breaks d (document_uri edit) \<noteq> None
     then (Inl (EditRejected []), d) else fs_apply_edit edit d)"

lemma valid_utf8_Nil [simp]: "valid_utf8 []"
  by (simp add: valid_utf8_def)

definition text_on :: "disk \<Rightarrow> str \<Rightarrow> str option" where
  "text_on d path = (if dk_unreadable d path then None else dk_files d path)"

lemma fs_existing:
  assumes "old \<noteq> []" and "contains_str (case read_to_string path d of Some s \<Rightarrow> s | None \<Rightarrow> []) old"
  shows "\<exists>s. read_to_string path d = Some s \<and> dk_files d path = Some s \<and> \<not> dk_unreadable d path"
proof (cases "read_to_string path d")
  case None
  with assms show ?thesis by (cases old) (simp_all add: contains_str_def)
next
  case (Some s)
  then show ?thesis by (auto simp: read_to_string_def split: option.splits if_splits)
qed

lemma unbroken_write:
  assumes "dk_breaks d path = None"
  shows "write_error d path c = None \<Longrightarrow> left_behind d path c = Some c"
    and "write_error d path c = Some e \<Longrightarrow> left_behind d path c = dk_files d path"
  using assms by (auto simp: write_error_def left_behind_def split: if_splits)

interpretation fs_store: document_store fs_edit_existing text_on
proof
  fix e d u d' assume run: "fs_edit_existing e d = (Inr u, d')"
  then have old: "old_text e \<noteq> []" and whole: "dk_breaks d (document_uri e) = None"
    by (cases "dk_breaks d (document_uri e)"; simp add: fs_edit_existing_def split: if_splits)+
  with run have has: "contains_str (case read_to_string (document_uri e) d of Some s \<Rightarrow> s | None \<Rightarrow> []) (old_text e)"
    by (auto simp: fs_edit_existing_def fs_apply_edit_cases split: if_splits)
  from fs_existing [OF old has] obtain s where
    s: "read_to_string (document_uri e) d = Some s" "dk_files d (document_uri e) = Some s"
      "\<not> dk_unreadable d (document_uri e)" by blast
  let ?d1 = "create_dir_all (parent_dir (document_uri e)) d"
  let ?new = "replace_first (old_text e) (new_text e) s"
  from run old whole has s have "write_error ?d1 (document_uri e) ?new = None"
    by (auto simp: fs_edit_existing_def fs_apply_edit_cases split: if_splits option.splits)
  with whole have "left_behind ?d1 (document_uri e) ?new = Some ?new" by (simp add: unbroken_write)
  with run old whole has s have d': "d' = ?d1\<lparr>dk_files := (dk_files d)(document_uri e \<mapsto> ?new)\<rparr>"
    by (auto simp: fs_edit_existing_def fs_apply_edit_cases split: if_splits option.splits)
  show "\<exists>t. text_on d (document_uri e) = Some t \<and> contains_str t (old_text e) \<and>
      text_on d' = (text_on d)(document_uri e \<mapsto> replace_first (old_text e) (new_text e) t)"
    using has s by (intro exI [of _ s]) (auto simp: d' text_on_def fun_eq_iff)
next
  fix e d err d' assume run: "fs_edit_existing e d = (Inl err, d')"
  show "text_on d' = text_on d"
  proof (cases "dk_breaks d (document_uri e) = None")
    case True
    with run show ?thesis
      by (auto simp: fs_edit_existing_def fs_apply_edit_cases text_on_def unbroken_write
          split: if_splits option.splits)
  qed (use run in \<open>auto simp: fs_edit_existing_def\<close>)
qed

lemma confirm_run:
  "confirm (engine_with_fs clk) p (world0 d) =
     (case apply_proposal (engine_with_fs clk) p (snd (craft_audit (engine_with_fs clk)
             (from_permission (kind_permission (cp_kind p))) True
             (JObj [(''kind'', JStr (kind_str (cp_kind p))), (''uri'', JStr (cp_uri p))]) (world0 d))) of
        (Inl err, w') \<Rightarrow> ((Inl err, p), w')
      | (Inr _, w') \<Rightarrow> ((Inr CS_Applied, p\<lparr>cp_state := CS_Applied\<rparr>), w'))"
  by (simp add: confirm_def confirm_effects_def engine_with_fs_def craft_allowed craft_audit_quiet eff_simps Let_def)

lemma apply_on_disk:
  assumes "env w = d"
  shows "case apply_proposal (engine_with_fs clk) p w of (r, w') \<Rightarrow>
     (case (if cp_kind p = K_FileEdit then fs_apply_edit (proposal_edit p) d else (Inr (), d)) of
        (Inl e, d') \<Rightarrow> r = Inl (display_host_error e) \<and> env w' = d'
      | (Inr _, d') \<Rightarrow> r = Inr () \<and> env w' = d')"
  using assms
  by (cases "cp_kind p"; cases "fs_apply_edit (proposal_edit p) d")
    (auto simp: apply_proposal_def engine_with_fs_def craft_engine_new_def bridge_apply_edit_def
      bridge_emit_event_def fs_host_def mark_def count_metric_def external_def eff_simps split: sum.splits)

lemma craft_confirm_run:
  "craft_confirm clk req d =
     (case (if map_kind (cq_kind req) = K_FileEdit
            then fs_apply_edit (proposal_edit (request_proposal req)) d else (Inr (), d)) of
        (Inl e, d') \<Rightarrow> (Inl (display_host_error e), d')
      | (Inr _, d') \<Rightarrow> (Inr (dto_of (request_proposal req) (cq_kind req) CS_Applied), d'))"
proof -
  let ?p = "request_proposal req"
  let ?w = "snd (craft_audit (engine_with_fs clk) (from_permission (kind_permission (cp_kind ?p))) True
             (JObj [(''kind'', JStr (kind_str (cp_kind ?p))), (''uri'', JStr (cp_uri ?p))]) (world0 d))"
  have kind: "cp_kind ?p = map_kind (cq_kind req)" by (simp add: request_proposal_def proposal_new_def)
  have "env ?w = d" by (simp add: engine_with_fs_def craft_audit_quiet world0_def)
  from apply_on_disk [OF this, where clk = clk and p = ?p] show ?thesis
    unfolding craft_confirm_def confirm_run kind
    by (auto simp: dto_of_def split: prod.splits sum.splits if_splits)
qed

text \<open>
  C32: confirming a craft proposal in the desktop shell: a command or a commit is reported as applied and
  touches nothing; an edit whose old text is not in its file is refused and touches nothing; otherwise the
  missing directories above the file are made and the file is rewritten, with the first occurrence of the
  old text replaced, or the new text appended when the old one is empty.  A failure of the write is
  reported as a refusal, which leaves the file as it was only when it could not be opened: a write that
  breaks off after n bytes leaves the first n bytes of the new content.  No other file ever changes.
\<close>

theorem gui_craft_confirm:
  "case craft_confirm clk req d of (r, d') \<Rightarrow>
     let path = cq_document_uri req; old = cq_old_text req;
         current = (case read_to_string path d of Some s \<Rightarrow> s | None \<Rightarrow> []);
         content = (if old = [] then current @ cq_new_text req else replace_first old (cq_new_text req) current);
         dirs = d\<lparr>dk_dirs := dk_dirs d \<union> set (made_dirs (parent_dir path) d)\<rparr>;
         applied = Inr (dto_of (request_proposal req) (cq_kind req) CS_Applied);
         failed = (\<lambda>e. Inl (''edit rejected by host: cannot write '' @ path @ '': '' @ e)) in
     if map_kind (cq_kind req) \<noteq> K_FileEdit then r = applied \<and> d' = d
     else if old \<noteq> [] \<and> \<not> contains_str current old
     then r = Inl (''edit rejected by host: not found in '' @ path) \<and> d' = d
     else if \<not> dir_exists dirs (parent_dir path) then r = failed ''no such directory'' \<and> d' = dirs
     else case dk_refused d path of
       Some e \<Rightarrow> r = failed e \<and> d' = dirs
     | None \<Rightarrow>
         (case dk_breaks d path of
            Some (n, e) \<Rightarrow> r = (if n < length content then failed e else applied) \<and>
              d' = dirs\<lparr>dk_files := (dk_files d)(path \<mapsto> take n content)\<rparr>
          | None \<Rightarrow> r = applied \<and> d' = dirs\<lparr>dk_files := (dk_files d)(path \<mapsto> content)\<rparr>)"
  by (simp add: craft_confirm_run fs_apply_edit_def write_file_def create_dir_all_spec proposal_edit_def
      request_proposal_def proposal_new_def dir_exists_def Let_def split: option.splits)

text \<open>
  A file that exists but does not read as text counts as empty: an edit that would append to it
  replaces all of its content by the new text and is reported as applied.
\<close>

definition append_request :: craft_action_request where
  "append_request = \<lparr>cq_document_uri = ''a.bin'', cq_old_text = [], cq_new_text = ''x'', cq_rationale = [],
     cq_kind = ''FileEdit'', cq_id = ''p-0''\<rparr>"

definition binary_disk :: disk where
  "binary_disk = \<lparr>dk_files = [''a.bin'' \<mapsto> [CHR 0xFF, CHR ''y'']], dk_dirs = {}, dk_unreadable = (\<lambda>_. False),
     dk_no_mkdir = (\<lambda>_. False), dk_refused = (\<lambda>_. None), dk_breaks = (\<lambda>_. None)\<rparr>"

lemma append_destroys_binary_file:
  "dk_files binary_disk ''a.bin'' = Some [CHR 0xFF, CHR ''y''] \<and>
   fst (craft_confirm clk append_request binary_disk) = Inr (dto_of (request_proposal append_request) ''FileEdit'' CS_Applied) \<and>
   dk_files (snd (craft_confirm clk append_request binary_disk)) ''a.bin'' = Some ''x''"
proof -
  have facts: "\<not> valid_utf8 [CHR 0xFF, CHR ''y'']" "map_kind ''FileEdit'' = K_FileEdit"
    "snd (parent_dir ''a.bin'') = []" by code_simp+
  show ?thesis
    by (simp add: craft_confirm_run fs_apply_edit_cases read_to_string_def proposal_edit_def request_proposal_def
        proposal_new_def append_request_def binary_disk_def write_error_def left_behind_def dir_exists_def
        create_dir_all_def facts dto_of_def)
qed

text \<open>A full disk: the edit is refused, and the file is empty.\<close>

lemma full_disk_truncates:
  assumes "dk_files d ''f.txt'' = Some ''keep me''" and "\<not> dk_unreadable d ''f.txt''"
    and "dk_refused d ''f.txt'' = None" and "dk_breaks d ''f.txt'' = Some (0, ''no space left'')"
    and "cq_document_uri req = ''f.txt''" and "cq_old_text req = ''keep''" and "cq_new_text req = ''drop''"
    and "map_kind (cq_kind req) = K_FileEdit"
  shows "fst (craft_confirm clk req d) = Inl ''edit rejected by host: cannot write f.txt: no space left'' \<and>
    dk_files (snd (craft_confirm clk req d)) ''f.txt'' = Some []"
proof -
  have facts: "valid_utf8 ''keep me''" "snd (parent_dir ''f.txt'') = []" "contains_str ''keep me'' ''keep''"
    "replace_first ''keep'' ''drop'' ''keep me'' = ''drop me''" by code_simp+
  with assms show ?thesis
    by (simp add: craft_confirm_run fs_apply_edit_cases read_to_string_def proposal_edit_def request_proposal_def
        proposal_new_def write_error_def left_behind_def dir_exists_def create_dir_all_def)
qed

end
