(* ===== verification/Shell.thy ===== *)
theory Shell
  imports Serve_Env Secrets "HOL-Library.List_Lexorder" "HOL-Library.Char_ord"
begin

text \<open>
  The desktop shell (src/gui/src-tauri/src): its state, the model choice it stores, the sequence that
  brings up the backend stack, and the commands on the model choice.  Processes and sockets are answers
  of an environment; the texts shown to the user are not modelled, an error of the shell is its code.
\<close>

section \<open>State\<close>

datatype bootstrap_phase = Ph_Idle | Ph_Pg | Ph_Ollama | Ph_Model | Ph_Serve | Ph_Ready | Ph_Error

record bootstrap_state =
  bs_phase :: bootstrap_phase
  bs_progress :: rat

datatype conn_status = Conn_Booting | Conn_Connected | Conn_Error

datatype gui_error = GE_Grpc | GE_Bootstrap | GE_Vendor | GE_Internal str

text \<open>
  \<open>AppState\<close>: children are process ids, a token is its number; the data directory and the connection
  string never change and are left out, and the process-wide lock store stands here.
\<close>

record app_state =
  ap_clients :: bool
  ap_vendor :: vendor_config
  ap_pg :: "nat option"
  ap_llamacpp :: "nat option"
  ap_serve :: "nat option"
  ap_phase :: bootstrap_phase
  ap_last :: "bootstrap_state option"
  ap_aborts :: "str \<Rightarrow> nat option"
  ap_conn :: conn_status
  ap_locks :: mem_locks

datatype process_kind = P_Pg_Ctl | P_Llama_Server str | P_Aidea_Serve "(str \<times> str) list"

text \<open>
  The desktop: the state, what the store on disk holds (the model choice and the switch), the key ring,
  the tables of the bundled database and the migrations run on it, the child processes started so far
  and those of them that still run, the tokens cancelled so far, the progress events emitted, and the
  seconds slept between attempts.
\<close>

record desktop =
  dt_app :: app_state
  dt_store_vendor :: "vendor_config option"
  dt_store_auto :: "bool option"
  dt_keyring :: "str \<Rightarrow> str option"
  dt_comments :: "comment list"
  dt_secrets :: "secret_row list"
  dt_migrated :: "str list"
  dt_started :: "(nat \<times> process_kind) list"
  dt_running :: "(nat \<times> process_kind) list"
  dt_next_pid :: nat
  dt_next_token :: nat
  dt_cancelled :: "nat set"
  dt_events :: "bootstrap_state list"
  dt_pauses :: nat

type_synonym 'a gui = "(desktop, gui_error, 'a) eff"

definition default_vendor :: vendor_config where
  "default_vendor = \<lparr>v_kind = V_Local, v_base_url = None, v_local_model = ''models/nes-tab/nes-tab.gguf'',
     v_model = None\<rparr>"

definition app_state_new :: app_state where
  "app_state_new = \<lparr>ap_clients = False, ap_vendor = default_vendor, ap_pg = None, ap_llamacpp = None,
     ap_serve = None, ap_phase = Ph_Idle, ap_last = None, ap_aborts = (\<lambda>_. None), ap_conn = Conn_Booting,
     ap_locks = []\<rparr>"

definition on_app :: "(app_state \<Rightarrow> app_state) \<Rightarrow> 'a \<Rightarrow> 'a gui" where
  "on_app f x d = (Inr x, d\<lparr>dt_app := f (dt_app d)\<rparr>)"

section \<open>Stop tokens\<close>

definition register_abort :: "str \<Rightarrow> nat gui" where
  "register_abort session_id d = (let t = dt_next_token d in
     (Inr t, d\<lparr>dt_next_token := t + 1,
        dt_app := (dt_app d)\<lparr>ap_aborts := (ap_aborts (dt_app d))(session_id \<mapsto> t)\<rparr>\<rparr>))"

definition cancel_abort :: "str \<Rightarrow> unit gui" where
  "cancel_abort session_id d =
     (case ap_aborts (dt_app d) session_id of
        None \<Rightarrow> (Inr (), d)
      | Some t \<Rightarrow> (Inr (), d\<lparr>dt_cancelled := insert t (dt_cancelled d),
          dt_app := (dt_app d)\<lparr>ap_aborts := (ap_aborts (dt_app d))(session_id := None)\<rparr>\<rparr>))"

definition abort_for :: "str \<Rightarrow> desktop \<Rightarrow> nat option" where
  "abort_for session_id d = ap_aborts (dt_app d) session_id"

section \<open>The stored model choice and the key ring\<close>

text \<open>The store may fail to open; a value that was set stays set when writing the file fails.\<close>

record store_answers =
  sa_opens :: bool
  sa_saves :: bool

definition load_vendor_config :: "store_answers \<Rightarrow> vendor_config gui" where
  "load_vendor_config sa d = (if \<not> sa_opens sa then (Inl GE_Vendor, d)
     else (Inr (case dt_store_vendor d of Some v \<Rightarrow> v | None \<Rightarrow> default_vendor), d))"

definition save_vendor_config :: "store_answers \<Rightarrow> vendor_config \<Rightarrow> unit gui" where
  "save_vendor_config sa v d = (if \<not> sa_opens sa then (Inl GE_Vendor, d)
     else (if sa_saves sa then Inr () else Inl GE_Vendor, d\<lparr>dt_store_vendor := Some v\<rparr>))"

definition load_auto_bootstrap :: "store_answers \<Rightarrow> desktop \<Rightarrow> bool" where
  "load_auto_bootstrap sa d = (if \<not> sa_opens sa then True
     else (case dt_store_auto d of Some b \<Rightarrow> b | None \<Rightarrow> True))"

definition save_auto_bootstrap :: "store_answers \<Rightarrow> bool \<Rightarrow> unit gui" where
  "save_auto_bootstrap sa b d = (if \<not> sa_opens sa then (Inl GE_Vendor, d)
     else (if sa_saves sa then Inr () else Inl GE_Vendor, d\<lparr>dt_store_auto := Some b\<rparr>))"

text \<open>
  What the key ring answers: an entry or its absence, no access (which counts as absence), or an error.
\<close>

datatype keyring_answer = Kr_Open | Kr_No_Access | Kr_Fails

definition keyring_get :: "keyring_answer \<Rightarrow> str \<Rightarrow> desktop \<Rightarrow> gui_error + str option" where
  "keyring_get kr key d = (case kr of
     Kr_Open \<Rightarrow> Inr (dt_keyring d key) | Kr_No_Access \<Rightarrow> Inr None | Kr_Fails \<Rightarrow> Inl GE_Vendor)"

definition keyring_set :: "keyring_answer \<Rightarrow> str \<Rightarrow> str \<Rightarrow> unit gui" where
  "keyring_set kr key v d = (case kr of
     Kr_Open \<Rightarrow> (Inr (), d\<lparr>dt_keyring := (dt_keyring d)(key \<mapsto> v)\<rparr>) | _ \<Rightarrow> (Inl GE_Vendor, d))"

text \<open>\<open>entry\<close>: whether the entry can be named at all; failing to delete it is no error.\<close>

definition keyring_delete :: "bool \<Rightarrow> keyring_answer \<Rightarrow> str \<Rightarrow> unit gui" where
  "keyring_delete entry kr key d = (if \<not> entry then (Inl GE_Vendor, d)
     else (Inr (), if kr = Kr_Open then d\<lparr>dt_keyring := (dt_keyring d)(key := None)\<rparr> else d))"

section \<open>Bringing up the stack\<close>

text \<open>
  What the environment answers during one attempt: the probes of PostgreSQL, llama-server and the
  server by number, the milliseconds that have passed after a probe of the server, whether each step of
  the sidecars succeeds, the files under resources/migrations (None: it cannot be read), the paths
  that exist, whether the client connects, and the store.  The probes ask whoever listens on the port,
  which need not be a child of the shell; and a child that was started may exit at once (\<open>pg_ctl\<close> does
  so by design, a server does so when its port is taken), which nothing in the shell notices:
  \<open>be_stays\<close> says which children go on running.
\<close>

record boot_env =
  be_pg_ready :: "nat \<Rightarrow> bool"
  be_pg_version :: bool
  be_initdb :: bool
  be_pg_ctl :: bool
  be_migrations :: "str list option"
  be_llama_ready :: "nat \<Rightarrow> bool"
  be_resources :: str
  be_exists :: "str \<Rightarrow> bool"
  be_llama_spawn :: bool
  be_serve_spawn :: bool
  be_serve_ready :: "nat \<Rightarrow> bool"
  be_elapsed :: "nat \<Rightarrow> nat"
  be_connect :: bool
  be_store :: store_answers
  be_parent_env :: "(str \<times> str) list"
  be_keyring :: keyring_answer
  be_stays :: "process_kind \<Rightarrow> bool"

definition emit_progress :: "bootstrap_phase \<Rightarrow> rat \<Rightarrow> unit gui" where
  "emit_progress ph x d = (let s = \<lparr>bs_phase = ph, bs_progress = x\<rparr> in
     (Inr (), d\<lparr>dt_app := (dt_app d)\<lparr>ap_phase := ph, ap_last := Some s\<rparr>, dt_events := dt_events d @ [s]\<rparr>))"

definition spawn_binary :: "boot_env \<Rightarrow> bool \<Rightarrow> process_kind \<Rightarrow> nat gui" where
  "spawn_binary E ok k d =
     (if ok then (Inr (dt_next_pid d),
        d\<lparr>dt_started := dt_started d @ [(dt_next_pid d, k)],
          dt_running := dt_running d @ (if be_stays E k then [(dt_next_pid d, k)] else []),
          dt_next_pid := dt_next_pid d + 1\<rparr>)
      else (Inl GE_Bootstrap, d))"

text \<open>The polling loops: 60 probes, the first one numbered \<open>i\<close>.\<close>

fun polled :: "(nat \<Rightarrow> bool) \<Rightarrow> nat \<Rightarrow> nat \<Rightarrow> bool" where
  "polled ready i 0 = False"
| "polled ready i (Suc n) = (if ready i then True else polled ready (i + 1) n)"

definition require_step :: "bool \<Rightarrow> unit gui" where
  "require_step ok = (if ok then ret () else throw GE_Bootstrap)"

text \<open>The migrations run in the order of their names; what psql makes of one does not matter.\<close>

definition is_sql :: "str \<Rightarrow> bool" where
  "is_sql name \<longleftrightarrow> ends_with name ''.sql'' \<and> name \<noteq> ''.sql''"

definition apply_migrations :: "boot_env \<Rightarrow> unit gui" where
  "apply_migrations E d = (case be_migrations E of
       None \<Rightarrow> (Inl GE_Bootstrap, d)
     | Some files \<Rightarrow> (Inr (), d\<lparr>dt_migrated := dt_migrated d @ sort (filter is_sql files)\<rparr>))"

definition init_and_start :: "boot_env \<Rightarrow> unit gui" where
  "init_and_start E =
     bnd (emit_progress Ph_Pg (4 / 100)) (\<lambda>_.
     if be_pg_ready E 0 then
       bnd (emit_progress Ph_Pg (20 / 100)) (\<lambda>_.
       bnd (apply_migrations E) (\<lambda>_.
       emit_progress Ph_Pg (35 / 100)))
     else
       bnd (if be_pg_version E then ret ()
            else bnd (emit_progress Ph_Pg (8 / 100)) (\<lambda>_. require_step (be_initdb E))) (\<lambda>_.
       bnd (emit_progress Ph_Pg (18 / 100)) (\<lambda>_.
       bnd (spawn_binary E (be_pg_ctl E) P_Pg_Ctl) (\<lambda>pid.
       bnd (on_app (\<lambda>s. s\<lparr>ap_pg := Some pid\<rparr>) ()) (\<lambda>_.
       bnd (require_step (polled (be_pg_ready E) 1 60)) (\<lambda>_.
       bnd (apply_migrations E) (\<lambda>_.
       emit_progress Ph_Pg (35 / 100))))))))"

text \<open>\<open>Path::join\<close>: an absolute path replaces the base.\<close>

definition resource_path :: "boot_env \<Rightarrow> str \<Rightarrow> str" where
  "resource_path E rel = (if starts_with rel ''/'' then rel else be_resources E @ ''/'' @ rel)"

definition resolve_model_path :: "boot_env \<Rightarrow> vendor_config \<Rightarrow> str" where
  "resolve_model_path E v = (let configured = v_local_model v in
     if be_exists E configured then configured
     else if be_exists E (resource_path E configured) then resource_path E configured
     else resource_path E ''models/nes-tab/nes-tab.gguf'')"

definition llamacpp_start :: "boot_env \<Rightarrow> unit gui" where
  "llamacpp_start E =
     bnd (emit_progress Ph_Ollama (40 / 100)) (\<lambda>_.
     if be_llama_ready E 0 then emit_progress Ph_Ollama (50 / 100)
     else
       bnd (gets (\<lambda>d. resolve_model_path E (ap_vendor (dt_app d)))) (\<lambda>path.
       if \<not> be_exists E path then emit_progress Ph_Ollama (50 / 100)
       else
         bnd (spawn_binary E (be_llama_spawn E) (P_Llama_Server path)) (\<lambda>pid.
         bnd (on_app (\<lambda>s. s\<lparr>ap_llamacpp := Some pid\<rparr>) ()) (\<lambda>_.
         bnd (require_step (polled (be_llama_ready E) 1 60)) (\<lambda>_.
         emit_progress Ph_Ollama (50 / 100))))))"

text \<open>
  \<open>wait_until_ready\<close>: half a second of sleep between probes, so 62 probes pass the 30 seconds.
\<close>

fun wait_until_ready :: "(nat \<Rightarrow> bool) \<Rightarrow> (nat \<Rightarrow> nat) \<Rightarrow> nat \<Rightarrow> nat \<Rightarrow> nat \<Rightarrow> bool option" where
  "wait_until_ready ready elapsed timeout i 0 = None"
| "wait_until_ready ready elapsed timeout i (Suc fuel) =
     (if ready i then Some True else if timeout < elapsed i then Some False
      else wait_until_ready ready elapsed timeout (i + 1) fuel)"

definition be_serving :: "boot_env \<Rightarrow> bool" where
  "be_serving E \<longleftrightarrow> wait_until_ready (be_serve_ready E) (be_elapsed E) 30000 0 62 = Some True"

definition start_with_env :: "boot_env \<Rightarrow> (str \<times> str) list \<Rightarrow> unit gui" where
  "start_with_env E envs =
     bnd (emit_progress Ph_Serve (75 / 100)) (\<lambda>_.
     bnd (spawn_binary E (be_serve_spawn E) (P_Aidea_Serve envs)) (\<lambda>pid.
     bnd (on_app (\<lambda>s. s\<lparr>ap_serve := Some pid\<rparr>) ()) (\<lambda>_.
     if be_serving E then emit_progress Ph_Serve (95 / 100) else throw GE_Bootstrap)))"

definition serve_vars :: "boot_env \<Rightarrow> desktop \<Rightarrow> (str \<times> str) list" where
  "serve_vars E d = start_with_vendor (be_parent_env E) (ap_vendor (dt_app d)) (keyring_get (be_keyring E) ''online_api_key'' d)"

definition serve_with_vendor :: "boot_env \<Rightarrow> unit gui" where
  "serve_with_vendor E = bnd (gets (serve_vars E)) (start_with_env E)"

text \<open>Killing the server the handle names.\<close>

definition stop_current :: "unit gui" where
  "stop_current d =
     (case ap_serve (dt_app d) of
        None \<Rightarrow> (Inr (), d)
      | Some pid \<Rightarrow> (Inr (), d\<lparr>dt_app := (dt_app d)\<lparr>ap_serve := None\<rparr>,
          dt_running := filter (\<lambda>(p, _). p \<noteq> pid) (dt_running d)\<rparr>))"

definition restart_with_vendor :: "boot_env \<Rightarrow> unit gui" where
  "restart_with_vendor E = bnd stop_current (\<lambda>_. serve_with_vendor E)"

definition ensure_connected :: "boot_env \<Rightarrow> bool gui" where
  "ensure_connected E = (if be_connect E
     then on_app (\<lambda>s. s\<lparr>ap_clients := True, ap_conn := Conn_Connected\<rparr>) True
     else on_app (\<lambda>s. s\<lparr>ap_conn := Conn_Error\<rparr>) False)"

definition bootstrap_stack :: "boot_env \<Rightarrow> unit gui" where
  "bootstrap_stack E =
     bnd (emit_progress Ph_Pg (2 / 100)) (\<lambda>_.
     handle (init_and_start E)
       (\<lambda>e. bnd (emit_progress Ph_Error 1) (\<lambda>_. throw e))
       (\<lambda>_.
     bnd (handle (llamacpp_start E) (\<lambda>_. emit_progress Ph_Ollama (70 / 100)) ret) (\<lambda>_.
     handle (serve_with_vendor E)
       (\<lambda>e. bnd (emit_progress Ph_Error 1) (\<lambda>_. throw e))
       (\<lambda>_.
     bnd (emit_progress Ph_Ready 1) (\<lambda>_.
     bnd (ensure_connected E) (\<lambda>_. ret ()))))))"

text \<open>The attempts that are left, each with its environment; a second passes after each failure.\<close>

fun boot_attempts :: "boot_env list \<Rightarrow> desktop \<Rightarrow> desktop" where
  "boot_attempts [] d = d"
| "boot_attempts (E # Es) d =
     (case bootstrap_stack E d of
        (Inr _, d') \<Rightarrow> d'
      | (Inl _, d') \<Rightarrow> boot_attempts Es (d'\<lparr>dt_pauses := dt_pauses d' + 1\<rparr>))"

definition bootstrap_stack_with_retry :: "(nat \<Rightarrow> boot_env) \<Rightarrow> nat \<Rightarrow> desktop \<Rightarrow> desktop" where
  "bootstrap_stack_with_retry E tries d = boot_attempts (map E [0..<max tries 1]) d"

text \<open>Starting the shell over what a former run left: the store, and the processes it did not stop.\<close>

definition launch :: "store_answers \<Rightarrow> (nat \<Rightarrow> boot_env) \<Rightarrow> desktop \<Rightarrow> desktop" where
  "launch sa E d =
     (let d' = d\<lparr>dt_app := app_state_new, dt_events := []\<rparr> in
      if load_auto_bootstrap sa d' then bootstrap_stack_with_retry E 2 d' else d')"

section \<open>Commands on the model choice\<close>

definition bootstrap_status :: "desktop \<Rightarrow> bootstrap_state" where
  "bootstrap_status d = (case ap_last (dt_app d) of
     Some s \<Rightarrow> s | None \<Rightarrow> \<lparr>bs_phase = ap_phase (dt_app d), bs_progress = 0\<rparr>)"

definition set_vendor_config :: "boot_env \<Rightarrow> vendor_config \<Rightarrow> unit gui" where
  "set_vendor_config E v =
     bnd (save_vendor_config (be_store E) v) (\<lambda>_.
     bnd (on_app (\<lambda>s. s\<lparr>ap_vendor := v\<rparr>) ()) (\<lambda>_.
     bnd (restart_with_vendor E) (\<lambda>_.
     bnd (ensure_connected E) (\<lambda>_. ret ()))))"

definition set_local_model :: "boot_env \<Rightarrow> str \<Rightarrow> unit gui" where
  "set_local_model E model d =
     (let v = (ap_vendor (dt_app d))\<lparr>v_local_model := model\<rparr> in
      bnd (on_app (\<lambda>s. s\<lparr>ap_vendor := v\<rparr>) ()) (\<lambda>_.
      bnd (save_vendor_config (be_store E) v) (\<lambda>_.
      if v_kind v = V_Local
      then bnd (restart_with_vendor E) (\<lambda>_. bnd (ensure_connected E) (\<lambda>_. ret ()))
      else ret ())) d)"

definition model_list_local :: "desktop \<Rightarrow> str list" where
  "model_list_local d = (let m = v_local_model (ap_vendor (dt_app d)) in if m = [] then [] else [m])"

section \<open>One attempt\<close>

definition pg_up :: "boot_env \<Rightarrow> bool" where
  "pg_up E \<longleftrightarrow> be_migrations E \<noteq> None \<and>
     (be_pg_ready E 0 \<or> (be_pg_version E \<or> be_initdb E) \<and> be_pg_ctl E \<and> polled (be_pg_ready E) 1 60)"

text \<open>Nothing tells the shell who answers: \<open>be_serving\<close> is that a healthy server answers on the port.\<close>

definition stack_up :: "boot_env \<Rightarrow> bool" where
  "stack_up E \<longleftrightarrow> pg_up E \<and> be_serve_spawn E \<and> be_serving E"

definition serves :: "(str \<times> str) list \<Rightarrow> process_kind \<Rightarrow> bool" where
  "serves vars k = (case k of P_Aidea_Serve vars' \<Rightarrow> vars' = vars | _ \<Rightarrow> True)"

text \<open>
  A part of an attempt: progress goes from \<open>lo\<close> to \<open>hi\<close> without going back, the children that are
  started are \<open>n\<close> servers, with \<open>vars\<close>, and others, and those that stay go on running; the migrations
  \<open>ms\<close> are run; the model choice, the store, the key ring and the rows of the tables stay.
\<close>

definition steady :: "desktop \<Rightarrow> desktop \<Rightarrow> bool" where
  "steady d d' \<longleftrightarrow> ap_vendor (dt_app d') = ap_vendor (dt_app d) \<and> dt_store_vendor d' = dt_store_vendor d \<and>
     dt_store_auto d' = dt_store_auto d \<and> dt_keyring d' = dt_keyring d \<and> dt_comments d' = dt_comments d \<and>
     dt_secrets d' = dt_secrets d \<and> dt_pauses d' = dt_pauses d"

definition is_server :: "nat \<times> process_kind \<Rightarrow> bool" where
  "is_server p \<longleftrightarrow> (case snd p of P_Aidea_Serve _ \<Rightarrow> True | _ \<Rightarrow> False)"

definition servers :: "desktop \<Rightarrow> nat" where
  "servers d = length (filter is_server (dt_started d))"

definition children :: "boot_env \<Rightarrow> (str \<times> str) list \<Rightarrow> nat \<Rightarrow> desktop \<Rightarrow> desktop \<Rightarrow> bool" where
  "children E vars n d d' \<longleftrightarrow>
     (\<exists>ps. dt_started d' = dt_started d @ ps \<and> dt_running d' = dt_running d @ filter (\<lambda>(_, k). be_stays E k) ps \<and>
        list_all (\<lambda>(_, k). serves vars k) ps \<and> length (filter is_server ps) = n)"

definition advance :: "boot_env \<Rightarrow> (str \<times> str) list \<Rightarrow> nat \<Rightarrow> str list \<Rightarrow> rat \<Rightarrow> rat \<Rightarrow> desktop \<Rightarrow> desktop \<Rightarrow> bool" where
  "advance E vars n ms lo hi d d' \<longleftrightarrow>
     (\<exists>es. dt_events d' = dt_events d @ es \<and> sorted (map bs_progress es) \<and>
        list_all (\<lambda>s. lo \<le> bs_progress s \<and> bs_progress s \<le> hi) es) \<and>
     children E vars n d d' \<and> dt_migrated d' = dt_migrated d @ ms \<and> steady d d'"

lemma steady_trans: "steady d e \<Longrightarrow> steady e f \<Longrightarrow> steady d f"
  by (simp add: steady_def)

lemma steady_vars: "steady d d' \<Longrightarrow> serve_vars E d' = serve_vars E d"
  by (cases "be_keyring E") (simp_all add: steady_def serve_vars_def keyring_get_def)

lemma children_trans:
  assumes "children E vars n d e" and "children E vars m e f"
  shows "children E vars (n + m) d f"
proof -
  obtain ps qs where "dt_started e = dt_started d @ ps" "dt_running e = dt_running d @ filter (\<lambda>(_, k). be_stays E k) ps"
    "list_all (\<lambda>(_, k). serves vars k) ps" "length (filter is_server ps) = n"
    "dt_started f = dt_started e @ qs" "dt_running f = dt_running e @ filter (\<lambda>(_, k). be_stays E k) qs"
    "list_all (\<lambda>(_, k). serves vars k) qs" "length (filter is_server qs) = m"
    using assms unfolding children_def by blast
  then show ?thesis unfolding children_def by (intro exI [of _ "ps @ qs"]) simp
qed

lemma advance_trans:
  assumes "advance E vars n ms a b d e" and "advance E vars m ms' b' c e f" and "a \<le> b'" "b \<le> b'" "b \<le> c"
  shows "advance E vars (n + m) (ms @ ms') a c d f"
proof -
  obtain es fs where "dt_events e = dt_events d @ es" "dt_events f = dt_events e @ fs"
    and es: "sorted (map bs_progress es)" "list_all (\<lambda>s. a \<le> bs_progress s \<and> bs_progress s \<le> b) es"
    and fs: "sorted (map bs_progress fs)" "list_all (\<lambda>s. b' \<le> bs_progress s \<and> bs_progress s \<le> c) fs"
    using assms(1,2) unfolding advance_def by blast
  moreover have "sorted (map bs_progress (es @ fs))"
    using es fs assms(4) by (fastforce simp: sorted_append list_all_iff)
  moreover have "list_all (\<lambda>s. a \<le> bs_progress s \<and> bs_progress s \<le> c) (es @ fs)"
    using es fs assms(3-5) by (fastforce simp: list_all_iff)
  moreover have "children E vars (n + m) d f" using assms(1,2) children_trans unfolding advance_def by blast
  moreover have "dt_migrated f = dt_migrated d @ ms @ ms'" using assms(1,2) by (simp add: advance_def)
  moreover have "steady d f" using assms(1,2) steady_trans unfolding advance_def by blast
  ultimately show ?thesis unfolding advance_def by auto
qed

lemmas shell_steps = emit_progress_def spawn_binary_def require_step_def on_app_def

definition migrations :: "boot_env \<Rightarrow> str list" where
  "migrations E = (if pg_up E then sort (filter is_sql (the (be_migrations E))) else [])"

lemma init_and_start_run:
  "fst (init_and_start E d) = (if pg_up E then Inr () else Inl GE_Bootstrap) \<and>
   advance E vars 0 (migrations E) (4 / 100) (35 / 100) d (snd (init_and_start E d))"
proof -
  note step = init_and_start_def apply_migrations_def shell_steps pg_up_def migrations_def advance_def children_def steady_def serves_def
    is_server_def eff_simps Let_def
  show ?thesis
  proof (cases "be_pg_ready E 0")
    case True
    then show ?thesis by (cases "be_migrations E") (simp_all add: step)
  next
    case False
    then show ?thesis
      by (cases "be_migrations E"; cases "polled (be_pg_ready E) 1 60"; cases "be_pg_ctl E"; cases "be_pg_version E"; cases "be_initdb E")
        (simp_all add: step)
  qed
qed

lemma llamacpp_start_run: "advance E vars 0 [] (40 / 100) (50 / 100) d (snd (llamacpp_start E d))"
  by (auto simp: llamacpp_start_def shell_steps advance_def children_def steady_def serves_def is_server_def eff_simps Let_def)

lemma serve_with_vendor_run:
  "fst (serve_with_vendor E d) = (if be_serve_spawn E \<and> be_serving E then Inr () else Inl GE_Bootstrap) \<and>
   advance E (serve_vars E d) (if be_serve_spawn E then 1 else 0) [] (75 / 100) (95 / 100) d (snd (serve_with_vendor E d)) \<and>
   (be_serve_spawn E \<longrightarrow> (\<exists>pid. ap_serve (dt_app (snd (serve_with_vendor E d))) = Some pid \<and>
      (pid, P_Aidea_Serve (serve_vars E d)) \<in> set (dt_started (snd (serve_with_vendor E d)))))"
  by (auto simp: serve_with_vendor_def start_with_env_def shell_steps advance_def children_def steady_def serves_def is_server_def
      serve_vars_def eff_simps Let_def)

lemma advance_steady: "advance E vars n ms lo hi d d' \<Longrightarrow> steady d d'"
  by (simp add: advance_def)

lemma advance_emit: "advance E vars 0 [] x x d (snd (emit_progress ph x d))"
  by (simp add: shell_steps advance_def children_def steady_def Let_def)

lemma emit_app:
  "emit_progress ph x d = (Inr (), d\<lparr>dt_app := (dt_app d)\<lparr>ap_phase := ph, ap_last := Some \<lparr>bs_phase = ph, bs_progress = x\<rparr>\<rparr>,
     dt_events := dt_events d @ [\<lparr>bs_phase = ph, bs_progress = x\<rparr>]\<rparr>)"
  by (simp add: emit_progress_def Let_def)

definition displays :: "bootstrap_phase \<Rightarrow> desktop \<Rightarrow> bool" where
  "displays ph d \<longleftrightarrow> ap_phase (dt_app d) = ph \<and> ap_last (dt_app d) = Some \<lparr>bs_phase = ph, bs_progress = 1\<rparr>"

text \<open>The handle of the server names a child that was started with the current model choice.\<close>

definition serve_started :: "boot_env \<Rightarrow> desktop \<Rightarrow> bool" where
  "serve_started E d \<longleftrightarrow> (\<exists>pid. ap_serve (dt_app d) = Some pid \<and>
     (pid, P_Aidea_Serve (serve_vars E d)) \<in> set (dt_started d))"

lemma fail_run:
  "bnd (emit_progress Ph_Error 1) (\<lambda>_. throw e) d = (Inl e, snd (emit_progress Ph_Error 1 d)) \<and>
   displays Ph_Error (snd (emit_progress Ph_Error 1 d))"
  by (simp add: emit_app displays_def eff_simps)

lemma ready_run:
  "\<exists>d'. bnd (emit_progress Ph_Ready 1) (\<lambda>_. bnd (ensure_connected E) (\<lambda>_. ret ())) d = (Inr (), d') \<and>
     displays Ph_Ready d' \<and> ap_conn (dt_app d') = (if be_connect E then Conn_Connected else Conn_Error) \<and>
     advance E vars 0 [] 1 1 d d' \<and> (serve_started E d \<longrightarrow> serve_started E d')"
  by (cases "be_keyring E") (simp_all add: emit_app ensure_connected_def on_app_def displays_def serve_started_def serve_vars_def keyring_get_def advance_def children_def steady_def
    eff_simps)

lemma advance_weaken:
  assumes "advance E vars n ms a b d e" and "b \<le> c"
  shows "advance E vars n ms a c d e"
proof -
  have "list_all (\<lambda>s. a \<le> bs_progress s \<and> bs_progress s \<le> c) es"
    if "list_all (\<lambda>s. a \<le> bs_progress s \<and> bs_progress s \<le> b) es" for es
    using that assms(2) by (fastforce simp: list_all_iff)
  with assms(1) show ?thesis unfolding advance_def by blast
qed

lemma llama_stage:
  "\<exists>d'. handle (llamacpp_start E) (\<lambda>_. emit_progress Ph_Ollama (70 / 100)) ret d = (Inr (), d') \<and>
     advance E vars 0 [] (40 / 100) (70 / 100) d d'"
proof (cases "llamacpp_start E d")
  case (Pair r d2)
  with llamacpp_start_run [of E vars d] have a: "advance E vars 0 [] (40 / 100) (50 / 100) d d2" by simp
  from advance_trans [OF a advance_emit [of E vars "70 / 100" d2 Ph_Ollama]]
  have "advance E vars 0 [] (40 / 100) (70 / 100) d (snd (emit_progress Ph_Ollama (70 / 100) d2))" by simp
  with Pair advance_weaken [OF a, of "70 / 100"] show ?thesis
    by (cases r) (simp_all add: eff_simps emit_app)
qed

definition spawns_server :: "boot_env \<Rightarrow> nat" where
  "spawns_server E = (if pg_up E \<and> be_serve_spawn E then 1 else 0)"

lemma bootstrap_stack_run:
  "\<exists>r d'. bootstrap_stack E d = (r, d') \<and> advance E (serve_vars E d) (spawns_server E) (migrations E) (2 / 100) 1 d d' \<and>
     r = (if stack_up E then Inr () else Inl GE_Bootstrap) \<and>
     (if stack_up E
      then displays Ph_Ready d' \<and> serve_started E d' \<and> ap_conn (dt_app d') = (if be_connect E then Conn_Connected else Conn_Error)
      else displays Ph_Error d')"
proof -
  let ?v = "serve_vars E d"
  obtain d1 where d1: "emit_progress Ph_Pg (2 / 100) d = (Inr (), d1)" "advance E ?v 0 [] (2 / 100) (2 / 100) d d1"
    using advance_emit [of E ?v "2 / 100" d Ph_Pg] by (simp add: emit_app)
  obtain r2 d2 where pg: "init_and_start E d1 = (r2, d2)" by fastforce
  with init_and_start_run [of E d1 ?v] have r2: "r2 = (if pg_up E then Inr () else Inl GE_Bootstrap)"
    and "advance E ?v 0 (migrations E) (4 / 100) (35 / 100) d1 d2" by simp_all
  from advance_trans [OF d1(2) this(2)] have a2: "advance E ?v 0 (migrations E) (2 / 100) (35 / 100) d d2" by simp
  note run = bootstrap_stack_def bnd_app [of "emit_progress Ph_Pg (2 / 100)"] handle_app [of "init_and_start E"]
    handle_app [of "serve_with_vendor E"] bnd_app [of "handle (llamacpp_start E) (\<lambda>_. emit_progress Ph_Ollama (70 / 100)) ret"]
  show ?thesis
  proof (cases "pg_up E")
    case False
    from advance_trans [OF a2 advance_emit [of E ?v 1 d2 Ph_Error]] False
    have "advance E ?v (spawns_server E) (migrations E) (2 / 100) 1 d (snd (emit_progress Ph_Error 1 d2))"
      by (simp add: spawns_server_def)
    with False d1(1) pg r2 show ?thesis
      by (simp add: run stack_up_def fail_run)
  next
    case True
    obtain d3 where llama: "handle (llamacpp_start E) (\<lambda>_. emit_progress Ph_Ollama (70 / 100)) ret d2 = (Inr (), d3)"
      and a3: "advance E ?v 0 [] (40 / 100) (70 / 100) d2 d3" using llama_stage [of E d2 ?v] by blast
    from advance_trans [OF a2 a3] have a3: "advance E ?v 0 (migrations E) (2 / 100) (70 / 100) d d3" by simp
    then have vars: "serve_vars E d3 = ?v" using advance_steady steady_vars by blast
    obtain r4 d4 where serve: "serve_with_vendor E d3 = (r4, d4)" by fastforce
    with serve_with_vendor_run [of E d3] vars True
    have r4: "r4 = (if be_serve_spawn E \<and> be_serving E then Inr () else Inl GE_Bootstrap)"
      and step: "advance E ?v (spawns_server E) [] (75 / 100) (95 / 100) d3 d4"
      and now: "be_serve_spawn E \<Longrightarrow> \<exists>pid. ap_serve (dt_app d4) = Some pid \<and> (pid, P_Aidea_Serve ?v) \<in> set (dt_started d4)"
      by (auto simp: spawns_server_def)
    from advance_trans [OF a3 step] have a4: "advance E ?v (spawns_server E) (migrations E) (2 / 100) (95 / 100) d d4" by simp
    then have "serve_vars E d4 = ?v" using advance_steady steady_vars by blast
    with now have now: "be_serve_spawn E \<Longrightarrow> serve_started E d4" by (simp add: serve_started_def)
    show ?thesis
    proof (cases "be_serve_spawn E \<and> be_serving E")
      case False
      from False r4 serve have serve: "serve_with_vendor E d3 = (Inl GE_Bootstrap, d4)" by auto
      from advance_trans [OF a4 advance_emit [of E ?v 1 d4 Ph_Error]]
      have "advance E ?v (spawns_server E) (migrations E) (2 / 100) 1 d (snd (emit_progress Ph_Error 1 d4))" by simp
      moreover have "bootstrap_stack E d = (Inl GE_Bootstrap, snd (emit_progress Ph_Error 1 d4))"
        using True d1(1) pg r2 llama serve by (simp add: run fail_run)
      ultimately show ?thesis using False by (simp add: stack_up_def fail_run)
    next
      case ok: True
      from ok r4 serve have serve: "serve_with_vendor E d3 = (Inr (), d4)" by simp
      obtain d5 where ready: "bnd (emit_progress Ph_Ready 1) (\<lambda>_. bnd (ensure_connected E) (\<lambda>_. ret ())) d4 = (Inr (), d5)"
        "displays Ph_Ready d5" "ap_conn (dt_app d5) = (if be_connect E then Conn_Connected else Conn_Error)"
        "advance E ?v 0 [] 1 1 d4 d5" "serve_started E d4 \<longrightarrow> serve_started E d5"
        using ready_run [of E d4 ?v] by blast
      from advance_trans [OF a4 ready(4)] have "advance E ?v (spawns_server E) (migrations E) (2 / 100) 1 d d5" by simp
      moreover have "bootstrap_stack E d = (Inr (), d5)"
        using True d1(1) pg r2 llama serve ready(1) by (simp add: run)
      ultimately show ?thesis using ok True ready now by (simp add: stack_up_def)
    qed
  qed
qed

text \<open>
  C30: an attempt to bring up the stack succeeds exactly when PostgreSQL comes up, the server can be
  started and something on its port answers as healthy, whatever becomes of the local model.  It then
  shows Ready, with the handle of a server that was started with the current model choice; that this
  server is the one that answers, or that it still runs, is not checked: of the children that were started
  just those run that did not exit.  Otherwise it shows Error.  The progress it reports never goes back;
  the migrations run, in the order of their names, exactly when PostgreSQL comes up; and the stored and the
  current model choice, the key ring and the rows of the tables are the same as before.
\<close>

theorem bootstrap_outcome:
  "case bootstrap_stack E d of (r, d') \<Rightarrow>
     r = (if stack_up E then Inr () else Inl GE_Bootstrap) \<and>
     (if stack_up E then bootstrap_status d' = \<lparr>bs_phase = Ph_Ready, bs_progress = 1\<rparr> \<and> serve_started E d' \<and>
        ap_conn (dt_app d') = (if be_connect E then Conn_Connected else Conn_Error)
      else bootstrap_status d' = \<lparr>bs_phase = Ph_Error, bs_progress = 1\<rparr>) \<and>
     (\<exists>es. dt_events d' = dt_events d @ es \<and> sorted (map bs_progress es)) \<and>
     (\<exists>ps. dt_started d' = dt_started d @ ps \<and> dt_running d' = dt_running d @ filter (\<lambda>(_, k). be_stays E k) ps \<and>
        list_all (\<lambda>(_, k). serves (serve_vars E d) k) ps \<and>
        length (filter is_server ps) = (if pg_up E \<and> be_serve_spawn E then 1 else 0)) \<and>
     dt_migrated d' = dt_migrated d @ (if pg_up E then sort (filter is_sql (the (be_migrations E))) else []) \<and>
     steady d d'"
proof -
  obtain r d' where run: "bootstrap_stack E d = (r, d')" and adv: "advance E (serve_vars E d) (spawns_server E) (migrations E) (2 / 100) 1 d d'"
    and r: "r = (if stack_up E then Inr () else Inl GE_Bootstrap)"
    and ends: "if stack_up E
      then displays Ph_Ready d' \<and> serve_started E d' \<and> ap_conn (dt_app d') = (if be_connect E then Conn_Connected else Conn_Error)
      else displays Ph_Error d'"
    using bootstrap_stack_run [of E d] by blast
  from adv have "\<exists>es. dt_events d' = dt_events d @ es \<and> sorted (map bs_progress es)"
    and "children E (serve_vars E d) (if pg_up E \<and> be_serve_spawn E then 1 else 0) d d'"
    and "dt_migrated d' = dt_migrated d @ (if pg_up E then sort (filter is_sql (the (be_migrations E))) else [])"
    unfolding advance_def spawns_server_def migrations_def by blast+
  with run r ends advance_steady [OF adv] show ?thesis
    by (simp add: children_def displays_def bootstrap_status_def split: if_splits)
qed

text \<open>
  So an old server on the port hides the failure of the new one: when the server that is started exits
  at once but the port answers, the shell shows Ready and runs no server of its own.
\<close>

lemma ready_without_server:
  assumes "stack_up E" and "\<And>vars. \<not> be_stays E (P_Aidea_Serve vars)"
  shows "case bootstrap_stack E d of (r, d') \<Rightarrow>
     bootstrap_status d' = \<lparr>bs_phase = Ph_Ready, bs_progress = 1\<rparr> \<and>
     filter is_server (dt_running d') = filter is_server (dt_running d)"
proof -
  obtain r d' where run: "bootstrap_stack E d = (r, d')" and adv: "advance E (serve_vars E d) (spawns_server E) (migrations E) (2 / 100) 1 d d'"
    and ends: "displays Ph_Ready d'"
    using bootstrap_stack_run [of E d] assms(1) by auto
  have "filter is_server (filter (\<lambda>(_, k). be_stays E k) ps) = []" for ps
    using assms(2) by (auto simp: filter_empty_conv is_server_def split: process_kind.splits)
  with adv have "filter is_server (dt_running d') = filter is_server (dt_running d)"
    by (auto simp: advance_def children_def)
  with run ends show ?thesis by (simp add: displays_def bootstrap_status_def)
qed


text \<open>Waiting for the server ends: the clock is at least half a second further at every probe.\<close>

lemma wait_until_ready_ends:
  assumes "\<And>i. 500 * i \<le> elapsed i" and "timeout < 500 * (i + fuel)"
  shows "wait_until_ready ready elapsed timeout i (Suc fuel) \<noteq> None"
  using assms(2)
proof (induction fuel arbitrary: i)
  case 0
  then show ?case using assms(1) [of i] by auto
next
  case (Suc fuel)
  then have "wait_until_ready ready elapsed timeout (i + 1) (Suc fuel) \<noteq> None" by (intro Suc.IH) simp
  then show ?case by (subst wait_until_ready.simps(2)) (auto simp del: wait_until_ready.simps)
qed

lemma serving_decided:
  assumes "\<And>i. 500 * i \<le> be_elapsed E i"
  shows "be_serving E = (\<not> wait_until_ready (be_serve_ready E) (be_elapsed E) 30000 0 62 = Some False)"
proof -
  have n: "Suc 61 = 62" by simp
  have "wait_until_ready (be_serve_ready E) (be_elapsed E) 30000 0 (Suc 61) \<noteq> None"
    by (rule wait_until_ready_ends) (simp_all add: assms del: wait_until_ready.simps)
  then obtain b where "wait_until_ready (be_serve_ready E) (be_elapsed E) 30000 0 62 = Some b"
    unfolding n by blast
  then show ?thesis by (cases b) (simp_all only: be_serving_def option.inject simp_thms)
qed

section \<open>The attempts\<close>

lemma boot_attempts_run:
  "boot_attempts Es d = d' \<Longrightarrow>
     (let tried = take (Suc (length (takeWhile (\<lambda>E. \<not> stack_up E) Es))) Es;
          failed = takeWhile (\<lambda>E. \<not> stack_up E) Es
      in dt_pauses d' = dt_pauses d + length failed \<and>
         servers d' = servers d + sum_list (map spawns_server tried) \<and>
         steady (d\<lparr>dt_pauses := dt_pauses d'\<rparr>) d' \<and>
         (Es \<noteq> [] \<longrightarrow> displays (if list_ex stack_up Es then Ph_Ready else Ph_Error) d'))"
proof (induction Es arbitrary: d)
  case Nil
  then show ?case by (simp add: steady_def)
next
  case (Cons E Es)
  obtain r d1 where run: "bootstrap_stack E d = (r, d1)" and adv: "advance E (serve_vars E d) (spawns_server E) (migrations E) (2 / 100) 1 d d1"
    and r: "r = (if stack_up E then Inr () else Inl GE_Bootstrap)"
    and ends: "if stack_up E then displays Ph_Ready d1 else displays Ph_Error d1"
    using bootstrap_stack_run [of E d] by (metis (full_types))
  from adv have more: "servers d1 = servers d + spawns_server E" by (auto simp: advance_def children_def servers_def)
  have keep: "steady d d1" using adv advance_steady by blast
  show ?case
  proof (cases "stack_up E")
    case True
    with Cons.prems run r have "d' = d1" by simp
    with True ends more keep show ?thesis by (simp add: steady_def)
  next
    case False
    let ?d2 = "d1\<lparr>dt_pauses := dt_pauses d1 + 1\<rparr>"
    from False Cons.prems run r have rest: "boot_attempts Es ?d2 = d'" by simp
    have "displays Ph_Error d'" if "Es = []"
      using that rest False ends by (auto simp: displays_def)
    with False Cons.IH [OF rest] more keep show ?thesis
      by (auto simp: steady_def servers_def Let_def)
  qed
qed

text \<open>
  Bringing up the stack with retries stops at the first attempt that succeeds, sleeps a second
  after every one that fails, and shows Ready or Error accordingly; every attempt that gets as far as
  the server has started one more, and none is stopped between the attempts.
\<close>

theorem retries_outcome:
  "case (map E [0..<max tries 1], bootstrap_stack_with_retry E tries d) of (Es, d') \<Rightarrow>
     let failed = length (takeWhile (\<lambda>E. \<not> stack_up E) Es) in
     dt_pauses d' = dt_pauses d + failed \<and>
     bootstrap_status d' = \<lparr>bs_phase = (if list_ex stack_up Es then Ph_Ready else Ph_Error), bs_progress = 1\<rparr> \<and>
     servers d' = servers d + sum_list (map spawns_server (take (Suc failed) Es)) \<and>
     ap_vendor (dt_app d') = ap_vendor (dt_app d) \<and> dt_store_vendor d' = dt_store_vendor d"
  using boot_attempts_run [of "map E [0..<max tries 1]" d, OF refl]
  by (auto simp: bootstrap_stack_with_retry_def bootstrap_status_def displays_def steady_def Let_def)

section \<open>The stored choice\<close>

definition same_choice :: "desktop \<Rightarrow> desktop \<Rightarrow> bool" where
  "same_choice d d' \<longleftrightarrow> dt_store_vendor d' = dt_store_vendor d \<and> ap_vendor (dt_app d') = ap_vendor (dt_app d)"

interpretation choice: state_rel same_choice
  by unfold_locales (auto simp: same_choice_def)

lemma choice_steps:
  "rel_eff same_choice (emit_progress ph x)" "rel_eff same_choice (spawn_binary E ok k)"
  "rel_eff same_choice (on_app (\<lambda>s. s\<lparr>ap_serve := p\<rparr>) ())" "rel_eff same_choice stop_current"
  "rel_eff same_choice (ensure_connected E)"
  by (auto intro!: rel_effI simp: shell_steps stop_current_def ensure_connected_def same_choice_def Let_def
      split: if_splits option.splits)

lemma reconnect_choice: "rel_eff same_choice (bnd (restart_with_vendor E) (\<lambda>_. bnd (ensure_connected E) (\<lambda>_. ret ())))"
  unfolding restart_with_vendor_def serve_with_vendor_def start_with_env_def
  by (intro choice.rel_intros choice_steps)

lemma reconnect_stored:
  "dt_store_vendor (snd (bnd (restart_with_vendor E) (\<lambda>_. bnd (ensure_connected E) (\<lambda>_. ret ())) d)) = dt_store_vendor d"
  using reconnect_choice [of E] by (auto simp: rel_eff_def same_choice_def)

text \<open>
  A start of the shell forgets the stored model choice: whatever was stored stays stored, but the
  shell and the server it starts use the default one, and changing the local model then replaces the
  stored choice by the default with that model.
\<close>

theorem stored_choice_forgotten:
  "ap_vendor (dt_app (launch sa E d)) = default_vendor \<and>
   fst (load_vendor_config sa (launch sa E d)) = fst (load_vendor_config sa d) \<and>
   dt_store_vendor (snd (set_local_model E' model (launch sa E d))) =
     (if sa_opens (be_store E') then Some (default_vendor\<lparr>v_local_model := model\<rparr>) else dt_store_vendor d)"
proof -
  define d0 where "d0 = d\<lparr>dt_app := app_state_new, dt_events := []\<rparr>"
  have vendor: "ap_vendor (dt_app (launch sa E d)) = default_vendor" and store: "dt_store_vendor (launch sa E d) = dt_store_vendor d"
    using boot_attempts_run [of "map E [0..<max 2 1]" d0, OF refl]
    by (auto simp: launch_def Let_def bootstrap_stack_with_retry_def steady_def app_state_new_def d0_def)
  then show ?thesis
    using reconnect_stored [of E']
    by (simp add: load_vendor_config_def set_local_model_def save_vendor_config_def on_app_def eff_simps Let_def)
qed

end
