(* ===== verification/Desk.thy ===== *)
theory Desk
  imports Shell Fs_Host Cli
begin

unbundle bit_operations_syntax

text \<open>
  The commands of the desktop shell beyond the model choice (src/gui/src-tauri/src): the streams it
  forwards to the front end and how they are stopped (grpc/stream.rs, commands/chat.rs,
  commands/agent.rs, state.rs), comments, locks and secrets (domain/collab.rs), quests
  (domain/quest.rs), the health overview (commands/health.rs) and the vendor test (model_backend.rs).
\<close>

section \<open>Streams\<close>

text \<open>
  What the front end is sent: an item, the end, or the error that ended the stream.  Chat and agent
  streams differ in the item only; for a chat it carries the session, for an agent it does not.
\<close>

datatype 'm stream_event = Ev_Item 'm | Ev_Done str | Ev_Error str str

record chat_token =
  ct_session_id :: str
  ct_delta :: str

type_synonym 'm forwarded = "'m stream_event list \<times> (gui_error + unit)"

definition emitting :: "'m stream_event \<Rightarrow> 'm forwarded \<Rightarrow> 'm forwarded" where
  "emitting ev r = (ev # fst r, snd r)"

text \<open>
  The loop over the items: each comes with whether the token was cancelled when it arrived.
\<close>

fun forward :: "str \<Rightarrow> ('i \<Rightarrow> 'm) \<Rightarrow> (bool \<times> (str + 'i)) list \<Rightarrow> 'm forwarded" where
  "forward session_id f [] = ([Ev_Done session_id], Inr ())"
| "forward session_id f ((cancelled, item) # rest) =
     (if cancelled then ([Ev_Done session_id], Inr ())
      else case item of
          Inl e \<Rightarrow> ([Ev_Error session_id e], Inl GE_Grpc)
        | Inr m \<Rightarrow> emitting (Ev_Item (f m)) (forward session_id f rest))"

text \<open>\<open>run_chat\<close> and \<open>run_agent\<close>: a request the server refuses ends before the loop.\<close>

definition run_stream :: "str \<Rightarrow> ('i \<Rightarrow> 'm) \<Rightarrow> str + (bool \<times> (str + 'i)) list \<Rightarrow> 'm forwarded" where
  "run_stream session_id f answer = (case answer of
     Inl _ \<Rightarrow> ([], Inl GE_Grpc) | Inr items \<Rightarrow> forward session_id f items)"

definition chat_token_of :: "str \<Rightarrow> chat_message \<Rightarrow> chat_token" where
  "chat_token_of session_id m = \<lparr>ct_session_id = session_id, ct_delta = cm_content m\<rparr>"

definition run_chat_stream :: "str \<Rightarrow> str + (bool \<times> (str + chat_message)) list \<Rightarrow> chat_token forwarded" where
  "run_chat_stream session_id = run_stream session_id (chat_token_of session_id)"

definition run_agent_stream :: "str \<Rightarrow> str + (bool \<times> (str + agent_event)) list \<Rightarrow> agent_event forwarded" where
  "run_agent_stream session_id = run_stream session_id id"

text \<open>\<open>chat_send\<close> and \<open>agent_run\<close> up to the spawned stream.\<close>

definition open_stream :: "str \<Rightarrow> nat gui" where
  "open_stream session_id d = (if ap_clients (dt_app d) then register_abort session_id d else (Inl GE_Grpc, d))"

text \<open>
  What happens while a stream runs: commands of the front end, on any session, and items that arrive.
\<close>

datatype 'i happening = Opens str | Stops str | Arrives "str + 'i"

fun perform :: "'i happening \<Rightarrow> desktop \<Rightarrow> desktop" where
  "perform (Opens s) d = snd (open_stream s d)"
| "perform (Stops s) d = snd (cancel_abort s d)"
| "perform (Arrives _) d = d"

text \<open>The items of the stream with token \<open>t\<close>, each with the state of the token at its arrival.\<close>

fun flagged :: "nat \<Rightarrow> 'i happening list \<Rightarrow> desktop \<Rightarrow> (bool \<times> (str + 'i)) list" where
  "flagged t [] d = []"
| "flagged t (Arrives i # hs) d = (t \<in> dt_cancelled d, i) # flagged t hs d"
| "flagged t (h # hs) d = flagged t hs (perform h d)"

text \<open>
  The specification: a stop of the session cuts the stream at the next item, unless another stream
  of the session was opened before, after which nothing cuts it.
\<close>

fun arrivals :: "'i happening list \<Rightarrow> (str + 'i) list" where
  "arrivals [] = []"
| "arrivals (Arrives i # hs) = i # arrivals hs"
| "arrivals (_ # hs) = arrivals hs"

fun delivered :: "str \<Rightarrow> 'i happening list \<Rightarrow> (str + 'i) list" where
  "delivered s [] = []"
| "delivered s (Arrives i # hs) = i # delivered s hs"
| "delivered s (Opens s' # hs) = (if s' = s then arrivals hs else delivered s hs)"
| "delivered s (Stops s' # hs) = (if s' = s then [] else delivered s hs)"

definition uncut :: "(str + 'i) list \<Rightarrow> (bool \<times> (str + 'i)) list" where
  "uncut items = map (Pair False) items"

text \<open>Tokens are numbered: those handed out are below the next one, those in use are not cancelled.\<close>

definition tokens_ok :: "desktop \<Rightarrow> bool" where
  "tokens_ok d \<longleftrightarrow> (\<forall>t \<in> dt_cancelled d. t < dt_next_token d) \<and>
     (\<forall>s t. ap_aborts (dt_app d) s = Some t \<longrightarrow> t < dt_next_token d \<and> t \<notin> dt_cancelled d) \<and>
     (\<forall>s s' t. ap_aborts (dt_app d) s = Some t \<longrightarrow> ap_aborts (dt_app d) s' = Some t \<longrightarrow> s' = s)"

lemmas token_steps = open_stream_def register_abort_def cancel_abort_def tokens_ok_def

lemma perform_tokens: "tokens_ok d \<Longrightarrow> tokens_ok (perform h d)"
  by (cases h) (fastforce simp: token_steps Let_def split: option.splits)+

lemma perform_clients [simp]: "ap_clients (dt_app (perform h d)) = ap_clients (dt_app d)"
  by (cases h) (simp_all add: token_steps Let_def split: option.splits)

definition orphan :: "nat \<Rightarrow> desktop \<Rightarrow> bool" where
  "orphan t d \<longleftrightarrow> t < dt_next_token d \<and> t \<notin> dt_cancelled d \<and> (\<forall>s. ap_aborts (dt_app d) s \<noteq> Some t)"

lemma perform_orphan: "orphan t d \<Longrightarrow> orphan t (perform h d)"
  by (cases h) (auto simp: orphan_def token_steps Let_def split: option.splits)

lemma flagged_orphan: "orphan t d \<Longrightarrow> flagged t hs d = uncut (arrivals hs)"
proof (induction hs arbitrary: d)
  case (Cons h hs)
  then have "flagged t hs (perform h d) = uncut (arrivals hs)" using perform_orphan by blast
  with Cons.prems show ?case by (cases h) (simp_all add: uncut_def orphan_def)
qed (simp add: uncut_def)

lemma perform_cancelled: "t \<in> dt_cancelled d \<Longrightarrow> t \<in> dt_cancelled (perform h d)"
  by (cases h) (auto simp: token_steps Let_def split: option.splits)

lemma forward_cancelled:
  "t \<in> dt_cancelled d \<Longrightarrow> forward s f (flagged t hs d) = ([Ev_Done s], Inr ())"
proof (induction hs arbitrary: d)
  case (Cons h hs)
  from Cons.IH [OF perform_cancelled [OF Cons.prems, of h]] Cons.prems show ?case by (cases h) simp_all
qed simp

lemma forward_cut:
  assumes "tokens_ok d" "ap_clients (dt_app d)" "ap_aborts (dt_app d) s = Some t"
  shows "forward s f (flagged t hs d) = forward s f (uncut (delivered s hs))"
  using assms
proof (induction hs arbitrary: d)
  case Nil
  then show ?case by (simp add: uncut_def)
next
  case (Cons h hs)
  note ok = perform_tokens [OF Cons.prems(1), of h]
  have clients: "ap_clients (dt_app (perform h d))" using Cons.prems(2) by (simp only: perform_clients)
  show ?case
  proof (cases h)
    case (Opens s')
    show ?thesis
    proof (cases "s' = s")
      case True
      have "orphan t (perform h d)"
        using Cons.prems by (fastforce simp: Opens True orphan_def token_steps Let_def)
      with flagged_orphan [OF this, of hs] show ?thesis by (simp add: Opens True)
    next
      case False
      then have "ap_aborts (dt_app (perform h d)) s = Some t"
        using Cons.prems by (simp add: Opens token_steps Let_def)
      with Cons.IH [OF ok clients] False show ?thesis by (simp add: Opens)
    qed
  next
    case (Stops s')
    show ?thesis
    proof (cases "s' = s")
      case True
      have "t \<in> dt_cancelled (perform h d)" using Cons.prems by (simp add: Stops True token_steps)
      with forward_cancelled [OF this, of s f hs] show ?thesis by (simp add: Stops True uncut_def)
    next
      case False
      then have "ap_aborts (dt_app (perform h d)) s = Some t"
        using Cons.prems by (simp add: Stops token_steps split: option.splits)
      with Cons.IH [OF ok clients] False show ?thesis by (simp add: Stops)
    qed
  next
    case (Arrives i)
    with Cons.prems have "t \<notin> dt_cancelled d" by (auto simp: tokens_ok_def)
    with Arrives Cons.IH [OF Cons.prems] show ?thesis by (cases i) (simp_all add: uncut_def)
  qed
qed

text \<open>
  C29: stopping a stream: whatever is opened, stopped and received afterwards, on any session, the front
  end is sent the items that arrive before the first stop of the session and then the end, or an error that ends the stream; but once a
  second stream of the session is opened, chat or agent, the first can no longer be stopped and all its
  items are sent.
\<close>

theorem stop_effect:
  assumes "tokens_ok d" and "ap_clients (dt_app d)"
  shows "case open_stream s d of
       (Inr t, d') \<Rightarrow> forward s f (flagged t hs d') = forward s f (uncut (delivered s hs))
     | (Inl _, _) \<Rightarrow> False"
proof -
  have "tokens_ok (snd (open_stream s d))" using perform_tokens [OF assms(1), of "Opens s"] by simp
  then show ?thesis
    using assms forward_cut [of "snd (open_stream s d)" s _ f hs] by (simp add: open_stream_def register_abort_def Let_def)
qed


text \<open>A desktop whose client is connected, for the witnesses.\<close>

definition demo_desktop :: desktop where
  "demo_desktop = \<lparr>dt_app = app_state_new\<lparr>ap_clients := True\<rparr>, dt_store_vendor = None, dt_store_auto = None,
     dt_keyring = Map.empty, dt_comments = [], dt_secrets = [], dt_migrated = [], dt_started = [], dt_running = [], dt_next_pid = 0,
     dt_next_token = 0, dt_cancelled = {}, dt_events = [], dt_pauses = 0\<rparr>"

lemma demo_desktop_ok: "tokens_ok demo_desktop" "ap_clients (dt_app demo_desktop)"
  by (simp_all add: demo_desktop_def tokens_ok_def app_state_new_def)

theorem stop_effect_witness:
  "(case open_stream ''s'' demo_desktop of
      (Inr t, d) \<Rightarrow> forward ''s'' id (flagged t [Arrives (Inr ''a''), Stops ''s'', Arrives (Inr ''b'')] d) =
        ([Ev_Item ''a'', Ev_Done ''s''], Inr ())
    | _ \<Rightarrow> False) \<and>
   (case open_stream ''s'' demo_desktop of
      (Inr t, d) \<Rightarrow> forward ''s'' id (flagged t [Arrives (Inr ''a''), Opens ''s'', Stops ''s'', Arrives (Inr ''b'')] d) =
        ([Ev_Item ''a'', Ev_Item ''b'', Ev_Done ''s''], Inr ())
    | _ \<Rightarrow> False)"
  using stop_effect [OF demo_desktop_ok, of "''s''" id "[Arrives (Inr ''a''), Stops ''s'', Arrives (Inr ''b'')]"]
    stop_effect [OF demo_desktop_ok, of "''s''" id "[Arrives (Inr ''a''), Opens ''s'', Stops ''s'', Arrives (Inr ''b'')]"]
  by (simp add: uncut_def emitting_def del: flagged.simps split: prod.splits sum.splits)

section \<open>Comments, locks and secrets\<close>

text \<open>
  What a command finds: whether the bundled database can be reached, the faults of its transaction, its
  time, the session key pgcrypto draws, the clock, and what the key ring answers.
\<close>

record collab_env =
  ce_connect :: "str option"
  ce_faults :: tx_faults
  ce_pg_now :: int
  ce_draw :: nat
  ce_clock :: int
  ce_crypto :: pgcrypto
  ce_collation :: "str \<Rightarrow> str \<Rightarrow> bool"
  ce_keyring :: keyring_answer

definition in_process_config :: "keyring_answer \<Rightarrow> desktop \<Rightarrow> core_config" where
  "in_process_config keyring d = build_core_config (ap_vendor (dt_app d)) (keyring_get keyring ''online_api_key'' d)"

definition gui_result :: "str + 'a \<Rightarrow> gui_error + 'a" where
  "gui_result r = (case r of Inl e \<Rightarrow> Inl (GE_Internal e) | Inr x \<Rightarrow> Inr x)"

text \<open>A comment store in memory lives as long as the command.\<close>

definition on_comment_store ::
  "collab_env \<Rightarrow> (mem_comments \<Rightarrow> (str + 'a) \<times> mem_comments) \<Rightarrow> (comment list \<Rightarrow> (str + 'a) \<times> comment list) \<Rightarrow> 'a gui" where
  "on_comment_store E mem pg d = (case ce_connect E of
       Some _ \<Rightarrow> (gui_result (fst (mem mem_comments_new)), d)
     | None \<Rightarrow> (case pg (dt_comments d) of (r, tab) \<Rightarrow> (gui_result r, d\<lparr>dt_comments := tab\<rparr>)))"

definition gui_comment_add :: "collab_env \<Rightarrow> str \<Rightarrow> nat \<Rightarrow> str \<Rightarrow> comment gui" where
  "gui_comment_add E f line body d =
     (let cfg = in_process_config (ce_keyring E) d;
          c = comment_new (ce_clock E) (cf_tenant_id cfg) f line line (cf_user_id cfg) body
      in bnd (on_comment_store E (mem_add c) (pg_add (ce_faults E) (ce_pg_now E) c))
           (\<lambda>i. ret (c\<lparr>co_id := i, co_resolved := False\<rparr>)) d)"

definition gui_comment_list :: "collab_env \<Rightarrow> str \<Rightarrow> comment list gui" where
  "gui_comment_list E f d = (let tenant = cf_tenant_id (in_process_config (ce_keyring E) d) in
     on_comment_store E (mem_list_for_file tenant f) (pg_list_for_file (ce_faults E) (ce_collation E) tenant f) d)"

definition gui_comment_resolve :: "collab_env \<Rightarrow> str \<Rightarrow> bool gui" where
  "gui_comment_resolve E i d = (let tenant = cf_tenant_id (in_process_config (ce_keyring E) d) in
     on_comment_store E (mem_resolve tenant i) (pg_resolve (ce_faults E) tenant i) d)"

text \<open>The lock store is one for the process.\<close>

definition on_locks :: "(mem_locks \<Rightarrow> mem_locks) \<Rightarrow> desktop \<Rightarrow> desktop" where
  "on_locks f d = d\<lparr>dt_app := (dt_app d)\<lparr>ap_locks := f (ap_locks (dt_app d))\<rparr>\<rparr>"

definition gui_lock_acquire :: "collab_env \<Rightarrow> str \<Rightarrow> lock gui" where
  "gui_lock_acquire E f d = (let cfg = in_process_config (ce_keyring E) d;
       l = lock_new (ce_clock E) (cf_tenant_id cfg) f (cf_user_id cfg)
     in (Inr l, on_locks (lock_acquire l) d))"

definition gui_lock_release :: "collab_env \<Rightarrow> str \<Rightarrow> unit gui" where
  "gui_lock_release E f d = (Inr (), on_locks (lock_release (cf_tenant_id (in_process_config (ce_keyring E) d)) f) d)"

definition gui_lock_show :: "collab_env \<Rightarrow> str \<Rightarrow> lock option gui" where
  "gui_lock_show E f d =
     (Inr (lock_get (cf_tenant_id (in_process_config (ce_keyring E) d)) f (ap_locks (dt_app d))), d)"

definition on_secret_store :: "collab_env \<Rightarrow> (secret_row list \<Rightarrow> (str + 'a) \<times> secret_row list) \<Rightarrow> 'a gui" where
  "on_secret_store E pg d = (case ce_connect E of
       Some e \<Rightarrow> (Inl (GE_Internal e), d)
     | None \<Rightarrow> (case pg (dt_secrets d) of (r, tab) \<Rightarrow> (gui_result r, d\<lparr>dt_secrets := tab\<rparr>)))"

definition gui_secret_set :: "collab_env \<Rightarrow> str \<Rightarrow> str \<Rightarrow> unit gui" where
  "gui_secret_set E name v d = (let cfg = in_process_config (ce_keyring E) d in
     on_secret_store E (pg_secret_set (ce_faults E) (ce_crypto E) (ce_draw E) (cf_tenant_id cfg) name v (cf_enc_key cfg)) d)"

definition gui_secret_get :: "collab_env \<Rightarrow> str \<Rightarrow> str option gui" where
  "gui_secret_get E name d = (let cfg = in_process_config (ce_keyring E) d in
     on_secret_store E (pg_secret_get (ce_faults E) (ce_crypto E) (cf_tenant_id cfg) name (cf_enc_key cfg)) d)"

section \<open>Quests, the health overview and the vendor test\<close>

definition gui_quest_config :: "core_config \<Rightarrow> bool option \<Rightarrow> quest_config" where
  "gui_quest_config cfg auto_commit = (case auto_commit of
     Some ac \<Rightarrow> (config_quest cfg)\<lparr>qc_auto_commit := ac\<rparr> | None \<Rightarrow> config_quest cfg)"

text \<open>A quest over a fresh in-memory host and the network \<open>n\<close>.\<close>

definition gui_quest :: "'n agent_http \<Rightarrow> ('n \<Rightarrow> int) \<Rightarrow> core_config \<Rightarrow> bool option \<Rightarrow> (docs \<times> 'n) quest" where
  "gui_quest H clk cfg auto_commit =
     (let llm = process_llm (build_llm H cfg) in
      quest_new (llm_decompose llm) llm basic_run (basic_validate (cf_quest_max_steps cfg)) process_host
        (gui_quest_config cfg auto_commit) (\<lambda>e. clk (snd e)))"

text \<open>\<open>c\<close> is the process's counter of held actions, which outlives the quest.\<close>

definition gui_run_quest ::
  "'n agent_http \<Rightarrow> ('n \<Rightarrow> int) \<Rightarrow> keyring_answer \<Rightarrow> str \<Rightarrow> bool option \<Rightarrow> desktop \<Rightarrow> 'n \<Rightarrow> u64 \<Rightarrow>
   (gui_error + quest_report) \<times> 'n \<times> u64" where
  "gui_run_quest H clk keyring goal auto_commit d n c =
     (case quest_run (gui_quest H clk (in_process_config keyring d) auto_commit) goal
             ((world0 (\<lambda>_. None, n))\<lparr>w_counter := c\<rparr>) of
        (r, w) \<Rightarrow> (gui_result r, snd (env w), w_counter w))"

record console_dto =
  cs_tenant_id :: str
  cs_user_id :: str
  cs_perm_mask :: "32 word"
  cs_permissions :: str
  cs_audit_events :: u64
  cs_requests :: u64
  cs_tool_calls :: u64
  cs_llm_calls :: u64
  cs_completions :: u64
  cs_denials :: u64
  cs_p95_ms :: rat

text \<open>\<open>healthz\<close>: the body the listener sends, if it can be reached and the body read.\<close>

definition health_overview :: "str option option \<Rightarrow> core_config \<Rightarrow> str \<times> console_dto" where
  "health_overview healthz cfg =
     (case healthz of None \<Rightarrow> ''unreachable'' | Some body \<Rightarrow> trim (case body of Some b \<Rightarrow> b | None \<Rightarrow> []),
      \<lparr>cs_tenant_id = cf_tenant_id cfg, cs_user_id = cf_user_id cfg, cs_perm_mask = cf_perm_mask cfg,
       cs_permissions = join_with '','' (ps_labels (ps_from_mask (cf_perm_mask cfg))), cs_audit_events = 0,
       cs_requests = 0, cs_tool_calls = 0, cs_llm_calls = 0, cs_completions = 0, cs_denials = 0, cs_p95_ms = 0\<rparr>)"

definition permission_names :: "(permission \<times> str) list" where
  "permission_names = [(P_Read, ''Read''), (P_Generate, ''Generate''), (P_Modify, ''Modify''),
     (P_Execute, ''Execute''), (P_Commit, ''Commit''), (P_Audit, ''Audit'')]"

definition format_permissions :: "32 word \<Rightarrow> str" where
  "format_permissions m =
     (let names = map snd (filter (\<lambda>(p, _). ucast (perm_bit_val p) AND m \<noteq> 0) permission_names)
      in if names = [] then ''None'' else join_with '','' names)"

definition console_dto_of :: "console_status_r \<Rightarrow> console_dto" where
  "console_dto_of c = \<lparr>cs_tenant_id = co_tenant_id c, cs_user_id = co_user_id c, cs_perm_mask = co_perm_mask c,
     cs_permissions = format_permissions (co_perm_mask c), cs_audit_events = co_audit_events c,
     cs_requests = co_requests c, cs_tool_calls = co_tool_calls c, cs_llm_calls = co_llm_calls c,
     cs_completions = co_completions c, cs_denials = co_denials c, cs_p95_ms = co_request_p95_ms c\<rparr>"

text \<open>\<open>post\<close>: the status of a POST to a URL with a model and a bearer, None when it fails.\<close>

definition test_vendor :: "(str \<Rightarrow> str \<Rightarrow> str option \<Rightarrow> nat option) \<Rightarrow> str \<Rightarrow> str option \<Rightarrow> bool" where
  "test_vendor post base_url api_key =
     (case post (trim_end_matches CHR ''/'' base_url @ ''/chat/completions'') DEFAULT_ONLINE_MODEL
          (case api_key of Some key \<Rightarrow> if trim key \<noteq> [] then Some (trim key) else None | None \<Rightarrow> None) of
        Some status \<Rightarrow> 200 \<le> status \<and> status < 300
      | None \<Rightarrow> False)"


section \<open>The key of an online vendor\<close>

text \<open>
  The commands that can change the desktop (main.rs), each with the environment it finds, and the task that
  brings up the stack when the shell starts.  The other commands only read, or act on the disk or on a
  quest's own world.  A command runs as a whole before the next one.
\<close>

datatype shell_command =
    Sc_Bootstrap "nat \<Rightarrow> boot_env" nat
  | Sc_Set_Vendor boot_env vendor_config
  | Sc_Set_Model boot_env str
  | Sc_Set_Auto store_answers bool
  | Sc_Open str
  | Sc_Stop str
  | Sc_Comment_Add collab_env str nat str
  | Sc_Comment_List collab_env str
  | Sc_Comment_Resolve collab_env str
  | Sc_Lock_Acquire collab_env str
  | Sc_Lock_Release collab_env str
  | Sc_Secret_Set collab_env str str
  | Sc_Secret_Get collab_env str

primrec run_command :: "shell_command \<Rightarrow> desktop \<Rightarrow> desktop" where
  "run_command (Sc_Bootstrap E tries) d = bootstrap_stack_with_retry E tries d"
| "run_command (Sc_Set_Vendor E v) d = snd (set_vendor_config E v d)"
| "run_command (Sc_Set_Model E m) d = snd (set_local_model E m d)"
| "run_command (Sc_Set_Auto sa b) d = snd (save_auto_bootstrap sa b d)"
| "run_command (Sc_Open s) d = snd (open_stream s d)"
| "run_command (Sc_Stop s) d = snd (cancel_abort s d)"
| "run_command (Sc_Comment_Add E f line body) d = snd (gui_comment_add E f line body d)"
| "run_command (Sc_Comment_List E f) d = snd (gui_comment_list E f d)"
| "run_command (Sc_Comment_Resolve E i) d = snd (gui_comment_resolve E i d)"
| "run_command (Sc_Lock_Acquire E f) d = snd (gui_lock_acquire E f d)"
| "run_command (Sc_Lock_Release E f) d = snd (gui_lock_release E f d)"
| "run_command (Sc_Secret_Set E name v) d = snd (gui_secret_set E name v d)"
| "run_command (Sc_Secret_Get E name) d = snd (gui_secret_get E name d)"

definition run_commands :: "shell_command list \<Rightarrow> desktop \<Rightarrow> desktop" where
  "run_commands cs d = fold run_command cs d"

text \<open>The environment of the shell itself configures nothing.\<close>

definition quiet_env :: "boot_env \<Rightarrow> bool" where
  "quiet_env E \<longleftrightarrow> list_all (\<lambda>(k, v). \<not> starts_with k ENV_PREFIX) (be_parent_env E)"

definition quiet_command :: "shell_command \<Rightarrow> bool" where
  "quiet_command c = (case c of
       Sc_Bootstrap E tries \<Rightarrow> list_all quiet_env (map E [0..<max tries 1])
     | Sc_Set_Vendor E _ \<Rightarrow> quiet_env E
     | Sc_Set_Model E _ \<Rightarrow> quiet_env E
     | _ \<Rightarrow> True)"

text \<open>A server has no key, or the one of this entry of the key ring.\<close>

definition ring_key :: "str option \<Rightarrow> nat \<times> process_kind \<Rightarrow> bool" where
  "ring_key entry p \<longleftrightarrow> (case snd p of
       P_Aidea_Serve vars \<Rightarrow> cf_llm_api_key (from_env vars) = [] \<or> Some (cf_llm_api_key (from_env vars)) = entry
     | _ \<Rightarrow> True)"

definition key_kept :: "desktop \<Rightarrow> desktop \<Rightarrow> bool" where
  "key_kept d d' \<longleftrightarrow> dt_keyring d' = dt_keyring d \<and> dt_secrets d' = dt_secrets d \<and>
     (\<exists>ps. dt_started d' = dt_started d @ ps \<and> list_all (ring_key (dt_keyring d ''online_api_key'')) ps)"

lemma key_kept_same:
  "dt_keyring d' = dt_keyring d \<Longrightarrow> dt_secrets d' = dt_secrets d \<Longrightarrow> dt_started d' = dt_started d \<Longrightarrow> key_kept d d'"
  by (simp add: key_kept_def)

lemma key_kept_trans: "key_kept d e \<Longrightarrow> key_kept e f \<Longrightarrow> key_kept d f"
  by (fastforce simp: key_kept_def)

interpretation key: state_rel key_kept
  by unfold_locales (auto intro: key_kept_same key_kept_trans)

lemma served_ring_key:
  assumes "quiet_env E"
  shows "ring_key (dt_keyring d ''online_api_key'') (pid, P_Aidea_Serve (serve_vars E d))"
proof -
  have "cf_llm_api_key (from_env (serve_vars E d)) = [] \<or>
      Some (cf_llm_api_key (from_env (serve_vars E d))) = dt_keyring d ''online_api_key''"
    unfolding serve_vars_def served_env [OF assms [unfolded quiet_env_def]] loaded_env keyring_get_def
    by (simp split: keyring_answer.split option.split)
  then show ?thesis by (simp add: ring_key_def)
qed

lemma advance_key:
  assumes "quiet_env E" and "advance E (serve_vars E d) n ms lo hi d d'"
  shows "key_kept d d'"
proof -
  from assms(2) obtain ps where started: "dt_started d' = dt_started d @ ps"
    and ps: "list_all (\<lambda>(_, k). serves (serve_vars E d) k) ps" and keep: "steady d d'"
    unfolding advance_def children_def by blast
  from ps have "list_all (ring_key (dt_keyring d ''online_api_key'')) ps"
  proof (rule list.pred_mono_strong)
    fix p :: "nat \<times> process_kind" assume "case p of (_, k) \<Rightarrow> serves (serve_vars E d) k"
    then show "ring_key (dt_keyring d ''online_api_key'') p"
      using served_ring_key [OF assms(1), of d]
      by (cases p) (auto simp: serves_def ring_key_def split: process_kind.splits)
  qed
  with started keep show ?thesis by (auto simp: key_kept_def steady_def)
qed

lemma attempts_key: "list_all quiet_env Es \<Longrightarrow> key_kept d (boot_attempts Es d)"
proof (induction Es arbitrary: d)
  case (Cons E Es)
  obtain r d1 where run: "bootstrap_stack E d = (r, d1)"
    and adv: "advance E (serve_vars E d) (spawns_server E) (migrations E) (2 / 100) 1 d d1"
    using bootstrap_stack_run [of E d] by blast
  with Cons.prems have here: "key_kept d d1" using advance_key by auto
  have "key_kept d1 (boot_attempts Es (d1\<lparr>dt_pauses := dt_pauses d1 + 1\<rparr>))"
    using Cons.IH [of "d1\<lparr>dt_pauses := dt_pauses d1 + 1\<rparr>"] Cons.prems by (auto simp: key_kept_def)
  with here run show ?case by (auto intro: key_kept_trans split: sum.split)
qed (simp add: key_kept_def)

lemma restart_key: "quiet_env E \<Longrightarrow> rel_eff key_kept (restart_with_vendor E)"
  unfolding restart_with_vendor_def
proof (intro key.rel_intros)
  show "rel_eff key_kept stop_current"
    by (rule rel_effI) (auto simp: stop_current_def intro: key_kept_same split: option.splits)
  assume quiet: "quiet_env E"
  show "rel_eff key_kept (serve_with_vendor E)"
  proof (rule rel_effI)
    fix d r d' assume "serve_with_vendor E d = (r, d')"
    with serve_with_vendor_run [of E d] have
      "advance E (serve_vars E d) (if be_serve_spawn E then 1 else 0) [] (75 / 100) (95 / 100) d d'" by simp
    with quiet show "key_kept d d'" by (rule advance_key)
  qed
qed

lemma key_steps:
  "rel_eff key_kept (ensure_connected E)" "rel_eff key_kept (on_app f x)" "rel_eff key_kept (save_vendor_config sa v)"
  "rel_eff key_kept (save_auto_bootstrap sa b)" "rel_eff key_kept (open_stream s)" "rel_eff key_kept (cancel_abort s)"
  by (rule rel_effI; auto simp: ensure_connected_def on_app_def save_vendor_config_def save_auto_bootstrap_def
      token_steps Let_def intro!: key_kept_same split: if_splits option.splits)+

lemma comment_key: "rel_eff key_kept (on_comment_store E mem pg)"
  by (rule rel_effI) (auto simp: on_comment_store_def intro!: key_kept_same split: option.splits prod.splits)

lemma added_key: "key_kept d (snd (bnd (on_comment_store E mem pg) (\<lambda>i. ret (f i)) d))"
proof -
  have "rel_eff key_kept (bnd (on_comment_store E mem pg) (\<lambda>i. ret (f i)))"
    by (intro key.rel_intros comment_key)
  then show ?thesis by (simp add: rel_eff_def)
qed

text \<open>Setting a secret from the shell always fails: with the error of the connection or of the transaction.\<close>

definition gui_secret_error :: "collab_env \<Rightarrow> str" where
  "gui_secret_error E = (case ce_connect E of Some e \<Rightarrow> e | None \<Rightarrow> secret_error (ce_faults E))"

lemma gui_secret_refused:
  "gui_secret_set E name v d = (Inl (GE_Internal (gui_secret_error E)), d)"
  "gui_secret_get E name d = (Inl (GE_Internal (gui_secret_error E)), d)"
  by (simp_all add: gui_secret_set_def gui_secret_get_def on_secret_store_def gui_result_def gui_secret_error_def Let_def
      split: option.split)

lemma command_key: "quiet_command c \<Longrightarrow> key_kept d (run_command c d)"
proof (cases c)
  case (Sc_Bootstrap E tries)
  then show "quiet_command c \<Longrightarrow> ?thesis"
    by (simp only: run_command.simps bootstrap_stack_with_retry_def quiet_command_def shell_command.case attempts_key)
next
  case (Sc_Set_Vendor E v)
  assume "quiet_command c"
  then have "rel_eff key_kept (set_vendor_config E v)"
    unfolding set_vendor_config_def
    by (intro key.rel_intros key_steps restart_key) (simp add: quiet_command_def Sc_Set_Vendor)
  then show ?thesis by (simp add: Sc_Set_Vendor rel_eff_def)
next
  case (Sc_Set_Model E m)
  assume "quiet_command c"
  then have "quiet_env E" by (simp add: quiet_command_def Sc_Set_Model)
  note restart = restart_key [OF this]
  have "rel_eff key_kept (bnd (on_app f x) (\<lambda>_. bnd (save_vendor_config sa v) (\<lambda>_.
      if b then bnd (restart_with_vendor E) (\<lambda>_. bnd (ensure_connected E) (\<lambda>_. ret ())) else ret ())))"
    for f and x :: unit and sa v b
    by (cases b; simp only: if_True if_False; intro key.rel_intros key_steps restart)
  then show ?thesis unfolding Sc_Set_Model run_command.simps set_local_model_def Let_def rel_eff_def by blast
qed (simp_all add: gui_comment_add_def gui_comment_list_def gui_comment_resolve_def gui_lock_acquire_def
    gui_lock_release_def on_locks_def gui_secret_refused Let_def key_kept_same added_key
    key_steps [unfolded rel_eff_def, rule_format] comment_key [unfolded rel_eff_def, rule_format])

lemma commands_key: "list_all quiet_command cs \<Longrightarrow> key_kept d (run_commands cs d)"
proof (induction cs arbitrary: d)
  case (Cons c cs)
  then have "key_kept d (run_command c d)" and "key_kept (run_command c d) (run_commands cs (run_command c d))"
    using command_key by simp_all
  then show ?case by (auto simp: run_commands_def intro: key_kept_trans)
qed (simp add: run_commands_def key.rel_refl)


text \<open>An environment where everything comes up at once, for the witness.\<close>

definition demo_boot :: boot_env where
  "demo_boot = \<lparr>be_pg_ready = (\<lambda>_. True), be_pg_version = True, be_initdb = True, be_pg_ctl = True,
     be_migrations = Some [], be_llama_ready = (\<lambda>_. True), be_resources = ''/r'', be_exists = (\<lambda>_. False),
     be_llama_spawn = True, be_serve_spawn = True, be_serve_ready = (\<lambda>_. True), be_elapsed = (\<lambda>i. 500 * i),
     be_connect = True, be_store = \<lparr>sa_opens = True, sa_saves = True\<rparr>, be_parent_env = [(''PATH'', ''/bin'')],
     be_keyring = Kr_Open, be_stays = (\<lambda>_. True)\<rparr>"

definition demo_collab :: collab_env where
  "demo_collab = \<lparr>ce_connect = None, ce_faults = no_tx_faults, ce_pg_now = 0, ce_draw = 0, ce_clock = 0,
     ce_crypto = demo_crypto, ce_collation = (\<lambda>_ _. True), ce_keyring = Kr_Open\<rparr>"

text \<open>Saving the settings with a key: the key is refused, the server is started without one.\<close>

definition save_settings :: "shell_command list" where
  "save_settings = [Sc_Secret_Set demo_collab ''online_api_key'' ''key'', Sc_Set_Vendor demo_boot demo_vendor]"


section \<open>Secrets of the shell\<close>

text \<open>The shell has no key for the secrets of its database: it would encrypt them under the empty one.\<close>

lemma gui_enc_key: "cf_enc_key (in_process_config keyring d) = []"
  by (simp add: in_process_config_def build_core_config_def core_config_default_def Let_def
      split: vendor_kind.splits option.splits sum.splits)

lemma gui_identity:
  "cf_tenant_id (in_process_config keyring d) = ''single''" "cf_user_id (in_process_config keyring d) = ''admin''"
  by (simp_all add: in_process_config_def build_core_config_def core_config_default_def Let_def
      split: vendor_kind.splits option.splits sum.splits)

text \<open>A lock of the shell stays until it is released, and it is always the same user's.\<close>

lemma gui_lock_shown:
  "case gui_lock_acquire E f d of (Inr l, d') \<Rightarrow>
       fst (gui_lock_show E' f d') = Inr (Some l) \<and> lk_owner l = ''admin'' \<and>
       fst (gui_lock_show E' f (snd (gui_lock_release E' f d'))) = Inr None
     | _ \<Rightarrow> False"
  by (simp add: gui_lock_acquire_def gui_lock_show_def gui_lock_release_def on_locks_def gui_identity lock_acquire_def
      lock_release_def lock_get_def lock_new_def update_conv' delete_conv' Let_def)

end
