(* ===== verification/Audit_Race.thy ===== *)
theory Audit_Race
  imports Audit_Trail "HOL-Library.Multiset"
begin

text \<open>
  Audit records written at the same time.  The service spawns a task per record
  (crates/core/src/agent.rs, \<open>audit\<close>), and the Postgres sink reads the tenant's last hash and inserts
  its row in two statements (audit.rs, \<open>PgAuditSink::record\<close>), so the statements of several tasks
  interleave.  What a task reads also depends on its role: a role subject to row-level security
  (migrations/0001_init.sql and 0005_v20.sql have no policy that lets it select) sees no row.
\<close>

section \<open>Tasks and steps\<close>

text \<open>
  A task has not asked yet, knows the hash it links its row to, has inserted its row, or was dropped
  with an error.
\<close>

datatype audit_task = T_Spawned audit_event | T_Linked audit_event str | T_Stored audit_event
  | T_Dropped audit_event

record audit_race =
  ar_tasks :: "audit_task list"
  ar_table :: audit_table

text \<open>Tasks spawned for \<open>es\<close>, over the table the records before them left.\<close>

definition race_start :: "audit_event list \<Rightarrow> audit_table \<Rightarrow> audit_race" where
  "race_start es tab = \<lparr>ar_tasks = map T_Spawned es, ar_table = tab\<rparr>"

text \<open>
  One statement of one task.  A task that fails may have drawn ids from the sequence (\<open>n\<close> of them,
  counting other sessions' failures), which are not given back.
\<close>

inductive audit_step :: "(str \<Rightarrow> 8 word list) \<Rightarrow> bool \<Rightarrow> audit_race \<Rightarrow> audit_race \<Rightarrow> bool"
  for sha sel where
  select: "i < length (ar_tasks s) \<Longrightarrow> ar_tasks s ! i = T_Spawned e \<Longrightarrow>
    audit_step sha sel s (s\<lparr>ar_tasks := (ar_tasks s)[i := T_Linked e (link_of sel e (ar_table s))]\<rparr>)"
| insert: "i < length (ar_tasks s) \<Longrightarrow> ar_tasks s ! i = T_Linked e p \<Longrightarrow>
    audit_step sha sel s (s\<lparr>ar_tasks := (ar_tasks s)[i := T_Stored e],
      ar_table := insert_row sha sel (event_row sha e p) (burn_ids n (ar_table s))\<rparr>)"
| select_fails: "i < length (ar_tasks s) \<Longrightarrow> ar_tasks s ! i = T_Spawned e \<Longrightarrow>
    audit_step sha sel s (s\<lparr>ar_tasks := (ar_tasks s)[i := T_Dropped e]\<rparr>)"
| insert_fails: "i < length (ar_tasks s) \<Longrightarrow> ar_tasks s ! i = T_Linked e p \<Longrightarrow>
    audit_step sha sel s (s\<lparr>ar_tasks := (ar_tasks s)[i := T_Dropped e], ar_table := burn_ids n (ar_table s)\<rparr>)"

inductive_cases audit_stepE: "audit_step sha sel s s'"

section \<open>One task at a time\<close>

text \<open>
  A task that runs alone does what \<open>pg_record\<close> does: both statements, or the error of either.
\<close>

definition alone :: "(str \<Rightarrow> 8 word list) \<Rightarrow> pg_faults \<Rightarrow> audit_event \<Rightarrow> audit_table \<Rightarrow> audit_race" where
  "alone sha flt e tab = (case pg_record sha flt e tab of
     (Inl _, tab') \<Rightarrow> \<lparr>ar_tasks = [T_Dropped e], ar_table = tab'\<rparr>
   | (Inr _, tab') \<Rightarrow> \<lparr>ar_tasks = [T_Stored e], ar_table = tab'\<rparr>)"

lemma alone_reached:
  "(audit_step sha (may_select flt))\<^sup>*\<^sup>* (race_start [e] tab) (alone sha flt e tab)"
proof -
  let ?r = "may_select flt"
  let ?t = "\<lparr>ar_tasks = [T_Linked e (link_of ?r e tab)], ar_table = tab\<rparr>"
  have ask: "audit_step sha ?r (race_start [e] tab) ?t"
    using audit_step.select [of 0 "race_start [e] tab" e sha ?r] by (simp add: race_start_def)
  have drop: "audit_step sha ?r (race_start [e] tab) \<lparr>ar_tasks = [T_Dropped e], ar_table = tab\<rparr>"
    using audit_step.select_fails [of 0 "race_start [e] tab" e sha ?r] by (simp add: race_start_def)
  have fail: "audit_step sha ?r ?t \<lparr>ar_tasks = [T_Dropped e], ar_table = burn_ids (burnt_ids flt) tab\<rparr>"
    using audit_step.insert_fails [of 0 ?t e _ sha ?r "burnt_ids flt"] by simp
  have store: "audit_step sha ?r ?t \<lparr>ar_tasks = [T_Stored e],
      ar_table = insert_row sha ?r (event_row sha e (link_of ?r e tab)) (burn_ids (burnt_ids flt) tab)\<rparr>"
    using audit_step.insert [of 0 ?t e _ sha ?r "burnt_ids flt"] by simp
  show ?thesis
  proof (cases "select_error flt")
    case (Some err)
    with drop show ?thesis by (simp add: alone_def pg_record_def)
  next
    case None
    with ask fail store show ?thesis
      by (cases "insert_error flt")
        (auto simp: alone_def pg_record_def Let_def intro: converse_rtranclp_into_rtranclp)
  qed
qed

section \<open>What every interleaving keeps\<close>

fun task_event :: "audit_task \<Rightarrow> audit_event" where
  "task_event (T_Spawned e) = e"
| "task_event (T_Linked e _) = e"
| "task_event (T_Stored e) = e"
| "task_event (T_Dropped e) = e"

fun is_stored :: "audit_task \<Rightarrow> bool" where
  "is_stored (T_Stored _) = True"
| "is_stored _ = False"

definition stored_events :: "audit_race \<Rightarrow> audit_event list" where
  "stored_events s = map task_event (filter is_stored (ar_tasks s))"

text \<open>What a row keeps of its event.\<close>

definition event_key :: "audit_event \<Rightarrow> int option \<times> str \<times> int \<times> json \<times> str" where
  "event_key e = (ev_actor_id e, action_str (ev_action e), perm_bit (ev_action e), detail_json e, ev_tenant e)"

definition row_key :: "audit_row \<Rightarrow> int option \<times> str \<times> int \<times> json \<times> str" where
  "row_key r = (row_actor r, row_action r, row_perm_bit r, row_detail r, row_tenant r)"

lemma row_key_event_row [simp]: "row_key (event_row sha e p\<lparr>row_id := n\<rparr>) = event_key e"
  by (simp add: row_key_def event_key_def event_row_def)

text \<open>
  What a task finds as its link when the rows \<open>mid\<close> were inserted since the race began on \<open>old\<close>; and
  that every new row carries its own hash and is linked to what was the tenant's last row at some
  moment between the start of the race and the row's own insertion.
\<close>

definition link_after :: "bool \<Rightarrow> audit_row list \<Rightarrow> audit_row list \<Rightarrow> str \<Rightarrow> str" where
  "link_after sel old mid t = (if sel then chain_tip (old @ mid) t else [])"

definition well_linked :: "(str \<Rightarrow> 8 word list) \<Rightarrow> bool \<Rightarrow> audit_row list \<Rightarrow> audit_row list \<Rightarrow> bool" where
  "well_linked sha sel old new \<longleftrightarrow> (\<forall>i<length new. row_hash (new ! i) = Some (audit_row_hash sha (new ! i)) \<and>
     (\<exists>k\<le>i. row_prev (new ! i) = Some (link_after sel old (take k new) (row_tenant (new ! i)))))"

lemma link_after_take:
  "(\<exists>k\<le>n. P (link_after sel old (take k (new @ [r])) t)) \<longleftrightarrow>
   (\<exists>k\<le>n. P (link_after sel old (take k new) t))" if "n \<le> length new"
proof -
  have "take k (new @ [r]) = take k new" if "k \<le> n" for k
    using that \<open>n \<le> length new\<close> by simp
  then show ?thesis by metis
qed

lemma well_linked_snoc:
  "well_linked sha sel old (new @ [r]) \<longleftrightarrow> well_linked sha sel old new \<and>
     row_hash r = Some (audit_row_hash sha r) \<and>
     (\<exists>k\<le>length new. row_prev r = Some (link_after sel old (take k new) (row_tenant r)))"
proof -
  have "(\<exists>k\<le>i. row_prev ((new @ [r]) ! i) = Some (link_after sel old (take k (new @ [r])) (row_tenant ((new @ [r]) ! i)))) \<longleftrightarrow>
      (\<exists>k\<le>i. row_prev ((new @ [r]) ! i) = Some (link_after sel old (take k new) (row_tenant ((new @ [r]) ! i))))"
    if "i \<le> length new" for i
    using that by (rule link_after_take)
  then have "well_linked sha sel old (new @ [r]) \<longleftrightarrow> (\<forall>i\<le>length new.
      row_hash ((new @ [r]) ! i) = Some (audit_row_hash sha ((new @ [r]) ! i)) \<and>
      (\<exists>k\<le>i. row_prev ((new @ [r]) ! i) = Some (link_after sel old (take k new) (row_tenant ((new @ [r]) ! i)))))"
    by (auto simp del: take_append simp: well_linked_def less_Suc_eq_le)
  then show ?thesis
    by (simp add: well_linked_def le_less all_conj_distrib nth_append less_Suc_eq_le imp_disjL cong: imp_cong)
qed

lemma well_linked_verify:
  "audit_verify_chain sha old = [] \<Longrightarrow> well_linked sha sel old new \<Longrightarrow> audit_verify_chain sha (old @ new) = []"
  by (auto simp: verify_empty_iff well_linked_def in_set_conv_nth)

text \<open>The links the waiting tasks hold.\<close>

definition links_ok :: "bool \<Rightarrow> audit_row list \<Rightarrow> audit_row list \<Rightarrow> audit_task list \<Rightarrow> bool" where
  "links_ok sel old new ts \<longleftrightarrow> (\<forall>e p. T_Linked e p \<in> set ts \<longrightarrow>
     (\<exists>k\<le>length new. p = link_after sel old (take k new) (ev_tenant e)))"

lemma links_ok_snoc: "links_ok sel old new ts \<Longrightarrow> links_ok sel old (new @ [r]) ts"
  unfolding links_ok_def
proof (intro allI impI)
  fix e p
  assume "\<forall>e p. T_Linked e p \<in> set ts \<longrightarrow> (\<exists>k\<le>length new. p = link_after sel old (take k new) (ev_tenant e))"
    and "T_Linked e p \<in> set ts"
  then have "\<exists>k\<le>length new. p = link_after sel old (take k new) (ev_tenant e)" by blast
  then have "\<exists>k\<le>length new. p = link_after sel old (take k (new @ [r])) (ev_tenant e)"
    by (simp only: link_after_take [OF order.refl, where P = "\<lambda>h. p = h"])
  then show "\<exists>k\<le>length (new @ [r]). p = link_after sel old (take k (new @ [r])) (ev_tenant e)"
    by (metis le_SucI length_append_singleton)
qed

definition race_inv ::
  "(str \<Rightarrow> 8 word list) \<Rightarrow> bool \<Rightarrow> audit_table \<Rightarrow> audit_row list \<Rightarrow> audit_race \<Rightarrow> bool" where
  "race_inv sha sel tab new s \<longleftrightarrow> rows (ar_table s) = rows tab @ new \<and> ids_ascend (ar_table s) \<and>
     mset (map row_key new) = mset (map event_key (stored_events s)) \<and>
     well_linked sha sel (rows tab) new \<and> links_ok sel (rows tab) new (ar_tasks s)"

lemma race_inv_start: "ids_ascend tab \<Longrightarrow> race_inv sha sel tab [] (race_start es tab)"
  by (auto simp: race_inv_def race_start_def stored_events_def filter_map comp_def well_linked_def links_ok_def)

lemma stored_update:
  assumes "i < length ts" and "\<not> is_stored (ts ! i)"
  shows "mset (map f (filter is_stored (ts[i := t]))) =
     mset (map f (filter is_stored ts)) + (if is_stored t then {#f t#} else {#})"
proof -
  have "mset (ts[i := t]) = add_mset t (mset ts - {#ts ! i#})" by (rule mset_update [OF assms(1)])
  moreover have "ts ! i \<in># mset ts" using assms(1) by simp
  ultimately have "filter_mset is_stored (mset (ts[i := t])) =
      filter_mset is_stored (mset ts) + (if is_stored t then {#t#} else {#})"
    using assms(2) by (auto simp: multiset_eq_iff)
  then show ?thesis by simp
qed

lemma linked_update:
  "T_Linked e p \<in> set (ts[i := t]) \<Longrightarrow> T_Linked e p \<in> set ts \<or> t = T_Linked e p"
  using set_update_subset_insert [of ts i t] by auto

lemma links_ok_update:
  "links_ok sel old new ts \<Longrightarrow> (\<And>e p. t = T_Linked e p \<Longrightarrow> \<exists>k\<le>length new. p = link_after sel old (take k new) (ev_tenant e)) \<Longrightarrow>
   links_ok sel old new (ts[i := t])"
  unfolding links_ok_def by (blast dest: linked_update)

lemma ids_ascend_burn: "ids_ascend tab \<Longrightarrow> ids_ascend (burn_ids n tab)"
  by (auto simp: ids_ascend_def sorted_wrt_append)

lemma ids_ascend_insert: "ids_ascend tab \<Longrightarrow> ids_ascend (insert_row sha sel (event_row sha e p) tab)"
  by (auto simp: ids_ascend_def inserted_event_row sorted_wrt_append)

lemma race_inv_step:
  assumes "audit_step sha sel s s'" and inv: "race_inv sha sel tab new s"
  shows "\<exists>new'. race_inv sha sel tab new' s'"
  using assms(1)
proof (cases rule: audit_step.cases)
  case (select i e)
  have "link_of sel e (ar_table s) = link_after sel (rows tab) (take (length new) new) (ev_tenant e)"
    using inv by (simp add: link_of_tip link_after_def race_inv_def)
  then have "links_ok sel (rows tab) new ((ar_tasks s)[i := T_Linked e (link_of sel e (ar_table s))])"
    using inv by (intro links_ok_update) (auto simp: race_inv_def)
  with inv select stored_update [of i "ar_tasks s" "event_key \<circ> task_event" "T_Linked e (link_of sel e (ar_table s))"]
  show ?thesis by (intro exI [of _ new]) (simp add: race_inv_def stored_events_def)
next
  case (insert i e p n)
  let ?r = "event_row sha e p\<lparr>row_id := next_id (ar_table s) + n\<rparr>"
  have "\<exists>k\<le>length new. p = link_after sel (rows tab) (take k new) (ev_tenant e)"
    using inv insert nth_mem [of i "ar_tasks s"] by (auto simp: race_inv_def links_ok_def)
  then have "well_linked sha sel (rows tab) (new @ [?r])"
    using inv by (auto simp: well_linked_snoc event_row_hash_agrees race_inv_def)
  moreover have "links_ok sel (rows tab) (new @ [?r]) ((ar_tasks s)[i := T_Stored e])"
    using inv by (intro links_ok_update links_ok_snoc) (simp_all add: race_inv_def)
  moreover have "mset (map row_key (new @ [?r])) = mset (map event_key (stored_events s'))"
    using inv insert stored_update [of i "ar_tasks s" "event_key \<circ> task_event" "T_Stored e"]
    by (simp add: race_inv_def stored_events_def)
  ultimately show ?thesis using inv insert
    by (intro exI [of _ "new @ [?r]"])
      (simp add: race_inv_def inserted_event_row ids_ascend_insert ids_ascend_burn)
next
  case (select_fails i e)
  have "links_ok sel (rows tab) new ((ar_tasks s)[i := T_Dropped e])"
    using inv by (intro links_ok_update) (simp_all add: race_inv_def)
  with inv select_fails stored_update [of i "ar_tasks s" "event_key \<circ> task_event" "T_Dropped e"]
  show ?thesis by (intro exI [of _ new]) (simp add: race_inv_def stored_events_def)
next
  case (insert_fails i e p n)
  have "links_ok sel (rows tab) new ((ar_tasks s)[i := T_Dropped e])"
    using inv by (intro links_ok_update) (simp_all add: race_inv_def)
  with inv insert_fails stored_update [of i "ar_tasks s" "event_key \<circ> task_event" "T_Dropped e"]
  show ?thesis by (intro exI [of _ new]) (simp add: race_inv_def stored_events_def ids_ascend_burn)
qed

lemma race_inv_reached:
  assumes "(audit_step sha sel)\<^sup>*\<^sup>* (race_start es tab) s" and "ids_ascend tab"
  shows "\<exists>new. race_inv sha sel tab new s"
  using assms(1)
proof (induction rule: rtranclp_induct)
  case base
  then show ?case using race_inv_start [OF assms(2)] by blast
next
  case (step s s')
  then show ?case using race_inv_step by blast
qed


section \<open>Every race ends\<close>

fun steps_left :: "audit_task \<Rightarrow> nat" where
  "steps_left (T_Spawned _) = 2"
| "steps_left (T_Linked _ _) = 1"
| "steps_left _ = 0"

definition work_left :: "audit_race \<Rightarrow> nat" where
  "work_left s = sum_list (map steps_left (ar_tasks s))"

lemma sum_list_update_less:
  "i < length ts \<Longrightarrow> f t < f (ts ! i) \<Longrightarrow> sum_list (map f (ts[i := t])) < (sum_list (map f ts) :: nat)"
  by (induction ts arbitrary: i) (auto split: nat.splits)

lemma step_works: "audit_step sha ms s s' \<Longrightarrow> work_left s' < work_left s"
  by (cases rule: audit_step.cases) (auto simp: work_left_def intro!: sum_list_update_less)

lemma sum_map_zero: "sum_list (map f ts) = (0 :: nat) \<longleftrightarrow> (\<forall>t\<in>set ts. f t = 0)"
  by (induction ts) auto

lemma work_enables:
  assumes "0 < work_left s"
  shows "\<exists>s'. audit_step sha ms s s'"
proof -
  have "sum_list (map steps_left (ar_tasks s)) \<noteq> 0" using assms unfolding work_left_def by blast
  then obtain t where "t \<in> set (ar_tasks s)" "0 < steps_left t" unfolding sum_map_zero by blast
  then obtain i where i: "i < length (ar_tasks s)" "0 < steps_left (ar_tasks s ! i)"
    unfolding in_set_conv_nth by blast
  then show ?thesis
    by (cases "ar_tasks s ! i") (auto intro: audit_step.select audit_step.insert)
qed

section \<open>Forks\<close>

text \<open>Both tasks ask before either inserts.\<close>

lemma fork_run:
  "(audit_step sha True)\<^sup>*\<^sup>* (race_start [e, f] empty_table)
     \<lparr>ar_tasks = [T_Stored e, T_Stored f],
      ar_table = insert_row sha True (event_row sha f []) (insert_row sha True (event_row sha e []) empty_table)\<rparr>"
proof -
  have none: "link_of True g empty_table = []" for g
    by (simp add: link_of_tip chain_tip_def)
  let ?s0 = "race_start [e, f] empty_table"
  let ?s1 = "\<lparr>ar_tasks = [T_Linked e [], T_Spawned f], ar_table = empty_table\<rparr>"
  let ?s2 = "\<lparr>ar_tasks = [T_Linked e [], T_Linked f []], ar_table = empty_table\<rparr>"
  let ?s3 = "\<lparr>ar_tasks = [T_Stored e, T_Linked f []], ar_table = insert_row sha True (event_row sha e []) empty_table\<rparr>"
  have "audit_step sha True ?s0 ?s1"
    using audit_step.select [of 0 ?s0 e sha True] by (simp add: race_start_def none)
  moreover have "audit_step sha True ?s1 ?s2"
    using audit_step.select [of 1 ?s1 f sha True] by (simp add: none)
  moreover have "audit_step sha True ?s2 ?s3"
    using audit_step.insert [of 0 ?s2 e "[]" sha True 0] by simp
  moreover have "audit_step sha True ?s3 \<lparr>ar_tasks = [T_Stored e, T_Stored f],
      ar_table = insert_row sha True (event_row sha f []) (insert_row sha True (event_row sha e []) empty_table)\<rparr>"
    using audit_step.insert [of 1 ?s3 f "[]" sha True 0] by simp
  ultimately show ?thesis by (meson converse_rtranclp_into_rtranclp rtranclp.rtrancl_refl)
qed

text \<open>
  Two records of one tenant written at the same time can fork the chain: both rows are stored and
  both are linked to none, so the second is not linked to the first, and verification reports nothing.
\<close>

theorem audit_chain_forks:
  assumes "ev_tenant e = ev_tenant f" and "\<And>p. sha p \<noteq> []"
  shows "\<exists>s. (audit_step sha True)\<^sup>*\<^sup>* (race_start [e, f] empty_table) s \<and> stored_events s = [e, f] \<and>
     map row_prev (rows (ar_table s)) = [Some [], Some []] \<and> \<not> chain_ok sha (rows (ar_table s)) \<and>
     audit_verify_chain sha (rows (ar_table s)) = []"
proof -
  let ?tab = "insert_row sha True (event_row sha f []) (insert_row sha True (event_row sha e []) empty_table)"
  let ?s = "\<lparr>ar_tasks = [T_Stored e, T_Stored f], ar_table = ?tab\<rparr>"
  have rows: "rows ?tab = [event_row sha e []\<lparr>row_id := 1\<rparr>, event_row sha f []\<lparr>row_id := 2\<rparr>]"
    by (simp add: inserted_event_row) (simp add: insert_row_def empty_table_def)
  have "audit_verify_chain sha (rows ?tab) = []"
    unfolding verify_empty_iff rows by (simp add: event_row_hash_agrees)
  moreover have "\<not> chain_ok sha (rows ?tab)"
  proof
    assume "chain_ok sha (rows ?tab)"
    then have "event_row_hash sha e [] = []"
      using assms(1) unfolding rows chain_ok_def
      by (simp add: advance_tip_def event_row_hash_agrees)
    then show False using assms(2) by (simp add: event_row_hash_def hash_nonempty)
  qed
  ultimately show ?thesis using fork_run [of sha e f]
    by (intro exI [of _ ?s]) (simp add: stored_events_def rows)
qed

theorem audit_chain_forks_witness:
  "let sha = (\<lambda>p. [of_nat (length p)] :: 8 word list);
       e = audit_event_new 0 (principal_all ''t'' ''u'') A_Commit True JNull
   in \<exists>s. (audit_step sha True)\<^sup>*\<^sup>* (race_start [e, e] empty_table) s \<and> \<not> chain_ok sha (rows (ar_table s)) \<and>
        audit_verify_chain sha (rows (ar_table s)) = []"
  unfolding Let_def using audit_chain_forks [OF refl, of "\<lambda>p. [of_nat (length p)]"
      "audit_event_new 0 (principal_all ''t'' ''u'') A_Commit True JNull"] by blast


end
