(* ===== verification/Startup.thy ===== *)
theory Startup
  imports Admin
begin

text \<open>
  The Core's own binary (crates/core/src/main.rs) and the two ways its server is put together
  (crates/core/src/server.rs).  The listener of tonic and the accept loop of the admin port are not
  modelled: serving is what is handed to them.
\<close>

section \<open>The server\<close>

text \<open>
  What is running once a server was started: the admin listener with its console, and the service
  behind the gRPC address, unless that address did not parse.
\<close>

record 'w running =
  rn_admin_addr :: str
  rn_console :: "'w agent_state \<Rightarrow> admin_console"
  rn_service :: "str + 'w agent_server"

text \<open>\<open>parses\<close>: what \<open>SocketAddr::from_str\<close> makes of an address.  It is asked after the admin listener
  was spawned.\<close>

definition serve_stack :: "(str \<Rightarrow> bool) \<Rightarrow> str \<Rightarrow> 'w agent_server \<Rightarrow> str + 'w agent_server" where
  "serve_stack parses addr sv = (if parses addr then Inr sv else Inl ''invalid socket address syntax'')"

definition serve_core :: "(str \<Rightarrow> bool) \<Rightarrow> 'w agent_lib \<Rightarrow> 'w host_provider \<Rightarrow> str \<Rightarrow> 'w running" where
  "serve_core parses L host addr = (let sv = default_stack L host in
     \<lparr>rn_admin_addr = cf_admin_addr core_config_default, rn_console = server_console sv,
      rn_service = serve_stack parses addr sv\<rparr>)"

definition serve_configured ::
  "(str \<Rightarrow> bool) \<Rightarrow> 'w agent_lib \<Rightarrow> 'w agent_http \<Rightarrow> (str \<Rightarrow> str \<Rightarrow> str + (audit_event \<Rightarrow> ('w, str, unit) eff)) \<Rightarrow>
   'w host_provider \<Rightarrow> str \<Rightarrow> core_config \<Rightarrow> 'w running" where
  "serve_configured parses L H connect host addr cfg = (let sv = from_config L H connect host cfg in
     \<lparr>rn_admin_addr = cf_admin_addr cfg, rn_console = server_console sv, rn_service = serve_stack parses addr sv\<rparr>)"

section \<open>The binary\<close>

datatype core_command = Core_Demo str | Core_Serve str

definition trace_line :: "nat \<times> step \<Rightarrow> str" where
  "trace_line = (\<lambda>(i, s). ''  ['' @ show_nat i @ ''] thought='' @ st_thought s @ '' action='' @ st_action s @
     '' obs='' @ st_observation s)"

definition trace_lines :: "run_trace \<Rightarrow> str list" where
  "trace_lines tr = ''== Trace =='' # map trace_line (enumerate 0 (steps tr)) @
     [''== Final: '' @ final_answer tr @ '' ==='']"

definition core_demo :: "(docs \<Rightarrow> int) \<Rightarrow> str \<Rightarrow> (str + unit) \<times> str list" where
  "core_demo clk goal =
     (let intro = ''== Running ReAct loop for goal: '' @ goal @ '' ==='' in
      case planner_run (planner_with_defaults cli_host 8 clk) goal (world0 (\<lambda>_. None)) of
        (Inl e, _) \<Rightarrow> (Inl e, [intro])
      | (Inr tr, _) \<Rightarrow> (Inr (), intro # trace_lines tr))"

definition core_main ::
  "(str \<Rightarrow> bool) \<Rightarrow> (docs \<Rightarrow> int) \<Rightarrow> docs agent_lib \<Rightarrow> core_command \<Rightarrow> (str + unit) \<times> str list + docs running" where
  "core_main parses clk L cmd = (case cmd of
     Core_Demo goal \<Rightarrow> Inl (core_demo clk goal)
   | Core_Serve addr \<Rightarrow> Inr (serve_core parses L cli_host addr))"

section \<open>Text around a separator\<close>

lemma contains_sep:
  assumes "c \<notin> set p"
  shows "contains_str (xs @ c # ys) p \<longleftrightarrow> contains_str xs p \<or> contains_str ys p"
proof
  assume "contains_str (xs @ c # ys) p"
  then obtain u v where eq: "xs @ c # ys = u @ p @ v" unfolding contains_str_iff by blast
  then consider w where "xs = u @ w" "w @ c # ys = p @ v" | w where "u = xs @ c # w" "ys = w @ p @ v" | "u = xs" "c # ys = p @ v"
    by (auto simp: append_eq_append_conv2 Cons_eq_append_conv)
  then show "contains_str xs p \<or> contains_str ys p"
  proof cases
    case (1 w)
    from 1(2) assms have "\<exists>z. w = p @ z" by (auto simp: append_eq_append_conv2 Cons_eq_append_conv)
    then show ?thesis using 1(1) unfolding contains_str_iff by auto
  next
    case (2 w)
    then show ?thesis unfolding contains_str_iff by auto
  next
    case 3
    with assms have "p = []" by (cases p) auto
    then show ?thesis by simp
  qed
next
  have "contains_str (a @ zs @ b) p" if "contains_str zs p" for a b zs
    using that unfolding contains_str_iff by (metis append_assoc)
  from this [of xs "[]" "c # ys"] this [of ys "xs @ [c]" "[]"]
  show "contains_str xs p \<or> contains_str ys p \<Longrightarrow> contains_str (xs @ c # ys) p" by auto
qed

lemma contains_absent: "a \<in> set p \<Longrightarrow> a \<notin> set s \<Longrightarrow> \<not> contains_str s p"
  unfolding contains_str_iff by auto

lemma show_nat_chars: "c \<in> set (show_nat n) \<Longrightarrow> is_digit c"
  using show_nat_digits [of n] by (auto simp: list_all_iff)

section \<open>What the demo prints\<close>

text \<open>The window of the demo after \<open>k\<close> inspections, and the text the model is shown then.\<close>

definition demo_window :: "str \<Rightarrow> nat \<Rightarrow> str list" where
  "demo_window goal k = (''goal: '' @ goal) # replicate k ''inspected current_state''"

definition inspect_thought :: "str \<Rightarrow> str" where
  "inspect_thought n = ''Inspecting context to progress toward goal. (ctx len='' @ n @ '')''"

lemma no_D_in_digits: "CHR ''D'' \<notin> set (show_nat n)" "CHR ''z'' \<notin> set (show_nat n)"
proof -
  have "\<not> is_digit (CHR ''D'')" "\<not> is_digit (CHR ''z'')" by code_simp+
  then show "CHR ''D'' \<notin> set (show_nat n)" "CHR ''z'' \<notin> set (show_nat n)"
    using show_nat_chars by blast+
qed

lemma one_digit: "n < 10 \<Longrightarrow> show_nat n = [char_of (48 + n)]"
  by (subst show_nat.simps) simp

lemma no_D_in_inspections: "CHR ''D'' \<notin> set (snapshot_from i (replicate k ''inspected current_state''))"
  by (induction k arbitrary: i) (auto simp: no_D_in_digits)

lemma goal_in_window:
  "contains_str (snapshot_from 0 (demo_window goal k)) ''DONE'' \<longleftrightarrow> contains_str goal ''DONE''"
proof -
  have show0: "show_nat 0 = ''0''" by code_simp
  have "snapshot_from 0 (demo_window goal k) = ''[0] goal:'' @ CHR '' '' # goal @ CHR 0x0A #
      snapshot_from 1 (replicate k ''inspected current_state'')" (is "_ = _ @ _ # goal @ _ # ?rest")
    using show0 by (simp add: demo_window_def)
  moreover have "\<not> contains_str ''[0] goal:'' ''DONE''" "\<not> contains_str ?rest ''DONE''"
    by (rule contains_absent [of "CHR ''D''"]; simp add: no_D_in_inspections)+
  ultimately show ?thesis using contains_sep [of "CHR '' ''" "''DONE''" "''[0] goal:''" "goal @ CHR 0x0A # ?rest"]
      contains_sep [of "CHR 0x0A" "''DONE''" goal ?rest] by simp
qed

lemma length_inspections: "i + k \<le> 10 \<Longrightarrow>
    length (snapshot_from i (replicate k ''inspected current_state'')) = 28 * k"
  by (induction k arbitrary: i) (auto simp: one_digit)

lemma length_window: "k < 9 \<Longrightarrow> length (snapshot_from 0 (demo_window goal k)) = length goal + 11 + 28 * k"
  by (simp add: demo_window_def length_inspections one_digit)

lemma plan_of_thought:
  "mock_plan_action ''Goal satisfied; finalizing.'' = \<lparr>plan_tool = ''finish'', plan_argument = []\<rparr>"
  "mock_plan_action (inspect_thought (show_nat n)) = \<lparr>plan_tool = ''inspect'', plan_argument = ''current_state''\<rparr>"
proof -
  show "mock_plan_action ''Goal satisfied; finalizing.'' = \<lparr>plan_tool = ''finish'', plan_argument = []\<rparr>"
    by code_simp
  have "\<not> contains_str (inspect_thought (show_nat n)) ''finalizing''"
    by (rule contains_absent [of "CHR ''z''"]) (simp_all add: inspect_thought_def no_D_in_digits)
  then show "mock_plan_action (inspect_thought (show_nat n)) =
      \<lparr>plan_tool = ''inspect'', plan_argument = ''current_state''\<rparr>" by (simp add: mock_plan_action_def)
qed

definition demo_loop :: "(docs \<Rightarrow> int) \<Rightarrow> nat \<Rightarrow> nat \<Rightarrow> context_manager \<Rightarrow> step list \<Rightarrow> (docs, str, run_trace) run" where
  "demo_loop clk = react_loop (planner_with_defaults cli_host 8 clk) (prepare_window (planner_with_defaults cli_host 8 clk))"

definition finish_step :: step where
  "finish_step = \<lparr>st_thought = ''Goal satisfied; finalizing.'', st_action = ''finish'', st_observation = ''task finished''\<rparr>"

definition inspect_step :: "nat \<Rightarrow> nat \<Rightarrow> step" where
  "inspect_step n k = \<lparr>st_thought = inspect_thought (show_nat (n + 11 + 28 * k)), st_action = ''inspect'',
     st_observation = ''inspected current_state''\<rparr>"

lemma free_tools: "action_permission ''finish'' = None" "action_permission ''inspect'' = None"
  by code_simp+

lemmas demo_loop_defs = demo_loop_def planner_with_defaults_def planner_new_def mock_llm_def prepare_window_def
  react_step_def think_and_plan_def act_def authorize_and_record_def edit_if_modify_def bridge_emit_event_def
  external_def basic_run_def basic_observation_def basic_validate_def snapshot_def free_tools eff_simps

lemma demo_finishes:
  assumes "window cm = demo_window goal k" and "contains_str goal ''DONE''"
  shows "\<exists>v. demo_loop clk (Suc n) i cm sts w = (Inr \<lparr>steps = sts @ [finish_step], final_answer = ''task finished''\<rparr>, v)"
  using assms(2)
  by (auto simp: demo_loop_defs assms(1) mock_think_def goal_in_window plan_of_thought finish_step_def split: prod.splits)

lemma demo_inspects:
  assumes "window cm = demo_window goal k" "k < 8" and "\<not> contains_str goal ''DONE''"
  shows "\<exists>v. demo_loop clk (Suc n) k cm sts w =
    (if k = 7 then (Inr \<lparr>steps = sts @ [inspect_step (length goal) k], final_answer = ''budget exhausted''\<rparr>, v)
     else demo_loop clk n (k + 1) (cm_push ''inspected current_state'' cm) (sts @ [inspect_step (length goal) k]) v)"
proof -
  have "mock_think (snapshot_from 0 (window cm)) = inspect_thought (show_nat (length goal + 11 + 28 * k))"
    using assms by (simp add: mock_think_def goal_in_window length_window inspect_thought_def)
  then show ?thesis using assms(2)
    by (auto simp: demo_loop_defs plan_of_thought inspect_step_def split: prod.splits)
qed

lemma demo_runs_out:
  assumes "\<not> contains_str goal ''DONE''" "window cm = demo_window goal k" "max_items cm = 16" "k < 8"
  shows "\<exists>v. demo_loop clk (8 - k) k cm sts w = (Inr \<lparr>steps = sts @ map (inspect_step (length goal)) [k..<8],
    final_answer = ''budget exhausted''\<rparr>, v)"
  using assms(2-4)
proof (induction "8 - k" arbitrary: k cm sts w)
  case (Suc n)
  from Suc.hyps(2) have left: "8 - k = Suc (7 - k)" by simp
  note one = demo_inspects [OF Suc.prems(1) Suc.prems(3) assms(1), of clk "7 - k" sts w]
  show ?case
  proof (cases "k = 7")
    case True
    with one show ?thesis by (simp add: left)
  next
    case False
    have "window (cm_push ''inspected current_state'' cm) = demo_window goal (k + 1)"
      using Suc.prems by (simp add: cm_push_def demo_window_def replicate_append_same [symmetric])
    moreover have "max_items (cm_push ''inspected current_state'' cm) = 16" using Suc.prems(2) by simp
    ultimately have "\<exists>v. demo_loop clk (8 - (k + 1)) (k + 1) (cm_push ''inspected current_state'' cm)
        (sts @ [inspect_step (length goal) k]) u =
      (Inr \<lparr>steps = (sts @ [inspect_step (length goal) k]) @ map (inspect_step (length goal)) [k + 1..<8],
        final_answer = ''budget exhausted''\<rparr>, v)" for u
      using Suc.hyps False Suc.prems(3) by (intro Suc.hyps(1)) auto
    then show ?thesis using one False Suc.prems(3) by (auto simp: left upt_conv_Cons [of k 8])
  qed
qed simp

text \<open>
  What \<open>ide-core demo\<close> prints, for every goal.  The mock model finishes on the goal marker DONE, and
  nothing the demo's tools observe contains the marker: a goal that has it ends at the first step, every
  other goal makes the same inspection eight times, its context growing by one line of 28 bytes each
  time, and ends with the budget exhausted.  Either way the run returns without an error.
\<close>

theorem demo_outcome:
  "core_demo clk goal = (Inr (), (''== Running ReAct loop for goal: '' @ goal @ '' ==='') # ''== Trace =='' #
     (if contains_str goal ''DONE''
      then [trace_line (0, finish_step), ''== Final: task finished ==='']
      else map (\<lambda>k. trace_line (k, inspect_step (length goal) k)) [0..<8] @
        [''== Final: budget exhausted ==='']))"
proof -
  define cm where "cm = cm_push (''goal: '' @ goal) (cm_new 16)"
  have cm: "window cm = demo_window goal 0" "max_items cm = 16"
    by (simp_all add: cm_def cm_push_def cm_new_def demo_window_def)
  have go: "planner_run (planner_with_defaults cli_host 8 clk) goal = demo_loop clk 8 0 cm []"
    by (simp add: planner_run_def demo_loop_def cm_def planner_with_defaults_def planner_new_def)
  have trace: "enumerate 0 (map f [0..<8]) = map (\<lambda>k. (k, f k)) [0..<8]" for f :: "nat \<Rightarrow> step"
    by (simp add: enumerate_eq_zip upt_rec)
  show ?thesis
    using demo_finishes [OF cm(1), of clk 7 0 "[]" "world0 (\<lambda>_. None)"]
      demo_runs_out [OF _ cm, of clk "[]" "world0 (\<lambda>_. None)"]
    by (auto simp: core_demo_def go trace_lines_def trace split: if_splits)
qed

end
