(* ===== verification/Float32.thy ===== *)
theory Float32
  imports Prelude Complex_Main
begin

text \<open>
  The 32-bit floats of the embedding: the finite values, as rationals, with the rounding of IEEE 754
  written out (to nearest, ties to even, 24 bits of significand, least exponent -149).  A value of
  magnitude 2 ^ 128 or more, which the hardware makes infinite, is kept here as it is; the theory
  Embedding shows that its values stay far below.  The sign of a zero is not kept: the code only
  compares zeros, and the comparison does not see it.
\<close>

section \<open>Logarithm and square root\<close>

fun nlog :: "nat \<Rightarrow> nat" where
  "nlog n = (if n < 2 then 0 else nlog (n div 2) + 1)"

declare nlog.simps [simp del]

fun isqrt :: "nat \<Rightarrow> nat" where
  "isqrt n = (if n = 0 then 0 else let s = 2 * isqrt (n div 4) in if (s + 1)\<^sup>2 \<le> n then s + 1 else s)"

declare isqrt.simps [simp del]

lemma nlog_bounds: "0 < n \<Longrightarrow> 2 ^ nlog n \<le> n \<and> n < 2 ^ (nlog n + 1)"
proof (induction n rule: nlog.induct)
  case (1 n)
  show ?case
  proof (cases "n < 2")
    case True
    then show ?thesis using 1(2) by (subst (1 2) nlog.simps) auto
  next
    case False
    then have "nlog n = nlog (n div 2) + 1" by (subst nlog.simps) simp
    with 1(1) False show ?thesis by auto
  qed
qed

lemma isqrt_bounds: "(isqrt n)\<^sup>2 \<le> n \<and> n < (isqrt n + 1)\<^sup>2"
proof (induction n rule: isqrt.induct)
  case (1 n)
  show ?case
  proof (cases "n = 0")
    case True
    then show ?thesis by (simp add: isqrt.simps)
  next
    case False
    define r where "r = isqrt (n div 4)"
    from 1 False have r: "r\<^sup>2 \<le> n div 4" "n div 4 < (r + 1)\<^sup>2" by (auto simp: r_def)
    have "(2 * r)\<^sup>2 = 4 * r\<^sup>2" "(2 * r + 2)\<^sup>2 = 4 * (r + 1)\<^sup>2" by (simp_all add: power2_eq_square algebra_simps)
    with r have "(2 * r)\<^sup>2 \<le> n" "n < (2 * r + 2)\<^sup>2" by linarith+
    moreover have "isqrt n = (if (2 * r + 1)\<^sup>2 \<le> n then 2 * r + 1 else 2 * r)"
      using False by (subst isqrt.simps) (simp add: r_def)
    ultimately show ?thesis by simp
  qed
qed

definition ilog :: "rat \<Rightarrow> int" where
  "ilog x = (if 1 \<le> x then int (nlog (nat \<lfloor>x\<rfloor>)) else - int (nlog (nat (\<lceil>1 / x\<rceil> - 1))) - 1)"

abbreviation two :: "int \<Rightarrow> rat" where
  "two e \<equiv> 2 powi e"

lemma two_add: "two (a + b) = two a * two b"
  by (simp add: power_int_add)

lemma two_pos: "0 < two e"
  by simp

lemma two_mono: "a \<le> b \<Longrightarrow> two a \<le> two b"
  by (rule power_int_increasing) simp_all

lemma two_less_iff [simp]: "two a < two b \<longleftrightarrow> a < b"
  by (metis linorder_not_less one_less_numeral_iff power_int_strict_increasing semiring_norm(76) two_mono)

lemma nlog_rat:
  assumes "0 < n"
  shows "(2::rat) ^ nlog n \<le> of_nat n" and "of_nat n + 1 \<le> (2::rat) * 2 ^ nlog n"
proof -
  from nlog_bounds [OF assms] have "2 ^ nlog n \<le> n" "n + 1 \<le> 2 * 2 ^ nlog n" by simp_all
  then have "(of_nat (2 ^ nlog n) :: rat) \<le> of_nat n" "(of_nat (n + 1) :: rat) \<le> of_nat (2 * 2 ^ nlog n)"
    by (simp_all only: of_nat_le_iff)
  then show "(2::rat) ^ nlog n \<le> of_nat n" "of_nat n + 1 \<le> (2::rat) * 2 ^ nlog n"
    by (simp_all add: add.commute)
qed

lemma ilog_bounds: "0 < x \<Longrightarrow> two (ilog x) \<le> x \<and> x < two (ilog x + 1)"
proof (cases "1 \<le> x")
  case True
  define n where "n = nat \<lfloor>x\<rfloor>"
  from True have n: "0 < n" "of_nat n \<le> x" "x < of_nat n + 1"
    by (auto simp: n_def) linarith+
  from nlog_rat [OF n(1)] n(2,3) have "2 ^ nlog n \<le> x" "x < 2 * 2 ^ nlog n" by linarith+
  with True show ?thesis by (simp add: ilog_def n_def [symmetric] power_int_add)
next
  case False
  assume x: "0 < x"
  define n where "n = nat (\<lceil>1 / x\<rceil> - 1)"
  from False x have "1 < 1 / x" by simp
  then have n: "0 < n" "of_nat n < 1 / x" "1 / x \<le> of_nat n + 1"
    by (auto simp: n_def) linarith+
  have "two (int (nlog n)) < 1 / x" "1 / x \<le> two (int (nlog n) + 1)"
    unfolding two_add power_int_of_nat using nlog_rat [OF n(1)] n(2,3) by (simp_all, linarith+)
  then have "x < two (- int (nlog n))" "two (- (int (nlog n) + 1)) \<le> x"
    unfolding power_int_minus using x by (simp_all add: field_simps)
  then show ?thesis using False by (simp add: ilog_def n_def [symmetric])
qed

lemma ilog_le: "0 < x \<Longrightarrow> x < two (e + 1) \<Longrightarrow> ilog x \<le> e"
  using ilog_bounds [of x] two_less_iff [of "ilog x" "e + 1"] by linarith

lemma ilog_ge: "two e \<le> x \<Longrightarrow> e \<le> ilog x"
  using ilog_bounds [of x] two_less_iff [of e "ilog x + 1"] two_pos [of e] by linarith

lemma ilog_mono: "0 < x \<Longrightarrow> x \<le> y \<Longrightarrow> ilog x \<le> ilog y"
  using ilog_bounds [of x] by (intro ilog_ge) linarith

section \<open>Rounding\<close>

definition rnd_int :: "rat \<Rightarrow> int" where
  "rnd_int x = (let n = \<lfloor>x\<rfloor>; r = x - of_int n in
     if r < 1/2 then n else if 1/2 < r then n + 1 else if even n then n else n + 1)"

definition grid :: "int \<Rightarrow> rat \<Rightarrow> rat" where
  "grid q x = of_int (rnd_int (x / two q)) * two q"

definition f32_exp :: "rat \<Rightarrow> int" where
  "f32_exp x = max (ilog x - 23) (- 149)"

definition f32_round :: "rat \<Rightarrow> rat" where
  "f32_round x = (if x = 0 then 0 else if x < 0 then - grid (f32_exp (- x)) (- x) else grid (f32_exp x) x)"

definition fadd :: "rat \<Rightarrow> rat \<Rightarrow> rat" where
  "fadd x y = f32_round (x + y)"

definition fmul :: "rat \<Rightarrow> rat \<Rightarrow> rat" where
  "fmul x y = f32_round (x * y)"

text \<open>Division by zero is infinite in the code: the callers show that they do not divide by it.\<close>

definition fdiv :: "rat \<Rightarrow> rat \<Rightarrow> rat" where
  "fdiv x y = f32_round (x / y)"

text \<open>
  The correctly rounded square root, of a number that is not negative: the integer root of the operand in
  units of the result's last place, then the neighbour the root is closer to.
\<close>

definition f32_sqrt :: "rat \<Rightarrow> rat" where
  "f32_sqrt x = (if x \<le> 0 then 0
     else let q = ilog x div 2 - 23; y = x / two (2 * q); s = int (isqrt (nat \<lfloor>y\<rfloor>)); m = (of_int s + 1/2)\<^sup>2
       in of_int (if y < m then s else if m < y then s + 1 else if even s then s else s + 1) * two q)"

lemma rnd_int_of_int [simp]: "rnd_int (of_int n) = n"
  by (simp add: rnd_int_def)

lemma rnd_int_near: "\<lfloor>x\<rfloor> \<le> rnd_int x \<and> rnd_int x \<le> \<lfloor>x\<rfloor> + 1"
  by (simp add: rnd_int_def Let_def)

lemma rnd_int_mono: "x \<le> y \<Longrightarrow> rnd_int x \<le> rnd_int y"
proof -
  assume le: "x \<le> y"
  show ?thesis
  proof (cases "\<lfloor>x\<rfloor> = \<lfloor>y\<rfloor>")
    case True
    with le show ?thesis by (simp add: rnd_int_def Let_def)
  next
    case False
    with floor_mono [OF le] rnd_int_near [of x] rnd_int_near [of y] show ?thesis by linarith
  qed
qed

definition on_grid :: "int \<Rightarrow> rat \<Rightarrow> bool" where
  "on_grid q c \<longleftrightarrow> (\<exists>n. c = of_int n * two q)"

lemma on_gridE:
  assumes "on_grid q c"
  obtains n where "c = of_int n * two q" "c / two q = of_int n"
  using assms unfolding on_grid_def by auto

lemma grid_on_grid [simp]: "on_grid q (grid q x)"
  by (auto simp: on_grid_def grid_def)

lemma grid_id: "on_grid q c \<Longrightarrow> grid q c = c"
  by (elim on_gridE) (simp add: grid_def)

lemma grid_mono: "x \<le> y \<Longrightarrow> grid q x \<le> grid q y"
  unfolding grid_def using two_pos [of q]
  by (intro mult_right_mono) (auto intro!: rnd_int_mono divide_right_mono simp: of_int_le_iff)

lemma on_grid_mono: "on_grid q c \<Longrightarrow> p \<le> q \<Longrightarrow> on_grid p c"
proof (elim on_gridE)
  fix n assume c: "c = of_int n * two q" and le: "p \<le> q"
  have "two q = of_int (2 ^ nat (q - p)) * two p"
    using le two_add [of "q - p" p] by (simp add: power_int_nonneg_exp)
  with c have "c = of_int (n * 2 ^ nat (q - p)) * two p" by simp
  then show "on_grid p c" unfolding on_grid_def by blast
qed

lemma on_grid_two: "q \<le> e \<Longrightarrow> on_grid q (two e)"
  using on_grid_mono [of e "two e" q] by (auto simp: on_grid_def intro: exI [of _ 1])

section \<open>The rounding as an order\<close>

text \<open>The floats that are not negative.\<close>

definition is_f32 :: "rat \<Rightarrow> bool" where
  "is_f32 c \<longleftrightarrow> c = 0 \<or> 0 < c \<and> on_grid (f32_exp c) c"

lemma f32_exp_mono: "0 < x \<Longrightarrow> x \<le> y \<Longrightarrow> f32_exp x \<le> f32_exp y"
  using ilog_mono [of x y] by (simp add: f32_exp_def)

lemma round_zero [simp]: "f32_round 0 = 0"
  by (simp add: f32_round_def)

lemma round_pos: "0 < x \<Longrightarrow> f32_round x = grid (f32_exp x) x"
  by (simp add: f32_round_def)

lemma round_le: "0 \<le> x \<Longrightarrow> x \<le> c \<Longrightarrow> is_f32 c \<Longrightarrow> f32_round x \<le> c"
proof (cases "x = 0")
  case False
  assume "0 \<le> x" "x \<le> c" "is_f32 c"
  with False have x: "0 < x" "x \<le> c" "on_grid (f32_exp c) c" by (auto simp: is_f32_def)
  from grid_mono [OF x(2), of "f32_exp x"] grid_id [OF on_grid_mono [OF x(3) f32_exp_mono [OF x(1,2)]]] x(1)
  show ?thesis by (simp add: round_pos)
qed simp

lemma grid_ge: "on_grid q c \<Longrightarrow> c \<le> x \<Longrightarrow> c \<le> grid q x"
  using grid_mono [of c x q] by (simp add: grid_id)

lemma round_binade:
  assumes "0 < x" "- 149 < f32_exp x"
  shows "two (ilog x) \<le> f32_round x"
  using assms ilog_bounds [of x] unfolding round_pos [OF assms(1)]
  by (intro grid_ge on_grid_two) (auto simp: f32_exp_def)

lemma round_ge: "c \<le> x \<Longrightarrow> is_f32 c \<Longrightarrow> 0 \<le> x \<Longrightarrow> c \<le> f32_round x"
proof (cases "c = 0")
  case True
  assume "0 \<le> x"
  moreover have "0 \<le> grid (f32_exp x) x" if "0 < x" using that
    by (intro grid_ge) (auto simp: on_grid_def intro: exI [of _ 0])
  ultimately show ?thesis using True by (cases "x = 0") (simp_all add: round_pos)
next
  case False
  assume "c \<le> x" "is_f32 c" "0 \<le> x"
  with False have c: "0 < c" "c \<le> x" "on_grid (f32_exp c) c" "0 < x" by (auto simp: is_f32_def)
  show ?thesis
  proof (cases "f32_exp c = f32_exp x")
    case True
    with c show ?thesis by (simp add: round_pos grid_ge)
  next
    case False
    with f32_exp_mono [OF c(1,2)] have less: "f32_exp c < f32_exp x" by simp
    then have "ilog c + 1 \<le> ilog x" "- 149 < f32_exp x" by (auto simp: f32_exp_def)
    with two_mono [of "ilog c + 1" "ilog x"] ilog_bounds [OF c(1)] round_binade [OF c(4)] show ?thesis by linarith
  qed
qed

lemma is_f32_scaled:
  assumes "m \<le> 2 ^ 24" and "- 149 \<le> k"
  shows "is_f32 (of_nat m * two k)"
proof (cases "m = 0")
  case False
  then have pos: "0 < of_nat m * two k" by simp
  show ?thesis
  proof (cases "m = 2 ^ 24")
    case True
    then have c: "of_nat m * two k = two (24 + k)" by (simp add: two_add)
    have "ilog (two (24 + k)) \<le> 24 + k" by (rule ilog_le) simp_all
    with assms(2) have "on_grid (f32_exp (two (24 + k))) (two (24 + k))"
      by (intro on_grid_two) (simp add: f32_exp_def)
    then show ?thesis unfolding c by (simp add: is_f32_def)
  next
    case False
    with assms(1) have "of_nat m < (of_nat (2 ^ 24) :: rat)" by (simp only: of_nat_less_iff)
    then have "of_nat m * two k < two (23 + k + 1)"
      using two_add [of 24 k] by (simp add: algebra_simps)
    then have "f32_exp (of_nat m * two k) \<le> k" using ilog_le [OF pos] assms(2) by (fastforce simp: f32_exp_def)
    moreover have "on_grid k (of_nat m * two k)" unfolding on_grid_def by (intro exI [of _ "int m"]) simp
    ultimately show ?thesis using pos on_grid_mono by (simp add: is_f32_def)
  qed
qed (simp add: is_f32_def)

lemma is_f32_two: "- 149 \<le> e \<Longrightarrow> is_f32 (two e)"
  using is_f32_scaled [of 1 e] by simp

lemma is_f32_nat: "n \<le> 2 ^ 24 \<Longrightarrow> is_f32 (of_nat n)"
  using is_f32_scaled [of n 0] by simp

lemma round_nonneg: "0 \<le> x \<Longrightarrow> 0 \<le> f32_round x"
  using round_ge [of 0 x] by (simp add: is_f32_def)

lemma round_mono: "0 \<le> x \<Longrightarrow> x \<le> y \<Longrightarrow> f32_round x \<le> f32_round y"
proof -
  assume xy: "0 \<le> x" "x \<le> y"
  consider "x = 0" | "0 < x" "f32_exp x = f32_exp y" | "0 < x" "f32_exp x < f32_exp y"
    using xy f32_exp_mono [of x y] by fastforce
  then show ?thesis
  proof cases
    case 1
    then show ?thesis using xy round_nonneg by simp
  next
    case 2
    then show ?thesis using xy grid_mono by (simp add: round_pos)
  next
    case 3
    then have e: "- 149 < f32_exp y" "ilog x + 1 \<le> ilog y" by (auto simp: f32_exp_def)
    with 3 xy have "f32_round x \<le> two (ilog y)"
      using ilog_bounds [of x] two_mono [of "ilog x + 1" "ilog y"]
      by (intro round_le is_f32_two) (auto simp: f32_exp_def)
    also have "\<dots> \<le> f32_round y" using e 3 xy by (intro round_binade) simp_all
    finally show ?thesis .
  qed
qed

lemma round_id: "is_f32 c \<Longrightarrow> f32_round c = c"
  by (auto simp: is_f32_def round_pos grid_id)

lemma round_least: "0 \<le> x \<Longrightarrow> f32_round x \<noteq> 0 \<Longrightarrow> two (- 149) \<le> f32_round x"
proof -
  assume x: "0 \<le> x" "f32_round x \<noteq> 0"
  then have "0 < x" by (cases "x = 0") simp_all
  then obtain n where r: "f32_round x = of_int n * two (f32_exp x)"
    using grid_on_grid [of "f32_exp x" x] unfolding round_pos [OF \<open>0 < x\<close>] on_grid_def by blast
  with round_nonneg [OF x(1)] x(2) have "0 < of_int n * two (f32_exp x)" by linarith
  then have "0 < (of_int n :: rat)" by (rule zero_less_mult_pos2) simp
  then have "1 \<le> (of_int n :: rat)" by simp
  moreover have "two (- 149) \<le> two (f32_exp x)" by (rule two_mono) (simp add: f32_exp_def)
  ultimately show ?thesis unfolding r using mult_mono [of 1 "of_int n" "two (- 149)" "two (f32_exp x)"] by simp
qed

lemma round_tiny: "two (- 150) < x \<Longrightarrow> two (- 149) \<le> f32_round x"
proof (cases "two (- 149) \<le> x")
  case True
  then show ?thesis using two_pos [of "- 149"] by (intro round_ge is_f32_two) linarith+
next
  case False
  assume "two (- 150) < x"
  moreover have half: "two (- 150) = 1/2 * two (- 149)" using two_add [of "- 1" "- 149"] by simp
  moreover define z where "z = x / two (- 149)"
  ultimately have z: "1/2 < z" "z < 1" using False by (simp_all add: field_simps)
  have x: "0 < x" using \<open>two (- 150) < x\<close> two_pos [of "- 150"] by linarith
  then have "f32_exp x = - 149" using ilog_le [OF x, of "- 150"] False by (simp add: f32_exp_def)
  moreover have "rnd_int z = 1" using z floor_unique [of 0 z] by (simp add: rnd_int_def)
  ultimately show ?thesis by (simp only: round_pos [OF x] grid_def z_def [symmetric])
qed

section \<open>The square root as an order\<close>

definition sqrt_exp :: "rat \<Rightarrow> int" where
  "sqrt_exp x = ilog x div 2 - 23"

lemma two_double: "two (2 * e) = (two e)\<^sup>2"
  by (metis mult.commute power_int_power' of_nat_numeral)

lemma sqrt_scale: "0 < x \<Longrightarrow> (two (sqrt_exp x + 23))\<^sup>2 \<le> x"
proof -
  assume "0 < x"
  moreover have "two (2 * (ilog x div 2)) \<le> two (ilog x)" by (rule two_mono) simp
  ultimately show ?thesis using ilog_bounds [of x] by (simp add: two_double [symmetric] sqrt_exp_def)
qed

lemma sqrt_unit:
  assumes "0 < x"
  obtains n where "f32_sqrt x = of_int n * two (sqrt_exp x)"
    and "\<And>k. 0 \<le> k \<Longrightarrow> (of_int k * two (sqrt_exp x))\<^sup>2 \<le> x \<Longrightarrow> k \<le> n"
    and "\<And>k. 0 \<le> k \<Longrightarrow> x \<le> (of_int k * two (sqrt_exp x))\<^sup>2 \<Longrightarrow> n \<le> k"
proof -
  define q y s m where "q = sqrt_exp x" and "y = x / two (2 * q)" and "s = int (isqrt (nat \<lfloor>y\<rfloor>))"
    and "m = (of_int s + 1/2 :: rat)\<^sup>2"
  define n where "n = (if y < m then s else if m < y then s + 1 else if even s then s else s + 1)"
  have val: "f32_sqrt x = of_int n * two q"
    using assms by (simp add: f32_sqrt_def n_def m_def s_def y_def q_def sqrt_exp_def Let_def)
  have "0 < y" using assms by (simp add: y_def)
  have sq: "s\<^sup>2 \<le> \<lfloor>y\<rfloor>" "\<lfloor>y\<rfloor> < (s + 1)\<^sup>2" "0 \<le> s"
    using isqrt_bounds [of "nat \<lfloor>y\<rfloor>"] \<open>0 < y\<close> unfolding s_def
    by (auto simp: le_nat_iff nat_less_iff add.commute)
  have y: "x = y * (two q)\<^sup>2" by (simp add: y_def two_double)
  have le: "(of_int k * two q)\<^sup>2 \<le> x \<longleftrightarrow> k\<^sup>2 \<le> \<lfloor>y\<rfloor>" for k
    unfolding y power_mult_distrib by (simp add: le_floor_iff)
  have ge: "x \<le> (of_int k * two q)\<^sup>2 \<longleftrightarrow> y \<le> of_int (k\<^sup>2)" for k
    unfolding y power_mult_distrib by simp
  have lower: "k \<le> n" if "0 \<le> k" "(of_int k * two q)\<^sup>2 \<le> x" for k
  proof -
    from that(2) sq(2) have "k\<^sup>2 < (s + 1)\<^sup>2" unfolding le by linarith
    with sq(3) have "k < s + 1" by (rule_tac power2_less_imp_less) simp_all
    then show ?thesis by (simp add: n_def)
  qed
  have upper: "n \<le> k" if "0 \<le> k" "x \<le> (of_int k * two q)\<^sup>2" for k
  proof -
    from that(2) have y_le: "y \<le> of_int (k\<^sup>2)" unfolding ge .
    then have "\<lfloor>y\<rfloor> \<le> k\<^sup>2" by linarith
    with sq(1) have "s\<^sup>2 \<le> k\<^sup>2" by (rule order_trans)
    then have "s \<le> k" using that(1) by (rule power2_le_imp_le)
    moreover have "m = of_int (s\<^sup>2) + of_int s + 1/4" unfolding m_def power2_sum by (simp add: power2_eq_square)
    then have "y < m" if "s = k"
      using y_le sq(3) of_int_0_le_iff [of s, where ?'a = rat] unfolding that by linarith
    ultimately show ?thesis by (cases "s = k") (simp_all add: n_def)
  qed
  show ?thesis by (rule that [OF val [unfolded q_def] lower [unfolded q_def] upper [unfolded q_def]])
qed

lemma f32_cases:
  assumes "c = of_nat m * two k" "m \<le> 2 ^ 24"
  shows "on_grid q c \<or> c \<le> two (q + 23)"
proof (cases "q \<le> k")
  case True
  moreover have "on_grid k c" unfolding on_grid_def assms(1) by (intro exI [of _ "int m"]) simp
  ultimately show ?thesis using on_grid_mono by blast
next
  case False
  have "(of_nat m :: rat) \<le> of_nat (2 ^ 24)" using assms(2) by (simp only: of_nat_le_iff)
  then have "c \<le> two (24 + k)" unfolding assms(1) two_add by simp
  also have "\<dots> \<le> two (q + 23)" using False by (intro two_mono) simp
  finally show ?thesis ..
qed

lemma sqrt_ge:
  assumes c: "c = of_nat m * two k" "m \<le> 2 ^ 24" and le: "c\<^sup>2 \<le> x" and x: "0 < x"
  shows "c \<le> f32_sqrt x"
proof -
  have grid: "d \<le> f32_sqrt x" if "on_grid (sqrt_exp x) d" "0 \<le> d" "d\<^sup>2 \<le> x" for d
  proof -
    from that(1) obtain n where n: "d = of_int n * two (sqrt_exp x)" "d / two (sqrt_exp x) = of_int n"
      by (rule on_gridE)
    from sqrt_unit [OF x] obtain r where r: "f32_sqrt x = of_int r * two (sqrt_exp x)"
      "\<And>k. 0 \<le> k \<Longrightarrow> (of_int k * two (sqrt_exp x))\<^sup>2 \<le> x \<Longrightarrow> k \<le> r" by metis
    have "0 \<le> n" using that(2) unfolding of_int_0_le_iff [of n, symmetric, where ?'a = rat] n(2) [symmetric] by simp
    with r(2) [of n] that(3) have "n \<le> r" by (simp add: n(1))
    then show ?thesis by (simp add: n(1) r(1))
  qed
  from f32_cases [OF c, of "sqrt_exp x"] show ?thesis
  proof
    assume "on_grid (sqrt_exp x) c"
    then show ?thesis using le by (intro grid) (simp_all add: c(1))
  next
    assume "c \<le> two (sqrt_exp x + 23)"
    also have "\<dots> \<le> f32_sqrt x" by (intro grid on_grid_two sqrt_scale x) simp_all
    finally show ?thesis .
  qed
qed

lemma sqrt_le:
  assumes x: "0 < x" "x \<le> (two e)\<^sup>2"
  shows "f32_sqrt x \<le> two e"
proof -
  from sqrt_unit [OF x(1)] obtain r where r: "f32_sqrt x = of_int r * two (sqrt_exp x)"
    "\<And>k. 0 \<le> k \<Longrightarrow> x \<le> (of_int k * two (sqrt_exp x))\<^sup>2 \<Longrightarrow> r \<le> k" by metis
  have "two (ilog x) \<le> two (2 * e)" using ilog_bounds [OF x(1)] x(2) by (simp add: two_double)
  then have "ilog x \<le> 2 * e" using two_less_iff [of "2 * e" "ilog x"] by linarith
  then have "sqrt_exp x \<le> e" by (simp add: sqrt_exp_def)
  from on_grid_two [OF this] obtain n where n: "two e = of_int n * two (sqrt_exp x)" by (rule on_gridE)
  have "0 < of_int n * two (sqrt_exp x)" unfolding n [symmetric] by simp
  then have "0 < (of_int n :: rat)" by (rule zero_less_mult_pos2) simp
  with r(2) [of n] x(2) have "r \<le> n" by (simp add: n)
  then show ?thesis by (simp add: n r(1))
qed

lemma sqrt_nonneg: "0 \<le> f32_sqrt x"
  using sqrt_ge [of 0 0 0 x] by (cases "0 < x") (simp_all add: f32_sqrt_def)

end
