(* ===== verification/Embedding.thy ===== *)
theory Embedding
  imports Ckg Float32
begin

text \<open>
  The placeholder embedding of crates/core/src/context_manager.rs and its cosine similarity, over the
  rounded floats of Float32, and the ranking of the theory Ckg with both in place.
\<close>

section \<open>The embedding\<close>

definition embed_dim :: nat where
  "embed_dim = 1536"

text \<open>The number of a character, from the bytes of its UTF-8 encoding.\<close>

definition code_point :: "str \<Rightarrow> nat" where
  "code_point c = (case map (of_char :: char \<Rightarrow> nat) c of
     [a] \<Rightarrow> a
   | [a, b] \<Rightarrow> a mod 32 * 64 + b mod 64
   | [a, b, c] \<Rightarrow> (a mod 16 * 64 + b mod 64) * 64 + c mod 64
   | [a, b, c, d] \<Rightarrow> ((a mod 8 * 64 + b mod 64) * 64 + c mod 64) * 64 + d mod 64
   | _ \<Rightarrow> 0)"

definition bucket :: "nat \<Rightarrow> str \<Rightarrow> nat" where
  "bucket i ch = (code_point ch * 31 + i) mod embed_dim"

definition bump :: "nat \<Rightarrow> rat list \<Rightarrow> rat list" where
  "bump i v = v[i := fadd (v ! i) 1]"

definition hash_counts :: "str \<Rightarrow> rat list" where
  "hash_counts t = fold (\<lambda>(i, ch). bump (bucket i ch)) (enumerate 0 (chars t)) (replicate embed_dim 0)"

definition f32_sum :: "rat list \<Rightarrow> rat" where
  "f32_sum xs = foldl fadd 0 xs"

definition l2_norm :: "rat list \<Rightarrow> rat" where
  "l2_norm v = f32_sqrt (f32_sum (map (\<lambda>x. fmul x x) v))"

definition embed_text :: "str \<Rightarrow> rat list" where
  "embed_text t = (let v = hash_counts t; norm = l2_norm v in
     if 0 < norm then map (\<lambda>x. fdiv x norm) v else v)"

definition cosine_similarity :: "rat list \<Rightarrow> rat list \<Rightarrow> rat" where
  "cosine_similarity a b = (let dot = f32_sum (map (\<lambda>(x, y). fmul x y) (zip a b)); na = l2_norm a; nb = l2_norm b in
     if na = 0 \<or> nb = 0 then 0 else fdiv dot (fmul na nb))"

section \<open>Sums of what is not negative\<close>

lemma fadd_nonneg: "0 \<le> x \<Longrightarrow> 0 \<le> y \<Longrightarrow> 0 \<le> fadd x y"
  by (simp add: fadd_def round_nonneg)

lemma fmul_nonneg: "0 \<le> x \<Longrightarrow> 0 \<le> y \<Longrightarrow> 0 \<le> fmul x y"
  by (simp add: fmul_def round_nonneg)

lemma fmul_square_nonneg: "0 \<le> fmul x x"
  by (simp add: fmul_def round_nonneg)

lemma f32_sum_Nil [simp]: "f32_sum [] = 0"
  by (simp add: f32_sum_def)

lemma f32_sum_snoc [simp]: "f32_sum (xs @ [x]) = fadd (f32_sum xs) x"
  by (simp add: f32_sum_def)

lemma f32_sum_zeros: "f32_sum (replicate n 0) = 0"
proof (induction n)
  case (Suc n)
  have "replicate (Suc n) 0 = replicate n (0::rat) @ [0]" by (simp add: replicate_append_same)
  with Suc show ?case by (simp only: f32_sum_snoc) (simp add: fadd_def)
qed simp

lemma f32_sum_nonneg: "(\<And>x. x \<in> set xs \<Longrightarrow> 0 \<le> x) \<Longrightarrow> 0 \<le> f32_sum xs"
  by (induction xs rule: rev_induct) (auto intro: fadd_nonneg)

lemma f32_sum_ge:
  assumes "is_f32 c" "x \<in> set xs" "c \<le> x"
  shows "(\<And>y. y \<in> set xs \<Longrightarrow> 0 \<le> y) \<Longrightarrow> c \<le> f32_sum xs"
  using assms(2)
proof (induction xs rule: rev_induct)
  case (snoc y xs)
  have pos: "0 \<le> y" "0 \<le> f32_sum xs" using snoc.prems(1) by (auto intro: f32_sum_nonneg)
  have "c \<le> y \<or> c \<le> f32_sum xs" using snoc assms(3) by auto
  with pos show ?case by (auto simp: fadd_def intro!: round_ge assms(1))
qed simp

lemma f32_sum_le:
  assumes "- 149 \<le> e"
  shows "(\<And>x. x \<in> set xs \<Longrightarrow> 0 \<le> x \<and> x \<le> two e) \<Longrightarrow> length xs \<le> 2 ^ 24 \<Longrightarrow>
    f32_sum xs \<le> of_nat (length xs) * two e"
proof (induction xs rule: rev_induct)
  case (snoc x xs)
  have "f32_sum xs \<le> of_nat (length xs) * two e" "0 \<le> f32_sum xs"
    using snoc by (auto intro: f32_sum_nonneg)
  moreover have "0 \<le> x" "x \<le> two e" using snoc.prems(1) by auto
  ultimately show ?case
    unfolding f32_sum_snoc fadd_def using snoc.prems(2) assms
    by (intro round_le is_f32_scaled) (simp_all add: algebra_simps)
qed simp

lemma fmul_le: "0 \<le> x \<Longrightarrow> 0 \<le> y \<Longrightarrow> x \<le> two a \<Longrightarrow> y \<le> two b \<Longrightarrow> - 149 \<le> a + b \<Longrightarrow> fmul x y \<le> two (a + b)"
  unfolding fmul_def by (intro round_le is_f32_two) (simp_all add: two_add mult_mono)

lemma fmul_ge:
  assumes "two a \<le> x" "two b \<le> y" "- 149 \<le> a + b"
  shows "two (a + b) \<le> fmul x y"
proof -
  have pos: "0 \<le> two a" "0 \<le> two b" by simp_all
  with assms have "two a * two b \<le> x * y" by (intro mult_mono) linarith+
  then show ?thesis
    unfolding fmul_def using assms(3) pos by (intro round_ge is_f32_two) (simp_all add: two_add order_trans [rotated])
qed

text \<open>What the norm of a vector lies between.\<close>

lemma l2_norm_ge:
  assumes "x \<in> set v" "two e \<le> x" "- 74 \<le> e"
  shows "two e \<le> l2_norm v"
proof -
  let ?S = "f32_sum (map (\<lambda>x. fmul x x) v)"
  have sq: "two (e + e) \<le> fmul x x" using assms by (intro fmul_ge) simp_all
  have le: "two (e + e) \<le> ?S"
  proof (rule f32_sum_ge [OF is_f32_two _ sq])
    show "- 149 \<le> e + e" using assms(3) by simp
    show "fmul x x \<in> set (map (\<lambda>x. fmul x x) v)" using assms(1) by simp
  qed (auto simp: fmul_square_nonneg)
  have pos: "0 < ?S" using two_pos [of "e + e"] le by linarith
  have "(two e)\<^sup>2 \<le> ?S" using le by (simp only: two_add power2_eq_square)
  then show ?thesis
    unfolding l2_norm_def using pos by (intro sqrt_ge [where m = 1 and k = e]) simp_all
qed

lemma l2_norm_le:
  assumes "\<And>x. x \<in> set v \<Longrightarrow> 0 \<le> x \<and> x \<le> two e" "length v \<le> 2 ^ 12" "- 74 \<le> e"
  shows "l2_norm v \<le> two (e + 6)"
proof -
  let ?S = "f32_sum (map (\<lambda>x. fmul x x) v)"
  have "?S \<le> of_nat (length (map (\<lambda>x. fmul x x) v)) * two (e + e)"
  proof (rule f32_sum_le)
    show "- 149 \<le> e + e" "length (map (\<lambda>x. fmul x x) v) \<le> 2 ^ 24" using assms(2,3) by simp_all
    show "0 \<le> y \<and> y \<le> two (e + e)" if "y \<in> set (map (\<lambda>x. fmul x x) v)" for y
      using that assms(1) fmul_le [OF _ _ _ _ \<open>- 149 \<le> e + e\<close>] by (auto simp: fmul_square_nonneg)
  qed
  also have "\<dots> \<le> of_nat (2 ^ 12) * two (e + e)"
    using assms(2) by (intro mult_right_mono) (simp_all only: of_nat_le_iff length_map, simp)
  also have "\<dots> = (two (e + 6))\<^sup>2" unfolding power2_eq_square two_add by simp
  finally have le: "?S \<le> (two (e + 6))\<^sup>2" .
  show ?thesis
  proof (cases "0 < ?S")
    case True
    then show ?thesis unfolding l2_norm_def by (rule sqrt_le [OF _ le])
  qed (simp add: l2_norm_def f32_sqrt_def)
qed

lemma l2_norm_nonneg: "0 \<le> l2_norm v"
  by (simp add: l2_norm_def sqrt_nonneg)

section \<open>The counts\<close>

text \<open>Which bucket is hit, and how often; a count stops at 2 ^ 24, where adding one rounds back.\<close>

definition hits :: "nat \<Rightarrow> (nat \<times> str) list \<Rightarrow> nat" where
  "hits j xs = length (filter (\<lambda>(i, ch). bucket i ch = j) xs)"

definition hits_bucket :: "str \<Rightarrow> nat \<Rightarrow> bool" where
  "hits_bucket t j = list_ex (\<lambda>(i, ch). bucket i ch = j) (enumerate 0 (chars t))"

lemma hits_pos: "0 < hits j (enumerate 0 (chars t)) \<longleftrightarrow> hits_bucket t j"
  by (auto simp: hits_def hits_bucket_def list_ex_iff filter_empty_conv)

lemma bucket_less: "bucket i ch < embed_dim"
  by (simp add: bucket_def embed_dim_def)

lemma count_saturates: "fadd (of_nat (2 ^ 24)) 1 = of_nat (2 ^ 24)"
proof -
  have "ilog 16777217 = 24" using ilog_le [of 16777217 24] ilog_ge [of 24 16777217] by simp
  moreover have "\<lfloor>16777217 / 2 :: rat\<rfloor> = 8388608" by (rule floor_unique) simp_all
  ultimately show ?thesis by (simp add: fadd_def round_pos grid_def f32_exp_def rnd_int_def)
qed

lemma count_step: "fadd (of_nat (min n (2 ^ 24))) 1 = of_nat (min (n + 1) (2 ^ 24))"
proof (cases "n < 2 ^ 24")
  case True
  then have "is_f32 (of_nat (n + 1))" by (intro is_f32_nat) simp
  from round_id [OF this] True show ?thesis by (simp add: fadd_def add.commute)
next
  case False
  then show ?thesis using count_saturates by simp
qed

lemma fold_bump:
  "length (fold (\<lambda>(i, ch). bump (bucket i ch)) xs (replicate embed_dim 0)) = embed_dim \<and>
   (\<forall>j < embed_dim. fold (\<lambda>(i, ch). bump (bucket i ch)) xs (replicate embed_dim 0) ! j = of_nat (min (hits j xs) (2 ^ 24)))"
proof (induction xs rule: rev_induct)
  case (snoc x xs)
  obtain i ch where x: "x = (i, ch)" by force
  from snoc bucket_less [of i ch] count_step [of "hits (bucket i ch) xs"] show ?case
    by (auto simp: x bump_def hits_def nth_list_update)
qed (simp add: hits_def)

lemma length_hash_counts [simp]: "length (hash_counts t) = embed_dim"
  using fold_bump by (simp add: hash_counts_def)

lemma nth_hash_counts:
  "j < embed_dim \<Longrightarrow> hash_counts t ! j = of_nat (min (hits j (enumerate 0 (chars t))) (2 ^ 24))"
  using fold_bump by (simp add: hash_counts_def)

lemma hits_le: "hits j (enumerate 0 (chars t)) \<le> length (chars t)"
  unfolding hits_def by (rule order_trans [OF length_filter_le]) simp

lemma hash_countsE:
  assumes "x \<in> set (hash_counts t)"
  obtains n where "x = of_nat n" "n \<le> 2 ^ 24" "n \<le> length (chars t)"
proof -
  from assms obtain j where "j < embed_dim" "x = hash_counts t ! j" by (auto simp: in_set_conv_nth)
  then show ?thesis using that [of "min (hits j (enumerate 0 (chars t))) (2 ^ 24)"] hits_le [of j t]
    by (simp add: nth_hash_counts min.coboundedI1)
qed

section \<open>The entries\<close>

lemma count_range: "x \<in> set (hash_counts t) \<Longrightarrow> 0 \<le> x \<and> x \<le> two 24"
proof -
  assume "x \<in> set (hash_counts t)"
  then obtain n where n: "x = of_nat n" "n \<le> 2 ^ 24" by (rule hash_countsE)
  then have "x \<le> of_nat (2 ^ 24)" by (simp only: of_nat_le_iff)
  with n(1) show ?thesis by simp
qed

lemma count_zero_or_pos: "x \<in> set (hash_counts t) \<Longrightarrow> x = 0 \<or> 1 \<le> x"
proof (erule hash_countsE)
  fix n assume "x = of_nat n"
  moreover have "(1::rat) \<le> of_nat n" if "0 < n" using of_nat_mono [of 1 n, where ?'a = rat] that by simp
  ultimately show "x = 0 \<or> 1 \<le> x" by (cases "n = 0") simp_all
qed

lemma count_norm_le: "l2_norm (hash_counts t) \<le> two 30"
  using l2_norm_le [of "hash_counts t" 24] count_range [of _ t] by (simp add: embed_dim_def)

lemma count_norm:
  assumes "x \<in> set (hash_counts t)" and "0 < x"
  shows "1 \<le> l2_norm (hash_counts t)" and "x \<le> 2 * l2_norm (hash_counts t)"
    and "length (chars t) \<le> 4096 \<Longrightarrow> x \<le> l2_norm (hash_counts t)"
proof -
  let ?v = "hash_counts t"
  from assms(1) obtain n where n: "x = of_nat n" "n \<le> length (chars t)" by (rule hash_countsE)
  with assms(2) have pos: "0 < n" by simp
  have near: "two (int (nlog n)) \<le> x" "x \<le> 2 * two (int (nlog n))"
    using nlog_rat [OF pos] by (simp_all add: n(1))
  from l2_norm_ge [OF assms(1) near(1)] have "two (int (nlog n)) \<le> l2_norm ?v" by simp
  with near(2) have "x \<le> 2 * l2_norm ?v" by linarith
  then show "x \<le> 2 * l2_norm ?v" .
  have "two 0 \<le> x" using count_zero_or_pos [OF assms(1)] assms(2) by auto
  from l2_norm_ge [OF assms(1) this] show "1 \<le> l2_norm ?v" by simp
  let ?S = "f32_sum (map (\<lambda>x. fmul x x) ?v)"
  assume "length (chars t) \<le> 4096"
  with n(2) have "n \<le> 4096" by simp
  then have small: "n * n \<le> 2 ^ 24" using mult_mono [of n 4096 n 4096] by simp
  have "fmul x x = of_nat (n * n)"
    using round_id [OF is_f32_nat [OF small]] by (simp add: fmul_def n(1))
  then have "of_nat (n * n) \<le> fmul x x" by simp
  then have "of_nat (n * n) \<le> ?S" using assms(1)
    by (intro f32_sum_ge [OF is_f32_nat [OF small], of "fmul x x"]) (auto simp: fmul_square_nonneg simp del: of_nat_mult)
  moreover have "0 < (of_nat (n * n) :: rat)" using pos by simp
  ultimately show "x \<le> l2_norm ?v"
    unfolding l2_norm_def using \<open>n \<le> 4096\<close>
    by (intro sqrt_ge [where m = n and k = 0]) (simp_all add: n(1) power2_eq_square)
qed

lemma fdiv_zero [simp]: "fdiv 0 y = 0"
  by (simp add: fdiv_def)

text \<open>What dividing a count by the norm gives.\<close>

lemma normalised_count:
  assumes "x \<in> set (hash_counts t)" and "0 < l2_norm (hash_counts t)"
  shows "0 \<le> fdiv x (l2_norm (hash_counts t))"
    and "fdiv x (l2_norm (hash_counts t)) \<le> (if length (chars t) \<le> 4096 then 1 else 2)"
    and "if x = 0 then fdiv x (l2_norm (hash_counts t)) = 0 else two (- 30) \<le> fdiv x (l2_norm (hash_counts t))"
proof -
  let ?n = "l2_norm (hash_counts t)"
  have x: "0 \<le> x" using count_range [OF assms(1)] by simp
  then show "0 \<le> fdiv x ?n" using assms(2) by (simp add: fdiv_def round_nonneg)
  consider "x = 0" | "1 \<le> x" using count_zero_or_pos [OF assms(1)] by blast
  then have "fdiv x ?n \<le> (if length (chars t) \<le> 4096 then 1 else 2) \<and>
    (if x = 0 then fdiv x ?n = 0 else two (- 30) \<le> fdiv x ?n)"
  proof cases
    case 2
    then have pos: "0 < x" by simp
    have "two (- 30) * ?n \<le> two (- 30) * two 30" using count_norm_le by (intro mult_left_mono) simp_all
    also have "\<dots> \<le> x" using 2 by (simp add: two_add [symmetric])
    finally have "two (- 30) \<le> x / ?n" using assms(2) by (simp add: pos_le_divide_eq)
    then have lo: "two (- 30) \<le> fdiv x ?n"
      unfolding fdiv_def using x assms(2) by (intro round_ge is_f32_two) simp_all
    have hi: "fdiv x ?n \<le> of_nat c" if "x \<le> of_nat c * ?n" "c \<le> 2" for c
      unfolding fdiv_def using that x assms(2)
      by (intro round_le is_f32_nat) (simp_all add: pos_divide_le_eq)
    show ?thesis using lo pos hi [of 1] hi [of 2] count_norm [OF assms(1) pos] by auto
  qed simp
  then show "fdiv x ?n \<le> (if length (chars t) \<le> 4096 then 1 else 2)"
    "if x = 0 then fdiv x ?n = 0 else two (- 30) \<le> fdiv x ?n" by blast+
qed

lemma hit_count:
  "j < embed_dim \<Longrightarrow> hits_bucket t j \<longleftrightarrow> hash_counts t ! j \<noteq> 0"
  using hits_pos [of j t] by (simp add: nth_hash_counts)

text \<open>Some bucket is hit by every character.\<close>

lemma some_hit: "t \<noteq> [] \<longleftrightarrow> list_ex (hits_bucket t) [0..<embed_dim]"
proof (cases "chars t")
  case (Cons c cs)
  then have "hits_bucket t (bucket 0 c)" by (simp add: hits_bucket_def)
  with bucket_less [of 0 c] Cons show ?thesis by (auto simp: list_ex_iff)
qed (simp add: hits_bucket_def list_ex_iff)

lemma norm_pos_iff: "0 < l2_norm (hash_counts t) \<longleftrightarrow> t \<noteq> []"
proof
  assume "0 < l2_norm (hash_counts t)"
  moreover have "hash_counts [] = replicate embed_dim 0" by (simp add: hash_counts_def)
  moreover note f32_sum_zeros
  ultimately show "t \<noteq> []" by (auto simp: l2_norm_def fmul_def f32_sqrt_def)
next
  assume "t \<noteq> []"
  then obtain j where j: "j < embed_dim" "hash_counts t ! j \<noteq> 0" by (auto simp: some_hit list_ex_iff hit_count)
  then have mem: "hash_counts t ! j \<in> set (hash_counts t)" by simp
  with j(2) have "0 < hash_counts t ! j" using count_zero_or_pos by fastforce
  from count_norm(1) [OF mem this] show "0 < l2_norm (hash_counts t)" by simp
qed

lemma length_embed [simp]: "length (embed_text t) = embed_dim"
  by (simp add: embed_text_def Let_def)

lemma hash_counts_empty: "hash_counts [] = replicate embed_dim 0"
  by (simp add: hash_counts_def)

text \<open>The entries: not negative, bounded, and nonzero exactly at the buckets that are hit.\<close>

lemma entry:
  assumes "j < embed_dim"
  shows "0 \<le> embed_text t ! j"
    and "embed_text t ! j \<le> (if length (chars t) \<le> 4096 then 1 else 2)"
    and "if hits_bucket t j then two (- 30) \<le> embed_text t ! j else embed_text t ! j = 0"
proof -
  have "0 \<le> embed_text t ! j \<and> embed_text t ! j \<le> (if length (chars t) \<le> 4096 then 1 else 2) \<and>
    (if hits_bucket t j then two (- 30) \<le> embed_text t ! j else embed_text t ! j = 0)"
  proof (cases "t = []")
    case True
    have "embed_text [] = replicate embed_dim 0"
      using norm_pos_iff [of "[]"] by (simp add: embed_text_def hash_counts_empty)
    then show ?thesis using assms by (simp add: True hits_bucket_def)
  next
    case False
    then have pos: "0 < l2_norm (hash_counts t)" by (simp add: norm_pos_iff)
    have mem: "hash_counts t ! j \<in> set (hash_counts t)" using assms by simp
    have "embed_text t ! j = fdiv (hash_counts t ! j) (l2_norm (hash_counts t))"
      using pos assms by (simp add: embed_text_def Let_def)
    with normalised_count [OF mem pos] assms show ?thesis by (auto simp: hit_count)
  qed
  then show "0 \<le> embed_text t ! j" "embed_text t ! j \<le> (if length (chars t) \<le> 4096 then 1 else 2)"
    "if hits_bucket t j then two (- 30) \<le> embed_text t ! j else embed_text t ! j = 0" by blast+
qed

lemma entry_hit: "j < embed_dim \<Longrightarrow> hits_bucket t j \<Longrightarrow> two (- 30) \<le> embed_text t ! j"
  using entry(3) [of j t] by presburger

lemma entry_miss: "j < embed_dim \<Longrightarrow> \<not> hits_bucket t j \<Longrightarrow> embed_text t ! j = 0"
  using entry(3) [of j t] by presburger

text \<open>
  C25: An embedding has 1536 entries, none negative, and an entry is positive exactly where some
  character of the text, with its position, hashes to: rounding never loses a bucket that was hit.  No
  entry passes 2, for a text of any length, nor 1 for one of at most 4096 characters, so the floats
  stay far from overflow.
\<close>

theorem embedding_entries:
  "length (embed_text t) = embed_dim \<and>
   list_all (\<lambda>x. 0 \<le> x \<and> x \<le> (if length (chars t) \<le> 4096 then 1 else 2)) (embed_text t) \<and>
   map (\<lambda>x. 0 < x) (embed_text t) = map (hits_bucket t) [0..<embed_dim]"
proof -
  have "0 < embed_text t ! j \<longleftrightarrow> hits_bucket t j" if "j < embed_dim" for j
    using entry(3) [OF that, of t] two_pos [of "- 30"] by (cases "hits_bucket t j") auto
  then have "map (\<lambda>x. 0 < x) (embed_text t) = map (hits_bucket t) [0..<embed_dim]"
    by (intro nth_equalityI) simp_all
  moreover have "list_all (\<lambda>x. 0 \<le> x \<and> x \<le> (if length (chars t) \<le> 4096 then 1 else 2)) (embed_text t)"
    unfolding list_all_length using entry(1,2) by simp
  ultimately show ?thesis by simp
qed

section \<open>The similarity\<close>

lemma cosine_commute: "cosine_similarity a b = cosine_similarity b a"
proof -
  have "map (\<lambda>(x, y). fmul x y) (zip a b) = map (\<lambda>(x, y). fmul x y) (zip b a)"
    by (rule nth_equalityI) (simp_all add: fmul_def mult.commute)
  then show ?thesis by (auto simp: cosine_similarity_def Let_def fmul_def mult.commute [of "l2_norm a"])
qed

text \<open>A norm that is not zero is above 2 ^ -75, so the product of two does not round to zero.\<close>

lemma least_square: "two (- 150) < (5 * two (- 77)) * (5 * two (- 77))"
  "(5 * two (- 77)) * (5 * two (- 77)) \<le> two (- 149)"
proof -
  have "(5 * two (- 77)) * (5 * two (- 77)) = 25 * (two (- 77) * two (- 77))" by simp
  also have "\<dots> = 25 * two (- 154)" by simp
  finally have "(5 * two (- 77)) * (5 * two (- 77)) = 25 * two (- 154)" .
  moreover have "two (- 150) = 16 * two (- 154)" "two (- 149) = 32 * two (- 154)"
    using two_add [of 4 "- 154"] two_add [of 5 "- 154"] by simp_all
  ultimately show "two (- 150) < (5 * two (- 77)) * (5 * two (- 77))"
    "(5 * two (- 77)) * (5 * two (- 77)) \<le> two (- 149)"
    using two_pos [of "- 154"] by linarith+
qed

lemma l2_norm_least: "l2_norm v = 0 \<or> 5 * two (- 77) \<le> l2_norm v"
proof -
  let ?S = "f32_sum (map (\<lambda>x. fmul x x) v)"
  have "?S = 0 \<or> two (- 149) \<le> ?S"
  proof (cases v rule: rev_cases)
    case (snoc w x)
    let ?y = "f32_sum (map (\<lambda>x. fmul x x) w) + fmul x x"
    have "0 \<le> ?y" by (intro add_nonneg_nonneg f32_sum_nonneg) (auto simp: fmul_square_nonneg)
    from round_least [OF this] show ?thesis by (auto simp: snoc fadd_def)
  qed simp
  moreover have "5 * two (- 77) \<le> f32_sqrt ?S" if "two (- 149) \<le> ?S"
  proof (rule sqrt_ge)
    show "5 * two (- 77) = of_nat 5 * two (- 77)" "5 \<le> (2::nat) ^ 24" by simp_all
    have "(5 * two (- 77))\<^sup>2 \<le> two (- 149)" using least_square by (simp only: power2_eq_square)
    with that show "(5 * two (- 77))\<^sup>2 \<le> ?S" by linarith
    show "0 < ?S" using that two_pos [of "- 149"] by linarith
  qed
  ultimately show ?thesis by (auto simp: l2_norm_def f32_sqrt_def)
qed

lemma norms_product: "l2_norm a \<noteq> 0 \<Longrightarrow> l2_norm b \<noteq> 0 \<Longrightarrow> 0 < fmul (l2_norm a) (l2_norm b)"
proof -
  assume "l2_norm a \<noteq> 0" "l2_norm b \<noteq> 0"
  then have "5 * two (- 77) \<le> l2_norm a" "5 * two (- 77) \<le> l2_norm b" using l2_norm_least by blast+
  then have "(5 * two (- 77)) * (5 * two (- 77)) \<le> l2_norm a * l2_norm b" by (intro mult_mono) (simp_all add: l2_norm_nonneg)
  with least_square(1) have "two (- 150) < l2_norm a * l2_norm b" by (rule less_le_trans)
  from round_tiny [OF this] show ?thesis using two_pos [of "- 149"] unfolding fmul_def by linarith
qed

text \<open>
  The similarity of any two vectors: its guard lets no division by zero through, since two norms
  that are not zero have a product that does not round to zero; it does not depend on the order of the two
  vectors; and it is 0 against a vector of zeros.
\<close>

theorem cosine_guarded:
  "(fmul (l2_norm a) (l2_norm b) = 0) = (l2_norm a = 0 \<or> l2_norm b = 0) \<and>
   cosine_similarity a b = cosine_similarity b a \<and>
   cosine_similarity a (replicate n 0) = 0"
proof -
  have "l2_norm (replicate n 0) = 0" by (simp add: f32_sum_zeros l2_norm_def fmul_def f32_sqrt_def)
  then have "cosine_similarity a (replicate n 0) = 0" by (simp add: cosine_similarity_def Let_def)
  moreover have "fmul (l2_norm a) (l2_norm b) = 0 \<longleftrightarrow> l2_norm a = 0 \<or> l2_norm b = 0"
    using norms_product [of a b] by (cases "l2_norm a = 0"; cases "l2_norm b = 0") (simp_all add: fmul_def)
  ultimately show ?thesis using cosine_commute by simp
qed

section \<open>The similarity of two texts\<close>

lemma embed_range: "x \<in> set (embed_text t) \<Longrightarrow> 0 \<le> x \<and> x \<le> two 1"
proof -
  assume "x \<in> set (embed_text t)"
  then obtain j where "j < embed_dim" "x = embed_text t ! j" by (auto simp: in_set_conv_nth)
  with entry(1,2) [of j t] show ?thesis by (simp split: if_splits)
qed

lemma embed_norm:
  assumes "hits_bucket t j" "j < embed_dim"
  shows "two (- 30) \<le> l2_norm (embed_text t)" and "l2_norm (embed_text t) \<le> two 7"
proof -
  have "embed_text t ! j \<in> set (embed_text t)" using assms(2) by simp
  then show "two (- 30) \<le> l2_norm (embed_text t)"
    by (rule l2_norm_ge [OF _ entry_hit [OF assms(2,1)]]) simp
  show "l2_norm (embed_text t) \<le> two 7"
    using l2_norm_le [of "embed_text t" 1] embed_range [of _ t] by (simp add: embed_dim_def)
qed

definition text_dot :: "str \<Rightarrow> str \<Rightarrow> rat" where
  "text_dot s t = f32_sum (map (\<lambda>(x, y). fmul x y) (zip (embed_text s) (embed_text t)))"

lemma text_dot_shared:
  assumes "hits_bucket s j" "hits_bucket t j" "j < embed_dim"
  shows "two (- 60) \<le> text_dot s t"
proof -
  let ?p = "fmul (embed_text s ! j) (embed_text t ! j)"
  have "two (- 30 + - 30) \<le> ?p" by (intro fmul_ge entry_hit assms) simp
  moreover have "?p \<in> set (map (\<lambda>(x, y). fmul x y) (zip (embed_text s) (embed_text t)))"
    using assms(3) by (force simp: in_set_conv_nth set_zip)
  ultimately show ?thesis unfolding text_dot_def
    by (intro f32_sum_ge [of "two (- 60)" ?p] is_f32_two)
       (auto simp: set_zip intro!: fmul_nonneg entry(1))
qed

lemma text_dot_disjoint:
  assumes "\<And>j. j < embed_dim \<Longrightarrow> \<not> (hits_bucket s j \<and> hits_bucket t j)"
  shows "text_dot s t = 0"
proof -
  have "fmul (embed_text s ! j) (embed_text t ! j) = 0" if "j < embed_dim" for j
    using entry_miss [OF that, of s] entry_miss [OF that, of t] assms [OF that] by (auto simp: fmul_def)
  then have "map (\<lambda>(x, y). fmul x y) (zip (embed_text s) (embed_text t)) = replicate embed_dim 0"
    by (intro nth_equalityI) simp_all
  then show ?thesis by (simp add: text_dot_def f32_sum_zeros)
qed

text \<open>
  Two texts are similar exactly when they share a bucket: the score is never negative, it is
  positive when some position-shifted character of one falls in a bucket of the other, however small
  the entries are, and it is 0 otherwise.
\<close>

lemma similarity_of_texts:
  "0 \<le> cosine_similarity (embed_text s) (embed_text t) \<and>
   (0 < cosine_similarity (embed_text s) (embed_text t)) =
     list_ex (\<lambda>j. hits_bucket s j \<and> hits_bucket t j) [0..<embed_dim]"
proof (cases "list_ex (\<lambda>j. hits_bucket s j \<and> hits_bucket t j) [0..<embed_dim]")
  case True
  then obtain j where j: "hits_bucket s j" "hits_bucket t j" "j < embed_dim" by (auto simp: list_ex_iff)
  let ?a = "l2_norm (embed_text s)" and ?b = "l2_norm (embed_text t)"
  have lo: "0 < ?a" "0 < ?b"
    using embed_norm(1) [OF j(1,3)] embed_norm(1) [OF j(2,3)] two_pos [of "- 30"] by linarith+
  have prod: "0 < fmul ?a ?b" using norms_product lo by simp
  have "fmul ?a ?b \<le> two (7 + 7)"
    using embed_norm(2) [OF j(1,3)] embed_norm(2) [OF j(2,3)] lo by (intro fmul_le) simp_all
  then have "two (- 74) * fmul ?a ?b \<le> two (- 74) * two (7 + 7)" by (intro mult_left_mono) simp_all
  also have "\<dots> = two (- 60)" by (simp only: two_add [symmetric]) simp
  also have "\<dots> \<le> text_dot s t" by (rule text_dot_shared [OF j])
  finally have "two (- 74) \<le> text_dot s t / fmul ?a ?b" using prod by (simp only: pos_le_divide_eq)
  then have "two (- 74) \<le> fdiv (text_dot s t) (fmul ?a ?b)"
    unfolding fdiv_def using two_pos [of "- 74"] by (intro round_ge is_f32_two) linarith+
  moreover have "cosine_similarity (embed_text s) (embed_text t) = fdiv (text_dot s t) (fmul ?a ?b)"
    using lo by (simp add: cosine_similarity_def text_dot_def Let_def)
  ultimately have "0 < cosine_similarity (embed_text s) (embed_text t)" using two_pos [of "- 74"] by linarith
  with True show ?thesis by simp
next
  case False
  then have "text_dot s t = 0" by (intro text_dot_disjoint) (auto simp: list_ex_iff)
  then have "cosine_similarity (embed_text s) (embed_text t) = 0"
    by (simp add: cosine_similarity_def text_dot_def [symmetric] Let_def)
  with False show ?thesis by simp
qed

section \<open>Ranking with the embedding\<close>

definition rank_texts :: "str \<Rightarrow> context_chunk list \<Rightarrow> nat \<Rightarrow> retrieved_chunk list" where
  "rank_texts = rank_raw embed_text cosine_similarity"

definition shares_bucket :: "str \<Rightarrow> str \<Rightarrow> bool" where
  "shares_bucket s t = list_ex (\<lambda>j. hits_bucket s j \<and> hits_bucket t j) [0..<embed_dim]"

lemma insert_scored:
  assumes "\<forall>y\<in>set ps. 0 < rc_score y" "\<forall>z\<in>set zs. rc_score z = 0"
  shows "0 < rc_score x \<Longrightarrow> insert_by better x (ps @ zs) = insert_by better x ps @ zs"
    and "rc_score x = 0 \<Longrightarrow> insert_by better x (ps @ zs) = ps @ x # zs"
  using assms by (induction ps; cases zs; simp add: better_def not_le)+

lemma sort_scored:
  "\<forall>x\<in>set xs. 0 \<le> rc_score x \<Longrightarrow>
   sort_by better xs = sort_by better (filter (\<lambda>x. 0 < rc_score x) xs) @ filter (\<lambda>x. rc_score x = 0) xs"
proof (induction xs)
  case (Cons x xs)
  let ?ps = "sort_by better (filter (\<lambda>x. 0 < rc_score x) xs)" and ?zs = "filter (\<lambda>x. rc_score x = 0) xs"
  have "sort_by better (x # xs) = insert_by better x (?ps @ ?zs)" using Cons by (simp only: sort_by.simps) simp
  moreover have "\<forall>y\<in>set ?ps. 0 < rc_score y" "\<forall>z\<in>set ?zs. rc_score z = 0" by simp_all
  note insert_scored [OF this, of x]
  moreover have "0 < rc_score x \<or> rc_score x = 0" using Cons.prems by auto
  ultimately show ?case by (elim disjE) (simp_all del: sort_by.simps(2), simp_all)
qed simp

text \<open>
  C24: What ranking by the embedding returns: first the chunks that share a bucket with the query, best
  score first, then the others with score 0 in the order they came in; an unrelated chunk is returned
  only when the related ones do not fill the request.
\<close>

theorem ranking_by_embedding:
  "rank_texts q cands k = take (max k 1)
     (sort_by better (map (scored embed_text cosine_similarity q) (filter (\<lambda>c. shares_bucket q (cc_content c)) cands)) @
      map (\<lambda>c. \<lparr>rc_chunk = c, rc_score = 0\<rparr>) (filter (\<lambda>c. \<not> shares_bucket q (cc_content c)) cands))"
proof -
  let ?sc = "scored embed_text cosine_similarity q"
  have pos: "0 < rc_score (?sc c) \<longleftrightarrow> shares_bucket q (cc_content c)" and nonneg: "0 \<le> rc_score (?sc c)" for c
    using similarity_of_texts [of q "cc_content c"] by (simp_all add: scored_def shares_bucket_def)
  have zero: "rc_score (?sc c) = 0 \<longleftrightarrow> \<not> shares_bucket q (cc_content c)" for c
    unfolding pos [symmetric] using nonneg [of c] by linarith
  then have "?sc c = \<lparr>rc_chunk = c, rc_score = 0\<rparr>" if "\<not> shares_bucket q (cc_content c)" for c
    using that by (simp add: scored_def)
  then have "map ?sc (filter (\<lambda>c. \<not> shares_bucket q (cc_content c)) cands) =
    map (\<lambda>c. \<lparr>rc_chunk = c, rc_score = 0\<rparr>) (filter (\<lambda>c. \<not> shares_bucket q (cc_content c)) cands)"
    by simp
  with sort_scored [of "map ?sc cands"] show ?thesis
    by (simp add: rank_texts_def rank_raw_scored filter_map comp_def pos zero nonneg)
qed

end
