(* ===== verification/Ipc.thy ===== *)
theory Ipc
  imports Desk
begin

text \<open>
  What crosses between the front end and the desktop shell (src/gui/src-tauri/src/ipc.rs): the requests
  and the payloads of the commands on quests, comments and locks, their conversion from the core's values
  (the \<open>From\<close> implementations), and the commands over them (commands/quest.rs, commands/collab.rs,
  commands/chat.rs, commands/agent.rs).  The JSON that serde makes of them is not modelled.
\<close>

section \<open>Quests\<close>

record quest_run_request =
  qr_goal :: str
  qr_auto_commit :: "bool option"

datatype status_dto = Dto_Pending | Dto_Running | Dto_Success | Dto_Failed | Dto_Skipped

record subtask_dto =
  sd_id :: str
  sd_description :: str
  sd_status :: status_dto

record pending_dto =
  pd_id :: str
  pd_tool :: str
  pd_argument :: str
  pd_subtask_id :: str

record quest_report_dto =
  qd_goal :: str
  qd_subtasks :: "subtask_dto list"
  qd_successes :: nat
  qd_failures :: nat
  qd_pending :: "pending_dto list"

definition status_dto_of :: "subtask_status \<Rightarrow> status_dto" where
  "status_dto_of s = (case s of ST_Pending \<Rightarrow> Dto_Pending | ST_Running \<Rightarrow> Dto_Running
     | ST_Success \<Rightarrow> Dto_Success | ST_Failed \<Rightarrow> Dto_Failed | ST_Skipped \<Rightarrow> Dto_Skipped)"

definition subtask_dto_of :: "subtask \<Rightarrow> subtask_dto" where
  "subtask_dto_of st = \<lparr>sd_id = st_id st, sd_description = st_description st, sd_status = status_dto_of (st_status st)\<rparr>"

definition pending_dto_of :: "pending_approval \<Rightarrow> pending_dto" where
  "pending_dto_of p = \<lparr>pd_id = pa_id p, pd_tool = pa_tool p, pd_argument = pa_argument p, pd_subtask_id = pa_subtask p\<rparr>"

definition quest_report_dto_of :: "quest_report \<Rightarrow> quest_report_dto" where
  "quest_report_dto_of r = \<lparr>qd_goal = rp_goal r, qd_subtasks = map subtask_dto_of (rp_subtasks r),
     qd_successes = rp_successes r, qd_failures = rp_failures r, qd_pending = map pending_dto_of (rp_pending r)\<rparr>"

definition cmd_quest_run ::
  "'n agent_http \<Rightarrow> ('n \<Rightarrow> int) \<Rightarrow> keyring_answer \<Rightarrow> quest_run_request \<Rightarrow> desktop \<Rightarrow> 'n \<Rightarrow> u64 \<Rightarrow>
   (gui_error + quest_report_dto) \<times> 'n \<times> u64" where
  "cmd_quest_run H clk keyring req d n c =
     (case gui_run_quest H clk keyring (qr_goal req) (qr_auto_commit req) d n c of
        (r, s) \<Rightarrow> (map_sum id quest_report_dto_of r, s))"

section \<open>Comments, locks and secrets\<close>

record comment_add_request =
  car_file :: str
  car_line :: nat
  car_body :: str

record secret_set_request =
  ssr_name :: str
  ssr_value :: str

record comment_dto =
  cd_id :: str
  cd_tenant_id :: str
  cd_file :: str
  cd_line_start :: nat
  cd_line_end :: nat
  cd_author :: str
  cd_body :: str
  cd_resolved :: bool
  cd_created_at :: int

definition comment_dto_of :: "comment \<Rightarrow> comment_dto" where
  "comment_dto_of c = \<lparr>cd_id = co_id c, cd_tenant_id = co_tenant c, cd_file = co_file c,
     cd_line_start = co_line_start c, cd_line_end = co_line_end c, cd_author = co_author c,
     cd_body = co_body c, cd_resolved = co_resolved c, cd_created_at = co_created_at c\<rparr>"

record lock_dto =
  ld_tenant_id :: str
  ld_file :: str
  ld_owner :: str
  ld_acquired_at :: int

definition lock_dto_of :: "lock \<Rightarrow> lock_dto" where
  "lock_dto_of l = \<lparr>ld_tenant_id = lk_tenant l, ld_file = lk_file l, ld_owner = lk_owner l, ld_acquired_at = lk_acquired_at l\<rparr>"

text \<open>\<open>gui_comment_add\<close> has built the comment the command answers with.\<close>

definition cmd_comment_add :: "collab_env \<Rightarrow> comment_add_request \<Rightarrow> comment_dto gui" where
  "cmd_comment_add E req = bnd (gui_comment_add E (car_file req) (car_line req) (car_body req)) (\<lambda>c. ret (comment_dto_of c))"

definition cmd_comment_list :: "collab_env \<Rightarrow> str \<Rightarrow> comment_dto list gui" where
  "cmd_comment_list E f = bnd (gui_comment_list E f) (\<lambda>cs. ret (map comment_dto_of cs))"

definition cmd_lock_acquire :: "collab_env \<Rightarrow> str \<Rightarrow> lock_dto gui" where
  "cmd_lock_acquire E f = bnd (gui_lock_acquire E f) (\<lambda>l. ret (lock_dto_of l))"

definition cmd_lock_show :: "collab_env \<Rightarrow> str \<Rightarrow> lock_dto option gui" where
  "cmd_lock_show E f = bnd (gui_lock_show E f) (\<lambda>l. ret (map_option lock_dto_of l))"

definition cmd_secret_set :: "collab_env \<Rightarrow> secret_set_request \<Rightarrow> unit gui" where
  "cmd_secret_set E req = gui_secret_set E (ssr_name req) (ssr_value req)"

section \<open>A quest of the shell\<close>

lemma desk_decompose:
  obtains sts t where "llm_decompose llm goal s = (sts, t)" and "list_all (\<lambda>st. st_status st = ST_Pending) sts"
    and "map st_id sts = map (\<lambda>i. ''st-'' @ show_nat (i + 1)) [0..<length sts]" and "pending_same s t"
proof -
  obtain sts t where go: "llm_decompose llm goal s = (sts, t)" by force
  moreover have "list_all (\<lambda>st. st_status st = ST_Pending) sts"
    using go parse_subtasks_spec
    by (auto simp: llm_decompose_def subtask_new_def split: prod.splits sum.splits)
  moreover have "map st_id sts = map (\<lambda>i. ''st-'' @ show_nat (i + 1)) [0..<length sts]"
    using go parse_subtasks_spec
    by (auto simp: llm_decompose_def subtask_new_def show_one split: prod.splits sum.splits)
  moreover have "pending_same s t"
    using go by (auto simp: llm_decompose_def eff_simps external_def pending_same_def split: prod.splits sum.splits)
  ultimately show ?thesis by (rule that)
qed

lemma basic_pending_same: "rel_eff pending_same (basic_run tool arg)"
  by (rule rel_effI) (auto simp: basic_run_def pending_same_def)

lemma desk_exact:
  assumes "q_decomposer q = llm_decompose (q_llm q)" and "q_tools q = basic_run"
  shows "rel_eff (holds_exactly (qc_auto_commit (q_config q))) (quest_run q goal)"
proof (rule exact_quest)
  show "tool_executor (q_tools q)" unfolding assms(2) by (rule basic.tool_executor_axioms)
  show "rel_eff pending_same (q_tools q tool arg)" for tool arg
    unfolding assms(2) by (rule basic_pending_same)
  show "holds_exactly (qc_auto_commit (q_config q)) s (snd (q_decomposer q goal s))" for s
  proof -
    have "rel_eff (holds_exactly (qc_auto_commit (q_config q)))
        (\<lambda>s. (Inr () :: unit + unit, snd (llm_decompose (q_llm q) goal s)))"
      by (rule rel_effI) (auto simp: llm_decompose_def eff_simps external_def
          intro: exact_plain [of _ _ "[C_Repair (decomposition_prompt goal)]"] split: prod.splits sum.splits)
    then show ?thesis by (simp add: assms(1) rel_eff_def)
  qed
qed

text \<open>What the front end is told of a subtask.\<close>

definition told :: "status_dto \<Rightarrow> subtask \<Rightarrow> subtask_dto" where
  "told x st = \<lparr>sd_id = st_id st, sd_description = st_description st, sd_status = x\<rparr>"

lemma dto_subtasks:
  "list_all (\<lambda>st. st_status st = ST_Success \<or> st_status st = ST_Failed) run \<Longrightarrow>
   map subtask_dto_of run = map (\<lambda>st. told (if st_status st = ST_Success then Dto_Success else Dto_Failed) st) run"
  "map subtask_dto_of (map (\<lambda>st. st\<lparr>st_status := ST_Skipped\<rparr>) sts) = map (told Dto_Skipped) sts"
  by (auto simp: subtask_dto_of_def told_def status_dto_of_def list_all_iff)

text \<open>
  C19: A quest run from the desktop shell, for every goal, model and network: it always answers with a
  report, and the report tells what happened.  The model splits the goal into numbered subtasks; the
  first eight are run in order, and each is reported as a success or a failure by what its runs came to
  (as in the account of a quest's report); the others are reported as skipped, and the two counters are
  the numbers of successes and failures.  The actions listed as held for approval are exactly the
  planner's calls of tools of class Execute or Commit, in order and with their arguments, unless the
  request allows auto-commit, when none is held; they are numbered on from the counter of the process.
\<close>

theorem shell_quest_report:
  "case cmd_quest_run H clk keyring req d n c of (r, n', c') \<Rightarrow>
   case gui_quest H clk (in_process_config keyring d) (qr_auto_commit req) of q \<Rightarrow>
   case q_decomposer q (qr_goal req) ((world0 (\<lambda>_. None, n))\<lparr>w_counter := c\<rparr>) of (sts, s1) \<Rightarrow>
     \<exists>rep t run. r = Inr rep \<and> n' = snd (env t) \<and>
       map st_id sts = map (\<lambda>i. ''st-'' @ show_nat (i + 1)) [0..<length sts] \<and>
       accounted q (take 8 sts) run s1 t \<and>
       qd_goal rep = qr_goal req \<and>
       qd_subtasks rep =
         map (\<lambda>st. told (if st_status st = ST_Success then Dto_Success else Dto_Failed) st) run @
         map (told Dto_Skipped) (drop 8 sts) \<and>
       qd_successes rep = with_status ST_Success run \<and> qd_failures rep = with_status ST_Failed run \<and>
       map (\<lambda>p. (pd_tool p, pd_argument p)) (qd_pending rep) =
         held_calls (qr_auto_commit req = Some True) (trail t) \<and>
       map pd_id (qd_pending rep) = map (\<lambda>i. fast_id (c + of_nat i)) [0..<length (qd_pending rep)] \<and>
       c' = c + of_nat (length (qd_pending rep))"
proof -
  define q where "q = gui_quest H clk (in_process_config keyring d) (qr_auto_commit req)"
  define s where "s = (world0 ((\<lambda>_. None) :: docs, n))\<lparr>w_counter := c\<rparr>"
  have q: "q_decomposer q = llm_decompose (q_llm q)" "q_tools q = basic_run" "qc_max_subtasks (q_config q) = 8"
    "qc_auto_commit (q_config q) = (qr_auto_commit req = Some True)"
    by (simp_all add: q_def gui_quest_def quest_new_def gui_quest_config_def config_quest_def in_process_config_def
        build_core_config_def core_config_default_def Let_def split: option.split vendor_kind.split sum.split)
  have same: "pending_same s (snd (q_decomposer q goal s))" for goal s
    by (rule desk_decompose [of "q_llm q" goal s]) (simp add: q)
  have same_tools: "rel_eff pending_same (q_tools q tool arg)" for tool arg by (simp add: q(2) basic_pending_same)
  obtain sts s1 where dec: "q_decomposer q (qr_goal req) s = (sts, s1)" "list_all (\<lambda>st. st_status st = ST_Pending) sts"
    "map st_id sts = map (\<lambda>i. ''st-'' @ show_nat (i + 1)) [0..<length sts]"
    unfolding q(1) by (rule desk_decompose)
  from quest_report_comes [OF dec(1,2)] obtain rp t run where quest: "quest_run q (qr_goal req) s = (Inr rp, t)"
    and rp: "rp_goal rp = qr_goal req"
      "rp_subtasks rp = run @ map (\<lambda>st. st\<lparr>st_status := ST_Skipped\<rparr>) (drop 8 sts)"
      "rp_successes rp = with_status ST_Success run" "rp_failures rp = with_status ST_Failed run"
      "rp_pending rp = w_pending t"
    and acc: "accounted q (take 8 sts) run s1 t"
    unfolding q(3) by blast
  have start: "w_pending s = []" "w_counter s = c" "trail s = []" by (simp_all add: s_def world0_def)
  from rel_effD [OF desk_exact [OF q(1,2)] quest]
  have held: "map (\<lambda>pa. (pa_tool pa, pa_argument pa)) (w_pending t) = held_calls (qr_auto_commit req = Some True) (trail t)"
    unfolding holds_exactly_def q(4) start by auto
  from rel_effD [OF quest_held [OF same_tools same] quest]
  have ids: "map pa_id (w_pending t) = map (\<lambda>i. fast_id (c + of_nat i)) [0..<length (w_pending t)]"
    "w_counter t = c + of_nat (length (w_pending t))"
    unfolding held_def start by auto
  have cmd: "cmd_quest_run H clk keyring req d n c = (Inr (quest_report_dto_of rp), snd (env t), w_counter t)"
    using quest by (simp add: cmd_quest_run_def gui_run_quest_def q_def [symmetric] s_def [symmetric] gui_result_def)
  have subtasks: "map subtask_dto_of (rp_subtasks rp) =
      map (\<lambda>st. told (if st_status st = ST_Success then Dto_Success else Dto_Failed) st) run @ map (told Dto_Skipped) (drop 8 sts)"
    using accounted_statuses [OF acc] by (simp only: rp(2) map_append dto_subtasks)
  show ?thesis
    unfolding cmd q_def [symmetric] s_def [symmetric] dec(1) prod.case
    using dec(3) acc rp(1,3,4) subtasks held ids
    by (intro exI [of _ "quest_report_dto_of rp"] exI [of _ t] exI [of _ run])
      (simp add: quest_report_dto_of_def rp(5) pending_dto_of_def comp_def)
qed

end
