(* ===== verification/Spec2Isabelle.thy ===== *)
theory Spec2Isabelle
  imports Quest Craft Serve_Env Collab Probe Admin Ckg Latency Secrets Cli Fs_Host Shell Desk
    Audit_Race Startup Embedding Ipc
begin

text \<open>
  Verification development for \<open>aidea\<close>: the decision Core (src/crates/core), the completion probe
  (src/crates/probe), the command line (src/crates/cli) and the Rust side of the desktop shell
  (src/gui/src-tauri).

  The program.  A request enters by the gRPC service, the command line or the desktop shell.  The
  caller becomes a principal with a six-bit permission mask.  A chat is answered by the chat engine; an
  agent run is the planner's loop of thinking, planning, acting and validating; a quest decomposes a
  goal into subtasks and gives each to a planner whose tools sit behind an approval gate and a
  self-healing executor; a craft proposal is an edit a human confirms.  Every privileged action is
  authorized against the mask, audited to a sink (in memory, or Postgres with a hash chain) and
  counted.  Edits reach a document through the host bridge.  Comments, locks and secrets are shared
  through Postgres; completions come from the probe with its cache and its degradation to rules; the
  code knowledge graph enriches the context.  The desktop shell brings up PostgreSQL, llama-server and
  \<open>aidea serve\<close>, forwards the streams of the service, and runs craft, quest and collaboration in its
  own process.

  Theories and the code they model (under src/crates/core/src unless a path is given):

  \<^item> \<open>Prelude\<close>: results and effects, the locales for state relations and comparators, lists.
  \<^item> \<open>Rust_Str\<close>: Rust's \<open>str\<close> as the list of its UTF-8 bytes, with the operations the code uses.
  \<^item> \<open>Permissions\<close>: permissions.rs, principal.rs.  \<open>Metrics\<close>: metrics.rs.
  \<^item> \<open>Audit_Trail\<close>: audit.rs and the chain functions of src/migrations/0005_v20.sql.  \<open>Audit_Race\<close>:
    the records of several tasks written at the same time, statement by statement.
  \<^item> \<open>Host\<close>: host/ (provider, bridge, CLI host, gRPC client) and the world a run works in.
  \<^item> \<open>Context_Manager\<close>: context_manager.rs.  \<open>Ckg\<close>: ckg.rs, retrieval.rs.  \<open>Float32\<close>: the rounding of
    32-bit floats.  \<open>Embedding\<close>: the embedding and the cosine of context_manager.rs, and ranking with them.
  \<^item> \<open>Tools\<close>: llm.rs, tool_executor.rs, validator.rs, engineering.rs.  \<open>Self_Heal\<close>: self_heal.rs.
  \<^item> \<open>Planner\<close>: planner.rs.  \<open>Quest\<close>: quest.rs.  \<open>Craft\<close>: craft.rs.  \<open>Chat\<close>: chat.rs.
  \<^item> \<open>Auth\<close>: auth.rs.  \<open>Config\<close>: config.rs.  \<open>Collab\<close>: collab.rs.  \<open>Secrets\<close>: security.rs with its
    SQL functions.
  \<^item> \<open>Agent\<close>: agent.rs.  \<open>Admin\<close>: admin.rs, health.rs and the console adapter of server.rs.  \<open>Startup\<close>:
    server.rs and main.rs, the Core's own binary with its demo.
  \<^item> \<open>Probe\<close>, \<open>Latency\<close>: src/crates/probe/src (completion.rs, ollama.rs, openai.rs).
  \<^item> \<open>Cli\<close>: src/crates/cli/src/lib.rs, every command as a process over the machine it leaves.
  \<^item> \<open>Serve_Env\<close>: model_backend.rs and domain/core_config.rs of the desktop shell; \<open>Fs_Host\<close>:
    domain/fs_host.rs and domain/craft.rs; \<open>Shell\<close>: state.rs, config.rs, bootstrap/ and the commands
    on the model choice; \<open>Desk\<close>: grpc/stream.rs, the chat and agent commands, domain/collab.rs,
    domain/quest.rs and commands/health.rs; \<open>Ipc\<close>: ipc.rs, the payloads of the commands.

  How code corresponds to definitions.  A struct is a record, an enum a datatype, a \<open>u8\<close>, \<open>u32\<close> or
  \<open>u64\<close> whose width matters a word (counters wrap), \<open>usize\<close> a nat, \<open>f32\<close> and \<open>f64\<close> finite rationals,
  rounded as the hardware does in the embedding.
  A function that fails returns a sum with its error on the left; code that mutates shared state is an
  effect \<open>'s \<Rightarrow> ('e + 'a) \<times> 's\<close> written with \<open>bnd\<close> (the question mark) and \<open>handle\<close> (a match on the
  result).  A trait is a record of functions over the state of its implementor, so that models, hosts,
  tools, sinks and decomposers stay arbitrary in the theorems; the implementations in the repository
  are values of these records.  The record \<open>world\<close> holds that outer state, the metrics, the actions
  held for approval, the id counter, and the trail: every question to a model, audit record, tool run,
  edit and event in order.  The safety theorems read the trail.

  Interfaces.  Locales state what a client relies on, and each is interpreted on the model of the code:
  \<open>state_rel\<close> (a reflexive, transitive relation lifted over effects) and \<open>log_property\<close> (a property of
  what a run adds to the trail) carry the invariants of planner, quest, chat, agent, command line and
  shell; \<open>tool_executor\<close> and \<open>base_executor\<close> the tools; \<open>document_store\<close> the hosts, in memory and on
  disk; \<open>append_only\<close> the audit sinks; \<open>capability_set\<close> the mask; \<open>comment_store\<close> and \<open>lock_store\<close> the
  collaboration stores; \<open>answer_cache\<close> the completion cache; \<open>ckg_index\<close> the graph in memory and over
  Postgres; \<open>comparator\<close> every sorting order.

  What the lemmas show.
  \<^item> Authority: a privileged tool runs only with its permission and right after its audit record, over
    every loop, retry and subtask; the gate of a quest; an agent run acts with the caller's rights; what
    the engineering tools escape; who is let in with single sign-on, and that tokens round-trip.
  \<^item> Accounting: counters agree with the trail, quests report exactly what happened, the server's
    invariant holds over every history of requests.
  \<^item> Stores: the audit chain is kept under every fault and commits to the actions; what stays of it
    when the service's tasks write at the same time, and how it forks then; comments are isolated
    by tenant; secrets and the graph survive the process; the cache refines a bounded FIFO map.
  \<^item> Retrieval: an embedding is positive exactly at the buckets its text hits, whatever is rounded; the
    cosine never divides by zero; ranking puts what shares a bucket with the query first.
  \<^item> Text: budget trimming and compression, the scanner of the graph and its queries, chunks of a reply,
    the admin listener's answers.
  \<^item> Bounds and endings: attempts of the self-healing executor, tools of a quest, requests of a
    completion, the interleavings of a batch, which commands end well and which panic.
  \<^item> Start-up: what the demo of the Core prints for every goal.
  \<^item> The shell: what the report of a quest says; the outcome of bringing up the stack and of its retries, the configuration the served
    core loads, what a confirmed edit does to the disk, which stop reaches which stream, and that the
    stored model choice and the online key do not arrive where they are meant to.

  Bounds and fuel.  Loops over data recurse on it.  Loops with a counter in the code recurse on that
  counter: steps of the planner, repair attempts, retries, subtasks, the 60 probes of PostgreSQL and of
  llama-server.  Waiting for the server is bounded by a clock; its fuel of 62 probes is enough because
  half a second passes between two (\<open>wait_until_ready_ends\<close>).  Functions that do not recurse on a
  subterm (characters of a string, words, declarations) have measures.  Lists of steps model
  interleavings: session operations, requests of the server, batch tasks, happenings during a stream.

  Parameters.  Code that is not in the repository is an argument of the definitions that use it: HTTP
  and gRPC transport, SHA-256, HMAC, base64 and the JSON text, pgcrypto, the Postgres server (as faults
  of a transaction, its clock, its collation, the session key it draws), process spawning, the key ring,
  the store plugin, Unicode's tables, the wall clock.

  Not modelled:
  \<^item> tonic, sockets and the accept loops of server.rs and admin.rs; protobuf and serde encodings; clap.
    Handlers run one at a time, but for the audit tasks of \<open>Audit_Race\<close>, and a stream is the list of its
    messages.
  \<^item> Connecting to Postgres, its migrations other than the functions named above, and row-level security
    as a mechanism: a statement sees the table, filtered where the SQL filters; \<open>Audit_Race\<close> has a role
    that may select and one that may not.
  \<^item> Floating point: latencies and confidences are exact rationals.  In \<open>Float32\<close> infinities, NaN and the
    sign of zero are left out; the embedding's values are shown to stay between 0 and 2, and a cosine of
    vectors whose squares overflow is not meant by the model.
  \<^item> Diagnostic output: tracing spans, stderr, the lines the hosts print, and the Chinese texts of the
    desktop shell's progress and errors.
  \<^item> Supervision of child processes beyond which of them run; the benchmarks, demos and tests; the
    TypeScript front end and the editor extension.
\<close>

end
